(* ===== verification/Prelude.thy ===== *)
theory Prelude
  imports "HOL-Library.Word" "HOL-Library.List_Lexorder" "HOL-Library.Char_ord"
    "HOL-Library.Sublist"
begin

text \<open>
  Shared vocabulary: the text operations of the Rust standard library that the
  SoundSync sources use (trimming, splitting, searching, number parsing and
  printing), durations, and the lemmas about them that the component theories
  share.

  A Rust \<open>str\<close> is a list of \<open>char\<close>, one per byte; the operations below are exact on
  ASCII text, which is what the external tools of the program print.  White space
  is the ASCII white space of \<open>char::is_whitespace\<close>.
\<close>

named_theorems text_simps "equations that evaluate the text operations"

section \<open>White space and trimming\<close>

definition is_ws :: "char \<Rightarrow> bool" where
  "is_ws c \<longleftrightarrow>
     c = CHR 0x20 \<or> c = CHR 0x09 \<or> c = CHR 0x0A \<or> c = CHR 0x0B \<or> c = CHR 0x0C \<or> c = CHR 0x0D"

definition trim_start :: "string \<Rightarrow> string" where
  "trim_start s = dropWhile is_ws s"

definition trim_end :: "string \<Rightarrow> string" where
  "trim_end s = rev (dropWhile is_ws (rev s))"

definition trim :: "string \<Rightarrow> string" where
  "trim s = trim_end (trim_start s)"

section \<open>Splitting\<close>

text \<open>\<open>str::split\<close> with a character predicate: separators are dropped, empty pieces kept.\<close>

fun split_by :: "(char \<Rightarrow> bool) \<Rightarrow> string \<Rightarrow> string list" where
  "split_by p [] = [[]]"
| "split_by p (c # cs) =
     (if p c then [] # split_by p cs
      else (case split_by p cs of [] \<Rightarrow> [[c]] | w # ws \<Rightarrow> (c # w) # ws))"

abbreviation split_on :: "char \<Rightarrow> string \<Rightarrow> string list" where
  "split_on c \<equiv> split_by (\<lambda>x. x = c)"

text \<open>\<open>str::split_once\<close> with a character: the text before and after its first occurrence.\<close>

fun split_once :: "char \<Rightarrow> string \<Rightarrow> (string \<times> string) option" where
  "split_once d [] = None"
| "split_once d (c # cs) =
     (if c = d then Some ([], cs)
      else map_option (\<lambda>(a, b). (c # a, b)) (split_once d cs))"

text \<open>\<open>str::splitn(n, char)\<close>: at most \<open>n\<close> pieces, the last one holding the rest.\<close>

fun splitn :: "nat \<Rightarrow> char \<Rightarrow> string \<Rightarrow> string list" where
  "splitn 0 d s = []"
| "splitn (Suc 0) d s = [s]"
| "splitn (Suc (Suc n)) d s =
     (case split_once d s of None \<Rightarrow> [s] | Some (a, b) \<Rightarrow> a # splitn (Suc n) d b)"

text \<open>
  \<open>str::lines\<close>: split at line feeds, a carriage return before the line feed removed,
  and no empty line after a final line feed.
\<close>

definition strip_cr :: "string \<Rightarrow> string" where
  "strip_cr s = (if s \<noteq> [] \<and> last s = CHR 0x0D then butlast s else s)"

definition lines :: "string \<Rightarrow> string list" where
  "lines s =
     (let ps = split_on CHR 0x0A s
      in map strip_cr (butlast ps) @ (if last ps = [] then [] else [last ps]))"

text \<open>\<open>str::split_whitespace\<close>: the maximal runs of non-white-space characters.\<close>

definition split_whitespace :: "string \<Rightarrow> string list" where
  "split_whitespace s = filter (\<lambda>w. w \<noteq> []) (split_by is_ws s)"

section \<open>Searching and replacing\<close>

definition strip_prefix :: "string \<Rightarrow> string \<Rightarrow> string option" where
  "strip_prefix p s = (if prefix p s then Some (drop (length p) s) else None)"

abbreviation starts_with :: "string \<Rightarrow> string \<Rightarrow> bool" where
  "starts_with s p \<equiv> prefix p s"

abbreviation ends_with :: "string \<Rightarrow> string \<Rightarrow> bool" where
  "ends_with s p \<equiv> suffix p s"

text \<open>\<open>str::find\<close>: the byte offset of the first occurrence.\<close>

fun find_sub :: "string \<Rightarrow> string \<Rightarrow> nat option" where
  "find_sub p [] = (if p = [] then Some 0 else None)"
| "find_sub p (c # cs) =
     (if prefix p (c # cs) then Some 0 else map_option Suc (find_sub p cs))"

definition contains :: "string \<Rightarrow> string \<Rightarrow> bool" where
  "contains s p \<longleftrightarrow> find_sub p s \<noteq> None"

text \<open>\<open>str::rfind\<close>: the byte offset of the last occurrence.\<close>

fun rfind_sub :: "string \<Rightarrow> string \<Rightarrow> nat option" where
  "rfind_sub p [] = (if p = [] then Some 0 else None)"
| "rfind_sub p (c # cs) =
     (case rfind_sub p cs of
        Some i \<Rightarrow> Some (Suc i)
      | None \<Rightarrow> if prefix p (c # cs) then Some 0 else None)"

text \<open>\<open>str::replacen(from, to, 1)\<close>.\<close>

definition replace_first :: "string \<Rightarrow> string \<Rightarrow> string \<Rightarrow> string" where
  "replace_first p t s =
     (case find_sub p s of None \<Rightarrow> s | Some i \<Rightarrow> take i s @ t @ drop (i + length p) s)"

text \<open>\<open>str::replace(char, char)\<close>.\<close>

definition replace_char :: "char \<Rightarrow> char \<Rightarrow> string \<Rightarrow> string" where
  "replace_char a b s = map (\<lambda>c. if c = a then b else c) s"

text \<open>\<open>str::split_once\<close> with a string pattern.\<close>

definition split_once_str :: "string \<Rightarrow> string \<Rightarrow> (string \<times> string) option" where
  "split_once_str p s = map_option (\<lambda>i. (take i s, drop (i + length p) s)) (find_sub p s)"

text \<open>\<open>slice::join\<close>.\<close>

fun join :: "string \<Rightarrow> string list \<Rightarrow> string" where
  "join sep [] = []"
| "join sep [s] = s"
| "join sep (s # t # ss) = s @ sep @ join sep (t # ss)"

section \<open>Numbers as text\<close>

definition is_digit :: "char \<Rightarrow> bool" where
  "is_digit c \<longleftrightarrow> 48 \<le> (of_char c :: nat) \<and> (of_char c :: nat) \<le> 57"

definition digit_val :: "char \<Rightarrow> nat" where
  "digit_val c = of_char c - 48"

definition digits_val :: "string \<Rightarrow> nat" where
  "digits_val s = foldl (\<lambda>n c. 10 * n + digit_val c) 0 s"

text \<open>
  \<open>str::parse\<close> for an unsigned integer of \<open>w\<close> bits: one optional \<open>+\<close>, then at least one
  decimal digit and nothing else, and the value must fit.
\<close>

definition parse_uint :: "nat \<Rightarrow> string \<Rightarrow> nat option" where
  "parse_uint w s =
     (let ds = (case s of c # cs \<Rightarrow> if c = CHR ''+'' then cs else s | [] \<Rightarrow> [])
      in if ds \<noteq> [] \<and> list_all is_digit ds \<and> digits_val ds < 2 ^ w
         then Some (digits_val ds) else None)"

abbreviation parse_u8 :: "string \<Rightarrow> nat option" where "parse_u8 \<equiv> parse_uint 8"
abbreviation parse_u16 :: "string \<Rightarrow> nat option" where "parse_u16 \<equiv> parse_uint 16"
abbreviation parse_u32 :: "string \<Rightarrow> nat option" where "parse_u32 \<equiv> parse_uint 32"
abbreviation parse_u64 :: "string \<Rightarrow> nat option" where "parse_u64 \<equiv> parse_uint 64"

text \<open>\<open>Display\<close> of an unsigned integer.\<close>

definition digit_char :: "nat \<Rightarrow> char" where
  "digit_char d = ''0123456789'' ! d"

fun show_nat :: "nat \<Rightarrow> string" where
  "show_nat n =
     (if n < 10 then [digit_char n] else show_nat (n div 10) @ [digit_char (n mod 10)])"

declare show_nat.simps [simp del]

definition show_int :: "int \<Rightarrow> string" where
  "show_int i = (if i < 0 then CHR ''-'' # show_nat (nat (- i)) else show_nat (nat i))"

text \<open>The text of a list of lines, each with its line end.\<close>

definition unlines :: "string list \<Rightarrow> string" where
  "unlines ls = concat (map (\<lambda>l. l @ [CHR 0x0A]) ls)"

section \<open>Lemmas on trimming\<close>

lemma trim_eq_Nil_iff: "trim s = [] \<longleftrightarrow> list_all is_ws s"
proof
  assume "trim s = []"
  then have "\<forall>c \<in> set (dropWhile is_ws s). is_ws c"
    by (simp add: trim_def trim_start_def trim_end_def)
  then have "dropWhile is_ws s = []"
    using hd_dropWhile[of is_ws s] by (cases "dropWhile is_ws s") auto
  then show "list_all is_ws s" by (simp add: list_all_iff)
next
  assume "list_all is_ws s"
  then show "trim s = []"
    by (auto simp: trim_def trim_start_def trim_end_def list_all_iff dest: set_dropWhileD)
qed

lemma trim_no_outer_ws:
  assumes "s \<noteq> []" "\<not> is_ws (hd s)" "\<not> is_ws (last s)"
  shows "trim s = s"
proof -
  have "dropWhile is_ws s = s" using assms by (cases s) auto
  moreover have "dropWhile is_ws (rev s) = rev s" using assms by (cases s rule: rev_cases) auto
  ultimately show ?thesis by (simp add: trim_def trim_start_def trim_end_def)
qed

lemma hd_trim: "trim s \<noteq> [] \<Longrightarrow> \<not> is_ws (hd (trim s))"
proof -
  assume ne: "trim s \<noteq> []"
  define u where "u = dropWhile is_ws s"
  obtain ws where ws: "u = trim s @ ws"
    unfolding trim_def trim_start_def trim_end_def u_def[symmetric]
    by (metis rev_append rev_rev_ident takeWhile_dropWhile_id)
  with ne have "hd u = hd (trim s)" "u \<noteq> []" by auto
  then show ?thesis using hd_dropWhile[of is_ws s] by (simp add: u_def)
qed

lemma last_trim: "trim s \<noteq> [] \<Longrightarrow> \<not> is_ws (last (trim s))"
  unfolding trim_def trim_end_def
  by (metis hd_dropWhile hd_rev rev_is_Nil_conv rev_rev_ident)

lemma trim_Nil [simp]: "trim [] = []"
  by (simp add: trim_def trim_start_def trim_end_def)

lemma trim_idem [simp]: "trim (trim s) = trim s"
proof (cases "trim s = []")
  case True
  then show ?thesis by simp
next
  case False
  then show ?thesis by (intro trim_no_outer_ws) (simp_all add: hd_trim last_trim)
qed

lemma set_trim: "set (trim s) \<subseteq> set s"
  unfolding trim_def trim_start_def trim_end_def
  by (auto dest!: set_dropWhileD)

section \<open>Lemmas on splitting\<close>

lemma split_by_ne [simp]: "split_by p s \<noteq> []"
  by (induction s) (auto split: list.splits)

lemma split_by_no_sep: "\<forall>c \<in> set s. \<not> p c \<Longrightarrow> split_by p s = [s]"
  by (induction s) auto

lemma split_by_append_sep:
  "\<forall>c \<in> set a. \<not> p c \<Longrightarrow> p d \<Longrightarrow> split_by p (a @ d # b) = a # split_by p b"
  by (induction a) auto

lemma split_by_pieces: "w \<in> set (split_by p s) \<Longrightarrow> c \<in> set w \<Longrightarrow> \<not> p c"
proof (induction s arbitrary: w)
  case (Cons a s)
  then show ?case by (cases "split_by p s") (fastforce split: if_splits)+
qed simp

lemma split_by_pieces_set: "w \<in> set (split_by p s) \<Longrightarrow> set w \<subseteq> set s"
  by (induction s arbitrary: w) (fastforce split: list.splits if_splits)+

lemma split_once_append: "d \<notin> set a \<Longrightarrow> split_once d (a @ d # b) = Some (a, b)"
  by (induction a) auto

lemma split_once_None_iff: "split_once d s = None \<longleftrightarrow> d \<notin> set s"
  by (induction s) auto

lemma split_once_Some:
  "split_once d s = Some (a, b) \<Longrightarrow> s = a @ d # b \<and> d \<notin> set a"
  by (induction s arbitrary: a b) (auto split: if_splits)

lemma length_splitn: "length (splitn n d s) \<le> n"
  by (induction n d s rule: splitn.induct) (auto split: option.splits)

lemma lines_Nil [simp]: "lines [] = []"
  by (simp add: lines_def)

lemma lines_Cons_line:
  assumes "CHR 0x0A \<notin> set l"
  shows "lines (l @ CHR 0x0A # s) = strip_cr l # lines s"
proof -
  have "split_on CHR 0x0A (l @ CHR 0x0A # s) = l # split_on CHR 0x0A s"
    using assms by (intro split_by_append_sep) auto
  then show ?thesis by (simp add: lines_def Let_def)
qed

lemma lines_last:
  assumes "CHR 0x0A \<notin> set l" "l \<noteq> []"
  shows "lines l = [l]"
proof -
  have "split_on CHR 0x0A l = [l]" using assms by (intro split_by_no_sep) auto
  then show ?thesis using assms by (simp add: lines_def Let_def)
qed

lemma lines_concat:
  assumes "\<forall>l \<in> set ls. CHR 0x0A \<notin> set l \<and> strip_cr l = l"
  shows "lines (concat (map (\<lambda>l. l @ [CHR 0x0A]) ls)) = ls"
  using assms by (induction ls) (auto simp: lines_Cons_line)

section \<open>Lemmas on searching\<close>

lemma find_sub_Some:
  "find_sub p s = Some i \<Longrightarrow> i \<le> length s \<and> prefix p (drop i s)"
  by (induction s arbitrary: i) (auto split: if_splits)

lemma find_sub_least:
  "find_sub p s = Some i \<Longrightarrow> j < i \<Longrightarrow> \<not> prefix p (drop j s)"
  by (induction s arbitrary: i j) (auto split: if_splits simp: less_Suc_eq_0_disj)

lemma find_sub_None: "find_sub p s = None \<Longrightarrow> \<not> prefix p (drop j s)"
  by (induction s arbitrary: j) (auto split: if_splits simp: drop_Cons')

lemma contains_iff: "contains s p \<longleftrightarrow> (\<exists>a b. s = a @ p @ b)"
proof
  assume "contains s p"
  then obtain i where "find_sub p s = Some i" by (auto simp: contains_def)
  then have "prefix p (drop i s)" by (simp add: find_sub_Some)
  then obtain b where "drop i s = p @ b" by (auto simp: prefix_def)
  then have "s = take i s @ p @ b" by (metis append_take_drop_id)
  then show "\<exists>a b. s = a @ p @ b" by blast
next
  assume "\<exists>a b. s = a @ p @ b"
  then obtain a b where "s = a @ p @ b" by blast
  then have "prefix p (drop (length a) s)" by simp
  then show "contains s p" unfolding contains_def using find_sub_None by blast
qed

lemma rfind_sub_Some:
  "rfind_sub p s = Some i \<Longrightarrow> i \<le> length s \<and> prefix p (drop i s)"
  by (induction s arbitrary: i) (auto split: if_splits option.splits)

lemma rfind_sub_None: "rfind_sub p s = None \<Longrightarrow> j \<le> length s \<Longrightarrow> \<not> prefix p (drop j s)"
  by (induction s arbitrary: j) (auto split: if_splits option.splits simp: drop_Cons' le_Suc_eq)

lemma rfind_sub_greatest:
  "rfind_sub p s = Some i \<Longrightarrow> i < j \<Longrightarrow> j \<le> length s \<Longrightarrow> \<not> prefix p (drop j s)"
proof (induction s arbitrary: i j)
  case (Cons c s)
  obtain j' where j: "j = Suc j'" using Cons.prems(2) by (cases j) auto
  show ?case
  proof (cases "rfind_sub p s")
    case None
    then have "\<not> prefix p (drop j' s)" using rfind_sub_None Cons.prems(3) j by auto
    then show ?thesis by (simp add: j)
  next
    case (Some k)
    then show ?thesis using Cons j by auto
  qed
qed (auto split: if_splits)

lemma strip_prefix_Some: "strip_prefix p s = Some t \<longleftrightarrow> s = p @ t"
  by (auto simp: strip_prefix_def prefix_def)

lemma strip_prefix_append [simp]: "strip_prefix p (p @ t) = Some t"
  by (simp add: strip_prefix_def)

section \<open>Lemmas on numbers as text\<close>

lemma digit_char_props:
  assumes "d < 10"
  shows "is_digit (digit_char d)" "digit_val (digit_char d) = d"
    "digit_char d \<noteq> CHR ''+''" "\<not> is_ws (digit_char d)"
proof -
  have "d \<in> {0,1,2,3,4,5,6,7,8,9}" using assms by auto
  then show "is_digit (digit_char d)" "digit_val (digit_char d) = d"
    "digit_char d \<noteq> CHR ''+''" "\<not> is_ws (digit_char d)"
    by (auto simp: is_digit_def digit_char_def digit_val_def is_ws_def)
qed

lemma show_nat_ne [simp]: "show_nat n \<noteq> []"
  by (subst show_nat.simps) simp

lemma show_nat_digits: "list_all is_digit (show_nat n)"
proof (induction n rule: show_nat.induct)
  case (1 n)
  then show ?case by (subst show_nat.simps) (auto simp: digit_char_props)
qed

lemma digits_val_snoc: "digits_val (s @ [c]) = 10 * digits_val s + digit_val c"
  by (simp add: digits_val_def)

lemma digits_val_show: "digits_val (show_nat n) = n"
proof (induction n rule: show_nat.induct)
  case (1 n)
  show ?case
  proof (cases "n < 10")
    case True
    then show ?thesis
      by (subst show_nat.simps) (simp add: digits_val_def digit_char_props)
  next
    case False
    with 1 show ?thesis
      by (subst show_nat.simps) (simp add: digits_val_snoc digit_char_props)
  qed
qed

lemma is_digit_not: "is_digit c \<Longrightarrow> c \<noteq> CHR ''+'' \<and> \<not> is_ws c"
  by (auto simp: is_digit_def is_ws_def)

lemma show_nat_no_ws: "c \<in> set (show_nat n) \<Longrightarrow> is_digit c"
  using show_nat_digits by (auto simp: list_all_iff)

lemma parse_uint_show: "parse_uint w (show_nat n) = (if n < 2 ^ w then Some n else None)"
proof -
  obtain c cs where s: "show_nat n = c # cs" by (cases "show_nat n") auto
  then have "is_digit c" using show_nat_no_ws[of c n] by simp
  then have "c \<noteq> CHR ''+''" using is_digit_not by blast
  then show ?thesis
    using show_nat_digits[of n] digits_val_show[of n]
    by (simp add: parse_uint_def s)
qed

lemma parse_uint_bound: "parse_uint w s = Some n \<Longrightarrow> n < 2 ^ w"
  by (auto simp: parse_uint_def Let_def split: if_splits)

lemma show_nat_inject [simp]: "show_nat m = show_nat n \<longleftrightarrow> m = n"
  by (metis digits_val_show)

lemma trim_show_nat [simp]: "trim (show_nat n) = show_nat n"
proof (rule trim_no_outer_ws)
  have "is_digit (hd (show_nat n))" "is_digit (last (show_nat n))"
    by (rule show_nat_no_ws[of _ n]; simp)+
  then show "\<not> is_ws (hd (show_nat n))" "\<not> is_ws (last (show_nat n))"
    using is_digit_not by blast+
qed simp

lemma trim_append_newline: "trim (s @ [CHR 0x0A]) = trim s"
proof (cases "list_all is_ws s")
  case True
  then have "trim (s @ [CHR 0x0A]) = []" by (simp add: trim_eq_Nil_iff is_ws_def)
  moreover have "trim s = []" using True by (simp add: trim_eq_Nil_iff)
  ultimately show ?thesis by simp
next
  case False
  then have "dropWhile is_ws (s @ [CHR 0x0A]) = dropWhile is_ws s @ [CHR 0x0A]"
    by (auto simp: list_all_iff intro: dropWhile_append1)
  then show ?thesis by (simp add: trim_def trim_start_def trim_end_def is_ws_def)
qed

lemma trim_show_nat_newline [simp]: "trim (show_nat n @ [CHR 0x0A]) = show_nat n"
  by (simp add: trim_append_newline)

end
