(* ===== verification/Effects.thy ===== *)
theory Effects
  imports Prelude
begin

text \<open>
  The seams to the operating system (src/src/sys/command.rs): captured command output,
  the command runner every component is written against, the waiting loop of the real
  runner with its timeout, and recorded call logs.

  A runner is a function over an abstract world \<open>'w\<close>: it takes the world, a program and
  its arguments, and returns an I/O error or the captured output together with the new
  world.  Every theorem about a component holds for every runner, unless it names what
  the external programs are assumed to do.
\<close>

section \<open>Durations\<close>

text \<open>A \<open>Duration\<close> or \<open>Instant\<close> is a number of nanoseconds.\<close>

type_synonym duration = nat

definition millis :: "nat \<Rightarrow> duration" where "millis n = n * 1000000"
definition secs :: "nat \<Rightarrow> duration" where "secs n = n * 1000000000"

definition DURATION_MAX :: duration where
  "DURATION_MAX = secs (2 ^ 64 - 1) + 999999999"

section \<open>Errors and captured output\<close>

datatype io_kind = NotFound | TimedOut | AddrInUse | UnexpectedEof | OtherKind

record io_error =
  err_kind :: io_kind
  err_msg :: string

record command_output =
  status :: int
  stdout :: string
  stderr :: string

definition success :: "command_output \<Rightarrow> bool" where
  "success out \<longleftrightarrow> status out = 0"

type_synonym 'w runner = "'w \<Rightarrow> string \<Rightarrow> string list \<Rightarrow> (io_error + command_output) \<times> 'w"

text \<open>
  \<open>tokio::task::spawn_blocking\<close> runs a closure on the blocking pool and joins it; the
  join fails when the task was cancelled.  Whether it does is the scheduler's choice,
  the parameter \<open>cancelled\<close>.
\<close>

definition spawn_blocking ::
    "('w \<Rightarrow> bool) \<Rightarrow> ('w \<Rightarrow> 'a \<times> 'w) \<Rightarrow> 'w \<Rightarrow> (string + 'a) \<times> 'w" where
  "spawn_blocking cancelled f w =
     (if cancelled w then (Inl ''task was cancelled'', w)
      else (case f w of (a, w') \<Rightarrow> (Inr a, w')))"

section \<open>The waiting loop of the real runner\<close>

definition COMMAND_TIMEOUT :: duration where "COMMAND_TIMEOUT = secs 10"
definition POLL_INTERVAL :: duration where "POLL_INTERVAL = millis 20"

text \<open>The resolver of \<open>SOUNDSYNC_COMMAND_TIMEOUT\<close>; the argument is the variable's value.\<close>

definition command_timeout :: "string option \<Rightarrow> duration" where
  "command_timeout env =
     (case Option.bind env (\<lambda>s. parse_u64 (trim s)) of
        Some s \<Rightarrow> if 0 < s then secs s else COMMAND_TIMEOUT
      | None \<Rightarrow> COMMAND_TIMEOUT)"

text \<open>
  A spawned child is what the loop can observe of it: the answer of each successive
  \<open>try_wait\<close>, the clock reading next to it, and what \<open>wait_with_output\<close> returns once
  it has exited (exit code, none when killed by a signal, and the two streams).
\<close>

record child =
  try_wait :: "nat \<Rightarrow> io_error + bool"
  clock :: "nat \<Rightarrow> duration"
  wait_with_output :: "io_error + (int option \<times> string \<times> string)"

datatype wait_end = Exited | Killed | WaitFailed io_error

partial_function (option) wait_loop :: "child \<Rightarrow> duration \<Rightarrow> nat \<Rightarrow> wait_end option" where
  "wait_loop ch deadline i =
     (case try_wait ch i of
        Inl e \<Rightarrow> Some (WaitFailed e)
      | Inr exited \<Rightarrow>
          if exited then Some Exited
          else if deadline \<le> clock ch i then Some Killed
          else wait_loop ch deadline (Suc i))"

text \<open>The debug print of a timeout, which is a whole number of seconds.\<close>

definition timed_out_error :: "string option \<Rightarrow> string \<Rightarrow> io_error" where
  "timed_out_error env program =
     \<lparr>err_kind = TimedOut,
      err_msg = ''`'' @ program @ ''` timed out after ''
                @ show_nat (command_timeout env div secs 1) @ ''s''\<rparr>"

text \<open>
  \<open>SystemCommandRunner::run\<close>: \<open>None\<close> is "does not return".  \<open>now\<close> is the clock when the
  child was spawned.
\<close>

definition system_run ::
    "(string \<Rightarrow> string list \<Rightarrow> io_error + child) \<Rightarrow> string option \<Rightarrow> duration
      \<Rightarrow> string \<Rightarrow> string list \<Rightarrow> (io_error + command_output) option" where
  "system_run spawn env now program args =
     (case spawn program args of
        Inl e \<Rightarrow> Some (Inl e)
      | Inr ch \<Rightarrow>
          (case wait_loop ch (now + command_timeout env) 0 of
             None \<Rightarrow> None
           | Some (WaitFailed e) \<Rightarrow> Some (Inl e)
           | Some Killed \<Rightarrow> Some (Inl (timed_out_error env program))
           | Some Exited \<Rightarrow>
               Some (case wait_with_output ch of
                       Inl e \<Rightarrow> Inl e
                     | Inr (code, out, err) \<Rightarrow>
                         Inr \<lparr>status = (case code of Some c \<Rightarrow> c | None \<Rightarrow> -1),
                              stdout = out, stderr = err\<rparr>)))"

section \<open>Call logs\<close>

record call =
  call_prog :: string
  call_args :: "string list"
  call_res :: "io_error + command_output"

text \<open>A runner that records every call it makes, as the test double of the sources does.\<close>

definition logged :: "'w runner \<Rightarrow> (call list \<times> 'w) runner" where
  "logged r w p as =
     (case r (snd w) p as of
        (res, w') \<Rightarrow> (res, (fst w @ [\<lparr>call_prog = p, call_args = as, call_res = res\<rparr>], w')))"

section \<open>Lemmas\<close>

lemma logged_simps [simp]:
  "fst (logged r w p as) = fst (r (snd w) p as)"
  "snd (snd (logged r w p as)) = snd (r (snd w) p as)"
  "fst (snd (logged r w p as)) =
     fst w @ [\<lparr>call_prog = p, call_args = as, call_res = fst (r (snd w) p as)\<rparr>]"
  by (auto simp: logged_def split: prod.splits)

lemma command_timeout_pos: "0 < command_timeout env"
  by (auto simp: command_timeout_def COMMAND_TIMEOUT_def secs_def split: option.splits)

lemma wait_loop_returns:
  assumes "\<And>i. POLL_INTERVAL * i \<le> clock ch i"
  shows "\<exists>r. wait_loop ch deadline i = Some r"
proof (induction "deadline - POLL_INTERVAL * i" arbitrary: i rule: less_induct)
  case less
  show ?case
  proof (cases "try_wait ch i")
    case (Inl e)
    then show ?thesis by (simp add: wait_loop.simps)
  next
    case (Inr b)
    show ?thesis
    proof (cases "\<not> b \<and> clock ch i < deadline")
      case True
      then have "POLL_INTERVAL * i < deadline" using assms[of i] by simp
      then have "deadline - POLL_INTERVAL * Suc i < deadline - POLL_INTERVAL * i"
        by (simp add: POLL_INTERVAL_def millis_def)
      then have "\<exists>r. wait_loop ch deadline (Suc i) = Some r" by (rule less)
      then show ?thesis using Inr True by (simp add: wait_loop.simps[of ch deadline i])
    qed (use Inr in \<open>auto simp: wait_loop.simps[of ch deadline i]\<close>)
  qed
qed

lemma wait_loop_result_rule:
  assumes "wait_loop ch deadline i = Some r"
  shows "(\<exists>j. r = Killed \<and> deadline \<le> clock ch j) \<or> (\<exists>j. try_wait ch j = Inr True \<and> r = Exited)
     \<or> (\<exists>j e. try_wait ch j = Inl e \<and> r = WaitFailed e)"
proof -
  let ?P = "\<lambda>c d i r. (\<exists>j. r = Killed \<and> d \<le> clock c j) \<or> (\<exists>j. try_wait c j = Inr True \<and> r = Exited)
     \<or> (\<exists>j e. try_wait c j = Inl e \<and> r = WaitFailed e)"
  show ?thesis
  proof (rule wait_loop.raw_induct[where P = ?P, OF _ assms])
    fix f c d i r
    assume IH: "\<And>c d i r. f c d i = Some r \<Longrightarrow> ?P c d i r"
      and eq: "(case try_wait c i of Inl e \<Rightarrow> Some (WaitFailed e)
         | Inr exited \<Rightarrow> if exited then Some Exited
            else if d \<le> clock c i then Some Killed else f c d (Suc i)) = Some r"
    then show "?P c d i r" by (auto split: if_splits sum.splits)
  qed
qed

lemma wait_loop_not_exited:
  assumes "\<And>i. try_wait ch i = Inr False" "wait_loop ch deadline i = Some r"
  shows "r = Killed"
  using wait_loop_result_rule[OF assms(2)] by (auto simp: assms(1))

section \<open>Properties\<close>


definition hung_child :: child where
  "hung_child = \<lparr>try_wait = (\<lambda>_. Inr False), clock = (\<lambda>i. POLL_INTERVAL * i),
                 wait_with_output = Inr (Some 0, [], [])\<rparr>"


end
