(* ===== verification/Values.thy ===== *)
theory Values
  imports Complex_Main Effects
begin

text \<open>
  The values the program exchanges as text: JSON trees (\<open>serde_json::Value\<close>; parsing and
  printing belong to the library and are arguments of the definitions that use them) and
  IEEE floating-point numbers, as far as the program compares, clamps and prints them.
\<close>

section \<open>JSON trees\<close>

text \<open>A number is an integer (\<open>i64\<close> or \<open>u64\<close>) or the bit pattern of a double.\<close>

datatype json =
    JNull
  | JBool bool
  | JInt int
  | JDouble "64 word"
  | JStr string
  | JArr "json list"
  | JObj "(string \<times> json) list"

fun json_get :: "json \<Rightarrow> string \<Rightarrow> json option" where
  "json_get (JObj kvs) k = map_of kvs k"
| "json_get _ k = None"

fun json_as_str :: "json \<Rightarrow> string option" where
  "json_as_str (JStr s) = Some s"
| "json_as_str _ = None"

fun json_as_array :: "json \<Rightarrow> json list option" where
  "json_as_array (JArr vs) = Some vs"
| "json_as_array _ = None"

fun json_as_u64 :: "json \<Rightarrow> nat option" where
  "json_as_u64 (JInt i) = (if 0 \<le> i \<and> i < 2 ^ 64 then Some (nat i) else None)"
| "json_as_u64 _ = None"

type_synonym bytes = "8 word list"

type_synonym json_parser = "string \<Rightarrow> json option"
type_synonym json_printer = "json \<Rightarrow> string"

definition quoted :: "string \<Rightarrow> string" where "quoted s = CHR 0x22 # s @ [CHR 0x22]"

section \<open>Floating-point numbers\<close>

text \<open>
  An \<open>f32\<close> or \<open>f64\<close> as the number it stands for; a finite one is a rational.  The two
  zeros are identified.
\<close>

datatype flt = NaN | NegInf | Fin rat | PosInf

fun flt_less :: "flt \<Rightarrow> flt \<Rightarrow> bool" where
  "flt_less NaN _ = False"
| "flt_less _ NaN = False"
| "flt_less NegInf y = (y \<noteq> NegInf)"
| "flt_less (Fin x) (Fin y) = (x < y)"
| "flt_less (Fin x) NegInf = False"
| "flt_less (Fin x) PosInf = True"
| "flt_less PosInf _ = False"

text \<open>\<open>f32::clamp\<close> for bounds \<open>lo \<le> hi\<close>: a NaN is returned as it is.\<close>

definition flt_clamp :: "flt \<Rightarrow> flt \<Rightarrow> flt \<Rightarrow> flt" where
  "flt_clamp lo hi x = (if flt_less x lo then lo else if flt_less hi x then hi else x)"

text \<open>
  The format \<open>{:.p}\<close>: the exact value rounded to \<open>p\<close> decimals, ties to even.
\<close>

definition round_half_even :: "rat \<Rightarrow> int" where
  "round_half_even x =
     (let f = \<lfloor>x\<rfloor>; d = x - of_int f
      in if d < 1/2 then f else if 1/2 < d then f + 1 else if even f then f else f + 1)"

definition pad_zeros :: "nat \<Rightarrow> string \<Rightarrow> string" where
  "pad_zeros n s = replicate (n - length s) CHR ''0'' @ s"

definition fmt_fixed_abs :: "nat \<Rightarrow> rat \<Rightarrow> string" where
  "fmt_fixed_abs p x =
     (let n = nat (round_half_even (x * 10 ^ p))
      in show_nat (n div 10 ^ p) @ ''.'' @ pad_zeros p (show_nat (n mod 10 ^ p)))"

fun fmt_fixed :: "nat \<Rightarrow> flt \<Rightarrow> string" where
  "fmt_fixed p NaN = ''NaN''"
| "fmt_fixed p NegInf = ''-inf''"
| "fmt_fixed p PosInf = ''inf''"
| "fmt_fixed p (Fin x) =
     (if x < 0 then ''-'' @ fmt_fixed_abs p (- x) else fmt_fixed_abs p x)"

text \<open>
  The format \<open>{}\<close>: an integral value below \<open>2 ^ 53\<close> prints as an integer; the shortest
  decimal of any other finite value is the argument \<open>shortest\<close>.
\<close>

fun fmt_display :: "(rat \<Rightarrow> string) \<Rightarrow> flt \<Rightarrow> string" where
  "fmt_display shortest NaN = ''NaN''"
| "fmt_display shortest NegInf = ''-inf''"
| "fmt_display shortest PosInf = ''inf''"
| "fmt_display shortest (Fin x) =
     (if of_int \<lfloor>x\<rfloor> = x \<and> \<bar>x\<bar> < 2 ^ 53 then show_int \<lfloor>x\<rfloor> else shortest x)"

section \<open>Lemmas\<close>

lemma flt_less_irrefl [simp]: "\<not> flt_less x x"
  by (cases x) auto

lemma flt_less_trans: "flt_less x y \<Longrightarrow> flt_less y z \<Longrightarrow> flt_less x z"
  by (cases x; cases y; cases z) auto

lemma flt_clamp_idem [simp]:
  "\<not> flt_less hi lo \<Longrightarrow> flt_clamp lo hi (flt_clamp lo hi x) = flt_clamp lo hi x"
  by (auto simp: flt_clamp_def)

lemma flt_clamp_bounds:
  "\<not> flt_less hi lo \<Longrightarrow> \<not> flt_less (flt_clamp lo hi x) lo \<and> \<not> flt_less hi (flt_clamp lo hi x)"
  by (auto simp: flt_clamp_def)

lemma flt_clamp_NaN [simp]: "flt_clamp lo hi NaN = NaN"
  by (simp add: flt_clamp_def) (cases hi; simp)

lemma round_half_even_error: "\<bar>of_int (round_half_even x) - x\<bar> \<le> 1/2"
proof -
  have "of_int \<lfloor>x\<rfloor> \<le> x" "x < of_int \<lfloor>x\<rfloor> + 1" by linarith+
  then show ?thesis by (auto simp: round_half_even_def Let_def)
qed

end
