(* ===== verification/FileSystem.thy ===== *)
theory FileSystem
  imports Effects
begin

text \<open>
  The file-system seam (src/src/sys/fs.rs), the two implementations of it in the sources
  (the real one over \<open>std::fs\<close> and the in-memory test double of src/src/sys/testing.rs),
  and the two components that persist user settings through it
  (src/src/config_store.rs, src/src/bluetooth/name_config.rs).

  The interface is the locale \<open>fs\<close>: what a read returns after a write or a removal, with
  failures.  It is interpreted on both implementations, and the facts about the clients
  are proved from the interface.
\<close>

section \<open>The interface\<close>

record 'w fs_ops =
  read_to_string :: "'w \<Rightarrow> string \<Rightarrow> io_error + string"
  write_atomic :: "'w \<Rightarrow> string \<Rightarrow> string \<Rightarrow> string \<Rightarrow> (io_error + unit) \<times> 'w"
  remove_file :: "'w \<Rightarrow> string \<Rightarrow> string \<Rightarrow> (io_error + unit) \<times> 'w"

text \<open>The path \<open>dir/filename\<close> and the temporary name a write goes through.\<close>

definition in_dir :: "string \<Rightarrow> string \<Rightarrow> string" where
  "in_dir dir filename = dir @ ''/'' @ filename"

definition tmp_path :: "string \<Rightarrow> string \<Rightarrow> string" where
  "tmp_path dir filename = dir @ ''/.'' @ filename @ ''.tmp''"

locale fs =
  fixes ops :: "'w fs_ops"
    and contents :: "'w \<Rightarrow> string \<Rightarrow> string option"
    and readable :: "'w \<Rightarrow> string \<Rightarrow> bool"
    and good :: "'w \<Rightarrow> bool"
  assumes read_present: "readable w p \<Longrightarrow> contents w p = Some c \<Longrightarrow> read_to_string ops w p = Inr c"
    and read_Inr: "read_to_string ops w p = Inr c \<Longrightarrow> contents w p = Some c"
    and write_ok: "write_atomic ops w d f c = (Inr (), w') \<Longrightarrow> contents w' (in_dir d f) = Some c"
    and write_err: "write_atomic ops w d f c = (Inl e, w') \<Longrightarrow>
      contents w' (in_dir d f) = contents w (in_dir d f)"
    and write_frame: "write_atomic ops w d f c = (r, w') \<Longrightarrow> p \<noteq> in_dir d f \<Longrightarrow>
      p \<noteq> tmp_path d f \<Longrightarrow> contents w' p = contents w p"
    and write_readable: "write_atomic ops w d f c = (r, w') \<Longrightarrow> readable w' = readable w"
    and write_good: "write_atomic ops w d f c = (r, w') \<Longrightarrow> good w' = good w"
    and remove_ok: "good w \<Longrightarrow> remove_file ops w d f = (Inr (), w') \<Longrightarrow> contents w' (in_dir d f) = None"
    and remove_err: "remove_file ops w d f = (Inl e, w') \<Longrightarrow>
      contents w' (in_dir d f) = contents w (in_dir d f)"
    and remove_frame: "remove_file ops w d f = (r, w') \<Longrightarrow> p \<noteq> in_dir d f \<Longrightarrow>
      contents w' p = contents w p"
    and remove_readable: "remove_file ops w d f = (r, w') \<Longrightarrow> readable w' = readable w"
    and remove_good: "remove_file ops w d f = (r, w') \<Longrightarrow> good w' = good w"
begin

lemma read_after_write:
  "write_atomic ops w d f c = (Inr (), w') \<Longrightarrow> readable w (in_dir d f) \<Longrightarrow>
     read_to_string ops w' (in_dir d f) = Inr c"
  by (rule read_present) (auto dest: write_ok write_readable)

lemma read_after_remove:
  "good w \<Longrightarrow> remove_file ops w d f = (Inr (), w') \<Longrightarrow> \<exists>e. read_to_string ops w' (in_dir d f) = Inl e"
  using remove_ok[of w d f w'] read_Inr[of w' "in_dir d f"]
  by (cases "read_to_string ops w' (in_dir d f)") auto

lemma write_all_or_nothing:
  "write_atomic ops w d f c = (r, w') \<Longrightarrow>
     contents w' (in_dir d f) = (case r of Inl _ \<Rightarrow> contents w (in_dir d f) | Inr _ \<Rightarrow> Some c)"
  by (cases r) (auto dest: write_ok write_err)

end

section \<open>The real file system\<close>

text \<open>
  The disk maps a path to the contents of the file there.  Any system call can fail: the
  faults are part of the disk.  A write that fails may have written something, \<open>torn\<close>.
\<close>

datatype syscall = CreateDirAll string | WriteFile string | Rename string string | Unlink string

record disk =
  files :: "string \<Rightarrow> string option"
  sys_fault :: "syscall \<Rightarrow> io_error option"
  read_fault :: "string \<Rightarrow> io_error option"
  torn :: "string option"

definition not_found :: io_error where
  "not_found = \<lparr>err_kind = NotFound, err_msg = ''No such file or directory (os error 2)''\<rparr>"

definition std_read :: "disk \<Rightarrow> string \<Rightarrow> io_error + string" where
  "std_read k p =
     (case read_fault k p of
        Some e \<Rightarrow> Inl e
      | None \<Rightarrow> (case files k p of Some c \<Rightarrow> Inr c | None \<Rightarrow> Inl not_found))"

definition std_create_dir_all :: "disk \<Rightarrow> string \<Rightarrow> (io_error + unit) \<times> disk" where
  "std_create_dir_all k dir =
     (case sys_fault k (CreateDirAll dir) of Some e \<Rightarrow> (Inl e, k) | None \<Rightarrow> (Inr (), k))"

definition std_write :: "disk \<Rightarrow> string \<Rightarrow> string \<Rightarrow> (io_error + unit) \<times> disk" where
  "std_write k p c =
     (case sys_fault k (WriteFile p) of
        Some e \<Rightarrow> (Inl e, (case torn k of None \<Rightarrow> k
                          | Some t \<Rightarrow> k\<lparr>files := (files k)(p := Some t)\<rparr>))
      | None \<Rightarrow> (Inr (), k\<lparr>files := (files k)(p := Some c)\<rparr>))"

definition std_rename :: "disk \<Rightarrow> string \<Rightarrow> string \<Rightarrow> (io_error + unit) \<times> disk" where
  "std_rename k a b =
     (case sys_fault k (Rename a b) of
        Some e \<Rightarrow> (Inl e, k)
      | None \<Rightarrow>
          (case files k a of
             None \<Rightarrow> (Inl not_found, k)
           | Some c \<Rightarrow> (Inr (), k\<lparr>files := ((files k)(a := None))(b := Some c)\<rparr>)))"

definition std_remove_file :: "disk \<Rightarrow> string \<Rightarrow> (io_error + unit) \<times> disk" where
  "std_remove_file k p =
     (case sys_fault k (Unlink p) of
        Some e \<Rightarrow> (Inl e, k)
      | None \<Rightarrow>
          (case files k p of
             None \<Rightarrow> (Inl not_found, k)
           | Some _ \<Rightarrow> (Inr (), k\<lparr>files := (files k)(p := None)\<rparr>)))"

definition sys_write_atomic ::
    "disk \<Rightarrow> string \<Rightarrow> string \<Rightarrow> string \<Rightarrow> (io_error + unit) \<times> disk" where
  "sys_write_atomic k dir filename c =
     (case std_create_dir_all k dir of
        (Inl e, k1) \<Rightarrow> (Inl e, k1)
      | (Inr _, k1) \<Rightarrow>
          (case std_write k1 (tmp_path dir filename) c of
             (Inl e, k2) \<Rightarrow> (Inl e, k2)
           | (Inr _, k2) \<Rightarrow> std_rename k2 (tmp_path dir filename) (in_dir dir filename)))"

definition sys_remove_file :: "disk \<Rightarrow> string \<Rightarrow> string \<Rightarrow> (io_error + unit) \<times> disk" where
  "sys_remove_file k dir filename =
     (case std_remove_file k (in_dir dir filename) of
        (Inr u, k') \<Rightarrow> (Inr (), k')
      | (Inl e, k') \<Rightarrow> if err_kind e = NotFound then (Inr (), k') else (Inl e, k'))"

definition system_fs :: "disk fs_ops" where
  "system_fs = \<lparr>read_to_string = std_read, write_atomic = sys_write_atomic,
                remove_file = sys_remove_file\<rparr>"

text \<open>
  A failing system call other than on a missing file does not report "not found".
\<close>

definition honest_faults :: "disk \<Rightarrow> bool" where
  "honest_faults k \<longleftrightarrow> (\<forall>c e. sys_fault k c = Some e \<longrightarrow> err_kind e \<noteq> NotFound)"

section \<open>The in-memory test double\<close>

record fake_fs =
  fake_files :: "string \<Rightarrow> string option"
  fake_removed :: "string list"

definition fake_read :: "fake_fs \<Rightarrow> string \<Rightarrow> io_error + string" where
  "fake_read k p =
     (case fake_files k p of
        Some c \<Rightarrow> Inr c
      | None \<Rightarrow> Inl \<lparr>err_kind = NotFound, err_msg = ''fake: no such file''\<rparr>)"

definition fake_write :: "fake_fs \<Rightarrow> string \<Rightarrow> string \<Rightarrow> string \<Rightarrow> (io_error + unit) \<times> fake_fs" where
  "fake_write k dir filename c =
     (Inr (), k\<lparr>fake_files := (fake_files k)(in_dir dir filename := Some c)\<rparr>)"

definition fake_remove :: "fake_fs \<Rightarrow> string \<Rightarrow> string \<Rightarrow> (io_error + unit) \<times> fake_fs" where
  "fake_remove k dir filename =
     (Inr (), k\<lparr>fake_files := (fake_files k)(in_dir dir filename := None),
                fake_removed := fake_removed k @ [in_dir dir filename]\<rparr>)"

definition fake_fs_ops :: "fake_fs fs_ops" where
  "fake_fs_ops = \<lparr>read_to_string = fake_read, write_atomic = fake_write,
                  remove_file = fake_remove\<rparr>"

definition empty_fake_fs :: fake_fs where
  "empty_fake_fs = \<lparr>fake_files = (\<lambda>_. None), fake_removed = []\<rparr>"

section \<open>JSON settings files\<close>

definition config_dir :: "string \<Rightarrow> string" where
  "config_dir home = home @ ''/.config/soundsync''"

definition config_dir_default :: "string option \<Rightarrow> string" where
  "config_dir_default home_var = config_dir (case home_var of Some h \<Rightarrow> h | None \<Rightarrow> ''/root'')"

text \<open>
  \<open>T::deserialize\<close>, \<open>T::default\<close> and the printer of \<open>serde_json\<close> are arguments.
\<close>

definition load_json ::
    "'w fs_ops \<Rightarrow> (string \<Rightarrow> 'a option) \<Rightarrow> 'a \<Rightarrow> 'w \<Rightarrow> string \<Rightarrow> string \<Rightarrow> 'a" where
  "load_json ops from_str dflt w home filename =
     (case read_to_string ops w (config_dir home @ ''/'' @ filename) of
        Inr s \<Rightarrow> (case from_str s of Some v \<Rightarrow> v | None \<Rightarrow> dflt)
      | Inl _ \<Rightarrow> dflt)"

definition save_json ::
    "'w fs_ops \<Rightarrow> ('a \<Rightarrow> string + string) \<Rightarrow> 'w \<Rightarrow> string \<Rightarrow> string \<Rightarrow> 'a
      \<Rightarrow> (string + unit) \<times> 'w" where
  "save_json ops to_string_pretty w home filename v =
     (case to_string_pretty v of
        Inl e \<Rightarrow> (Inl e, w)
      | Inr c \<Rightarrow>
          (case write_atomic ops w (config_dir home) filename c of
             (Inl e, w') \<Rightarrow> (Inl (err_msg e), w')
           | (Inr _, w') \<Rightarrow> (Inr (), w')))"

section \<open>The device name file\<close>

definition DEFAULT_DEVICE_NAME :: string where "DEFAULT_DEVICE_NAME = ''SoundSync''"

definition device_name_path :: "string \<Rightarrow> string" where
  "device_name_path home = home @ ''/.config/soundsync/device-name''"

definition load_device_name_from :: "disk \<Rightarrow> string \<Rightarrow> string" where
  "load_device_name_from k path =
     (case std_read k path of
        Inr s \<Rightarrow> (let name = trim s in if name = [] then DEFAULT_DEVICE_NAME else name)
      | Inl _ \<Rightarrow> DEFAULT_DEVICE_NAME)"

definition load_device_name :: "disk \<Rightarrow> string option \<Rightarrow> string" where
  "load_device_name k home_var =
     load_device_name_from k (device_name_path (case home_var of Some h \<Rightarrow> h | None \<Rightarrow> ''/root''))"

text \<open>\<open>Path::parent\<close>: what precedes the last component; a root or empty path has none.\<close>

definition strip_slashes :: "string \<Rightarrow> string" where
  "strip_slashes p = rev (dropWhile (\<lambda>c. c = CHR ''/'') (rev p))"

definition path_parent :: "string \<Rightarrow> string option" where
  "path_parent p =
     (let q = strip_slashes p in
      if q = [] then None
      else let pre = rev (dropWhile (\<lambda>c. c \<noteq> CHR ''/'') (rev q)) in
        if pre = [] then Some []
        else Some (if strip_slashes pre = [] then ''/'' else strip_slashes pre))"

definition save_device_name_to :: "disk \<Rightarrow> string \<Rightarrow> string \<Rightarrow> (string + unit) \<times> disk" where
  "save_device_name_to k path name =
     (case (case path_parent path of
              Some parent \<Rightarrow> std_create_dir_all k parent
            | None \<Rightarrow> (Inr (), k)) of
        (Inl e, k1) \<Rightarrow> (Inl (err_msg e), k1)
      | (Inr _, k1) \<Rightarrow>
          (case std_write k1 path name of
             (Inl e, k2) \<Rightarrow> (Inl (err_msg e), k2)
           | (Inr _, k2) \<Rightarrow> (Inr (), k2)))"

definition save_device_name :: "disk \<Rightarrow> string option \<Rightarrow> string \<Rightarrow> (string + unit) \<times> disk" where
  "save_device_name k home_var name =
     save_device_name_to k (device_name_path (case home_var of Some h \<Rightarrow> h | None \<Rightarrow> ''/root'')) name"

section \<open>Lemmas\<close>

lemma tmp_path_ne [simp]: "tmp_path d f \<noteq> in_dir d f" "in_dir d f \<noteq> tmp_path d f"
proof -
  have "length (tmp_path d f) \<noteq> length (in_dir d f)" by (simp add: tmp_path_def in_dir_def)
  then show "tmp_path d f \<noteq> in_dir d f" "in_dir d f \<noteq> tmp_path d f" by metis+
qed

lemmas std_defs = std_read_def std_create_dir_all_def std_write_def std_rename_def
  std_remove_file_def

lemma sys_write_atomic_cases:
  "sys_write_atomic k d f c =
     (case sys_fault k (CreateDirAll d) of
        Some e \<Rightarrow> (Inl e, k)
      | None \<Rightarrow>
          (case sys_fault k (WriteFile (tmp_path d f)) of
             Some e \<Rightarrow> (Inl e, (case torn k of None \<Rightarrow> k
                | Some t \<Rightarrow> k\<lparr>files := (files k)(tmp_path d f := Some t)\<rparr>))
           | None \<Rightarrow>
               (case sys_fault k (Rename (tmp_path d f) (in_dir d f)) of
                  Some e \<Rightarrow> (Inl e, k\<lparr>files := (files k)(tmp_path d f := Some c)\<rparr>)
                | None \<Rightarrow> (Inr (), k\<lparr>files := ((files k)(tmp_path d f := None))
                                              (in_dir d f := Some c)\<rparr>))))"
  by (simp add: sys_write_atomic_def std_defs split: option.splits)

lemma sys_remove_file_cases:
  "sys_remove_file k d f =
     (case sys_fault k (Unlink (in_dir d f)) of
        Some e \<Rightarrow> if err_kind e = NotFound then (Inr (), k) else (Inl e, k)
      | None \<Rightarrow> (Inr (), k\<lparr>files := (files k)(in_dir d f := None)\<rparr>))"
  by (cases k) (auto simp: sys_remove_file_def std_defs not_found_def fun_upd_idem
      split: option.splits)

lemma files_cong_honest [simp]:
  "honest_faults (k\<lparr>files := x\<rparr>) = honest_faults k"
  by (simp add: honest_faults_def)

interpretation sysfs: fs system_fs files "\<lambda>k p. read_fault k p = None" honest_faults
proof unfold_locales
  fix k d f e k'
  assume "remove_file system_fs k d f = (Inl e, k')"
  then show "files k' (in_dir d f) = files k (in_dir d f)"
    by (auto simp: system_fs_def sys_remove_file_cases split: option.splits if_splits)
qed (auto simp: system_fs_def std_read_def sys_write_atomic_cases sys_remove_file_cases
      honest_faults_def fun_eq_iff split: option.splits if_splits)

interpretation fakefs: fs fake_fs_ops fake_files "\<lambda>_ _. True" "\<lambda>_. True"
  by unfold_locales
    (auto simp: fake_fs_ops_def fake_read_def fake_write_def fake_remove_def split: option.splits)

section \<open>Clients of the interface\<close>

lemma in_dir_append: "in_dir d f = d @ ''/'' @ f"
  by (simp add: in_dir_def)

context fs
begin

lemma save_then_load:
  assumes "save_json ops pretty w home f v = (Inr (), w')"
    and "\<And>c. pretty v = Inr c \<Longrightarrow> from_str c = Some v"
    and "readable w (in_dir (config_dir home) f)"
  shows "load_json ops from_str dflt w' home f = v"
proof -
  obtain c where c: "pretty v = Inr c"
    using assms(1) by (auto simp: save_json_def split: sum.splits)
  then have "write_atomic ops w (config_dir home) f c = (Inr (), w')"
    using assms(1) by (auto simp: save_json_def split: sum.splits prod.splits)
  from read_after_write[OF this assms(3)] show ?thesis
    using assms(2)[OF c] by (simp add: load_json_def in_dir_append)
qed

lemma read_cong:
  assumes "contents w' p = contents w p" "readable w' = readable w" "readable w p"
  shows "(case read_to_string ops w' p of Inr s \<Rightarrow> g s | Inl _ \<Rightarrow> d) =
    (case read_to_string ops w p of Inr s \<Rightarrow> g s | Inl _ \<Rightarrow> d)"
proof (cases "contents w p")
  case None
  then have "\<And>c. read_to_string ops w' p \<noteq> Inr c" "\<And>c. read_to_string ops w p \<noteq> Inr c"
    using assms(1) read_Inr by fastforce+
  then show ?thesis by (auto split: sum.splits)
next
  case (Some c)
  then have "read_to_string ops w' p = Inr c" "read_to_string ops w p = Inr c"
    using assms read_present by metis+
  then show ?thesis by simp
qed

lemma failed_save_keeps:
  assumes "save_json ops pretty w home f v = (Inl e, w')"
    and "readable w (in_dir (config_dir home) f)"
  shows "load_json ops from_str dflt w' home f = load_json ops from_str dflt w home f"
proof (cases "pretty v")
  case (Inl e')
  then show ?thesis using assms(1) by (simp add: save_json_def)
next
  case (Inr c)
  then obtain e' where "write_atomic ops w (config_dir home) f c = (Inl e', w')"
    using assms(1) by (auto simp: save_json_def split: sum.splits prod.splits)
  from read_cong[OF write_err[OF this] write_readable[OF this] assms(2)]
  show ?thesis by (simp add: load_json_def in_dir_append)
qed

end

lemma dropWhile_no: "\<forall>c \<in> set xs. c \<noteq> d \<Longrightarrow> dropWhile (\<lambda>c. c \<noteq> d) (xs @ d # ys) = d # ys"
  by (induction xs) auto

lemma path_parent_device_name:
  "path_parent (device_name_path home) = Some (home @ ''/.config/soundsync'')"
  by (simp add: path_parent_def device_name_path_def strip_slashes_def)

section \<open>Properties\<close>

text \<open>
  C33 (settings survive a restart).  On the real file system, whatever \<open>save_json\<close> stored is
  what \<open>load_json\<close> returns, as long as the parser reads back what the printer printed.
\<close>

theorem settings_roundtrip:
  assumes "save_json system_fs pretty k home f v = (Inr (), k')"
    and "\<And>c. pretty v = Inr c \<Longrightarrow> from_str c = Some v"
    and "read_fault k (in_dir (config_dir home) f) = None"
  shows "load_json system_fs from_str dflt k' home f = v"
  by (rule sysfs.save_then_load[OF assms])

text \<open>
  C27 (a failed save destroys nothing).  Whichever system call of a save fails, and whatever
  the failing write left behind, the settings loaded afterwards are the ones from before.
\<close>

theorem failed_save_keeps_settings:
  assumes "save_json system_fs pretty k home f v = (Inl e, k')"
    and "read_fault k (in_dir (config_dir home) f) = None"
  shows "load_json system_fs from_str dflt k' home f = load_json system_fs from_str dflt k home f"
  by (rule sysfs.failed_save_keeps[OF assms])

definition demo_disk :: "(syscall \<Rightarrow> io_error option) \<Rightarrow> disk" where
  "demo_disk flt = \<lparr>files = [''/h/.config/soundsync/n'' \<mapsto> ''7''], sys_fault = flt,
                    read_fault = (\<lambda>_. None), torn = Some ''1''\<rparr>"

lemmas settings_defs = save_json_def load_json_def system_fs_def sys_write_atomic_def std_defs
  in_dir_def tmp_path_def config_dir_def demo_disk_def

theorem settings_roundtrip_witness:
  "load_json system_fs (parse_uint 32) 0
     (snd (save_json system_fs (\<lambda>n. Inr (show_nat n)) (demo_disk (\<lambda>_. None)) ''/h'' ''n'' 42))
     ''/h'' ''n'' = 42"
proof (rule settings_roundtrip)
  show "save_json system_fs (\<lambda>n. Inr (show_nat n)) (demo_disk (\<lambda>_. None)) ''/h'' ''n'' 42 =
      (Inr (), snd (save_json system_fs (\<lambda>n. Inr (show_nat n)) (demo_disk (\<lambda>_. None))
        ''/h'' ''n'' (42::nat)))"
    by (simp add: settings_defs)
qed (auto simp: settings_defs parse_uint_show)

theorem failed_save_keeps_settings_witness:
  "load_json system_fs (parse_uint 32) 0
     (snd (save_json system_fs (\<lambda>n. Inr (show_nat n))
        (demo_disk [WriteFile ''/h/.config/soundsync/.n.tmp'' \<mapsto> not_found]) ''/h'' ''n'' 42))
     ''/h'' ''n'' =
   load_json system_fs (parse_uint 32) 0
     (demo_disk [WriteFile ''/h/.config/soundsync/.n.tmp'' \<mapsto> not_found]) ''/h'' ''n''"
proof (rule failed_save_keeps_settings)
  show "save_json system_fs (\<lambda>n. Inr (show_nat n))
      (demo_disk [WriteFile ''/h/.config/soundsync/.n.tmp'' \<mapsto> not_found]) ''/h'' ''n'' 42 =
     (Inl (err_msg not_found), snd (save_json system_fs (\<lambda>n. Inr (show_nat n))
      (demo_disk [WriteFile ''/h/.config/soundsync/.n.tmp'' \<mapsto> not_found]) ''/h'' ''n'' (42::nat)))"
    by (simp add: settings_defs)
qed (simp add: settings_defs)

text \<open>
  The device name survives a restart.  The name loaded after a successful save is the
  saved one without surrounding white space, or the default if nothing is left of it.
\<close>

theorem device_name_roundtrip:
  assumes "save_device_name k home_var name = (Inr (), k')"
    and "\<And>p. read_fault k p = None"
  shows "load_device_name k' home_var =
    (if trim name = [] then DEFAULT_DEVICE_NAME else trim name)"
proof -
  obtain h where h: "(case home_var of Some h \<Rightarrow> h | None \<Rightarrow> ''/root'') = h" by blast
  have "k' = k\<lparr>files := (files k)(device_name_path h := Some name)\<rparr>"
    using assms(1) by (auto simp: save_device_name_def save_device_name_to_def h
        path_parent_device_name std_defs split: option.splits)
  then show ?thesis
    using assms(2) by (simp add: load_device_name_def load_device_name_from_def h std_read_def Let_def)
qed

theorem device_name_roundtrip_witness:
  "load_device_name (snd (save_device_name (demo_disk (\<lambda>_. None)) (Some ''/h'') '' Hi ''))
     (Some ''/h'') = (if trim '' Hi '' = [] then DEFAULT_DEVICE_NAME else trim '' Hi '')"
proof (rule device_name_roundtrip)
  show "save_device_name (demo_disk (\<lambda>_. None)) (Some ''/h'') '' Hi '' =
     (Inr (), snd (save_device_name (demo_disk (\<lambda>_. None)) (Some ''/h'') '' Hi ''))"
    by (simp add: save_device_name_def save_device_name_to_def path_parent_device_name
        settings_defs)
qed (simp add: demo_disk_def)

end
