(* ===== verification/Equalizer.thy ===== *)
theory Equalizer
  imports Values FileSystem
begin

text \<open>
  The equaliser data and the text it becomes (src/src/dsp/eq.rs), the filter-chain unit that
  writes the text and runs the chain (src/src/audio/filter_chain.rs), and the live control
  of a running chain (src/src/audio/pw/filter_ctl.rs).

  Decimal literals of the sources stand for the doubles nearest to them; they are printed
  with three decimals only, where literal and double agree.
\<close>

section \<open>Bands\<close>

definition NUM_BANDS :: nat where "NUM_BANDS = 10"
definition MIN_GAIN_DB :: flt where "MIN_GAIN_DB = Fin (- 12)"
definition MAX_GAIN_DB :: flt where "MAX_GAIN_DB = Fin 12"

datatype filter_type = LowShelf | Peaking | HighShelf

record eq_band =
  freq :: flt
  gain_db :: flt
  q_factor :: flt
  filter_type :: filter_type

definition clamp_gain :: "eq_band \<Rightarrow> eq_band" where
  "clamp_gain b = b\<lparr>gain_db := flt_clamp MIN_GAIN_DB MAX_GAIN_DB (gain_db b)\<rparr>"

definition band :: "rat \<Rightarrow> rat \<Rightarrow> filter_type \<Rightarrow> eq_band" where
  "band f qq t = \<lparr>freq = Fin f, gain_db = Fin 0, q_factor = Fin qq, filter_type = t\<rparr>"

definition default_bands :: "eq_band list" where
  "default_bands =
     [band 60 (707/1000) LowShelf,
      band 120 (1414/1000) Peaking,
      band 250 (1414/1000) Peaking,
      band 500 (1414/1000) Peaking,
      band 1000 (1414/1000) Peaking,
      band 2000 (1414/1000) Peaking,
      band 4000 (1414/1000) Peaking,
      band 8000 (1820/1000) Peaking,
      band 12000 (2870/1000) Peaking,
      band 16000 (707/1000) HighShelf]"

fun filter_label :: "filter_type \<Rightarrow> string" where
  "filter_label LowShelf = ''bq_lowshelf''"
| "filter_label Peaking = ''bq_peaking''"
| "filter_label HighShelf = ''bq_highshelf''"

section \<open>The generated configuration\<close>

definition spaces :: "nat \<Rightarrow> string" where "spaces n = replicate n CHR '' ''"

definition node_lines :: "(rat \<Rightarrow> string) \<Rightarrow> nat \<Rightarrow> eq_band \<Rightarrow> string list" where
  "node_lines shortest i b =
     [spaces 20 @ ''{ type = builtin  label = '' @ filter_label (filter_type b)
        @ ''  name = eq_band_'' @ show_nat i,
      spaces 22 @ ''control = { '' @ quoted ''Freq'' @ '' = '' @ fmt_display shortest (freq b)
        @ ''  '' @ quoted ''Q'' @ '' = '' @ fmt_fixed 3 (q_factor b)
        @ ''  '' @ quoted ''Gain'' @ '' = '' @ fmt_fixed 1 (gain_db b) @ '' } }'']"

definition link_line :: "nat \<Rightarrow> string" where
  "link_line i =
     spaces 20 @ ''{ output = '' @ quoted (''eq_band_'' @ show_nat (i - 1) @ '':Out'')
       @ ''  input = '' @ quoted (''eq_band_'' @ show_nat i @ '':In'') @ '' }''"

text \<open>The loop over the bands: the nodes and the links accumulated from band \<open>i\<close> on.\<close>

fun nodes_and_links :: "(rat \<Rightarrow> string) \<Rightarrow> nat \<Rightarrow> eq_band list \<Rightarrow> string list \<times> string list" where
  "nodes_and_links shortest i [] = ([], [])"
| "nodes_and_links shortest i (b # bs) =
     (case nodes_and_links shortest (Suc i) bs of
        (ns, ls) \<Rightarrow> (node_lines shortest i b @ ns, (if 0 < i then [link_line i] else []) @ ls))"

definition config_head :: "string list" where
  "config_head =
     [''# PipeWire filter-chain for 10-band parametric EQ (auto-generated)'',
      ''context.modules = ['',
      spaces 4 @ ''{ name = libpipewire-module-filter-chain'',
      spaces 8 @ ''args = {'',
      spaces 12 @ ''node.name = '' @ quoted ''soundsync-eq'',
      spaces 12 @ ''node.description = '' @ quoted ''SoundSync Equalizer'',
      spaces 12 @ ''media.name = '' @ quoted ''SoundSync EQ'',
      spaces 12 @ ''capture.props = {'',
      spaces 16 @ ''node.name = '' @ quoted ''effect_input.soundsync-eq'',
      spaces 16 @ ''media.class = '' @ quoted ''Audio/Sink'',
      spaces 16 @ ''audio.rate = 48000'',
      spaces 16 @ ''audio.channels = 2'',
      spaces 16 @ ''audio.position = [ FL FR ]'',
      spaces 12 @ ''}'',
      spaces 12 @ ''playback.props = {'',
      spaces 16 @ ''node.name = '' @ quoted ''effect_output.soundsync-eq'',
      spaces 16 @ ''media.class = '' @ quoted ''Stream/Output/Audio'',
      spaces 16 @ ''node.target = '' @ quoted ''soundsync-capture'',
      spaces 16 @ ''audio.channels = 2'',
      spaces 16 @ ''audio.position = [ FL FR ]'',
      spaces 12 @ ''}'',
      spaces 12 @ ''filter.graph = {'',
      spaces 16 @ ''nodes = ['']"

definition config_tail :: "nat \<Rightarrow> string list" where
  "config_tail n =
     [spaces 16 @ '']'',
      spaces 16 @ ''inputs  = [ '' @ quoted ''eq_band_0:In'' @ '' ]'',
      spaces 16 @ ''outputs = [ '' @ quoted (''eq_band_'' @ show_nat (n - 1) @ '':Out'') @ '' ]'',
      spaces 12 @ ''}'', spaces 8 @ ''}'', spaces 4 @ ''}'', '']'']"

text \<open>\<open>None\<close> is the panic on an empty list of bands.\<close>

definition generate_filter_chain_config ::
    "(rat \<Rightarrow> string) \<Rightarrow> eq_band list \<Rightarrow> string option" where
  "generate_filter_chain_config shortest bands =
     (if bands = [] then None
      else case nodes_and_links shortest 0 bands of
        (ns, ls) \<Rightarrow> Some (unlines
          (config_head @ ns @ [spaces 16 @ '']'', spaces 16 @ ''links = ['']
           @ ls @ config_tail (length bands))))"

section \<open>The filter-chain unit\<close>

definition FILTER_CHAIN_CONF :: string where "FILTER_CHAIN_CONF = ''filter-chain.conf''"
definition FILTER_CHAIN_CONFD_FILENAME :: string where
  "FILTER_CHAIN_CONFD_FILENAME = ''soundsync-eq.conf''"

definition filter_chain_config_dir :: "string \<Rightarrow> string" where
  "filter_chain_config_dir runtime_dir = runtime_dir @ ''/soundsync''"

definition filter_chain_confd_path :: "string \<Rightarrow> string" where
  "filter_chain_confd_path home =
     home @ ''/.config/pipewire/filter-chain.conf.d/'' @ FILTER_CHAIN_CONFD_FILENAME"

definition filter_chain_confd_dir :: "string \<Rightarrow> string" where
  "filter_chain_confd_dir home = home @ ''/.config/pipewire/filter-chain.conf.d''"

datatype filter_chain_tool = Standalone | PipewireEmbedded

record command_line =
  cmd_program :: string
  cmd_args :: "string list"

definition build_embedded_launch :: command_line where
  "build_embedded_launch =
     \<lparr>cmd_program = ''pipewire'', cmd_args = [''-c'', ''filter-chain.conf'']\<rparr>"

fun build_filter_chain_command :: "filter_chain_tool \<Rightarrow> string \<Rightarrow> command_line" where
  "build_filter_chain_command Standalone config_path =
     \<lparr>cmd_program = ''pipewire-filter-chain'', cmd_args = [''--config'', config_path]\<rparr>"
| "build_filter_chain_command PipewireEmbedded config_path = build_embedded_launch"

definition pipewire_filter_chain_available :: "'w runner \<Rightarrow> 'w \<Rightarrow> bool \<times> 'w" where
  "pipewire_filter_chain_available r w =
     (case r w ''which'' [''pipewire-filter-chain''] of
        (Inr out, w') \<Rightarrow> (success out, w')
      | (Inl _, w') \<Rightarrow> (False, w'))"

definition detect_filter_chain_tool :: "'w runner \<Rightarrow> 'w \<Rightarrow> filter_chain_tool \<times> 'w" where
  "detect_filter_chain_tool r w =
     (case pipewire_filter_chain_available r w of
        (avail, w') \<Rightarrow> (if avail then Standalone else PipewireEmbedded, w'))"

text \<open>
  The process spawner (src/src/sys/process.rs): starting a child and waiting for it.  Both
  outcomes belong to the operating system.
\<close>

record ('w, 'c) spawner =
  spawn :: "'w \<Rightarrow> string \<Rightarrow> string list \<Rightarrow> (io_error + 'c) \<times> 'w"
  wait :: "'c \<Rightarrow> 'w \<Rightarrow> (io_error + int option) \<times> 'w"

text \<open>
  The real spawner over \<open>tokio::process\<close>: starting (with the output piped or not), the exit code of the
  awaited status, and killing, which dropping a child also does.
\<close>

record ('w, 'p, 'o) tokio_process =
  tp_spawn :: "string \<Rightarrow> string list \<Rightarrow> bool \<Rightarrow> 'w \<Rightarrow> (io_error + 'p) \<times> 'w"
  tp_stdout :: "'p \<Rightarrow> 'o option"
  tp_wait :: "'p \<Rightarrow> 'w \<Rightarrow> (io_error + int option) \<times> 'w"
  tp_kill :: "'p \<Rightarrow> 'w \<Rightarrow> (io_error + unit) \<times> 'w"

definition tokio_spawn_capture ::
    "('w, 'p, 'o) tokio_process \<Rightarrow> 'w \<Rightarrow> string \<Rightarrow> string list \<Rightarrow> (io_error + 'p \<times> 'o) \<times> 'w" where
  "tokio_spawn_capture tp w program args =
     (case tp_spawn tp program args True w of
        (Inl e, w1) \<Rightarrow> (Inl e, w1)
      | (Inr p, w1) \<Rightarrow>
          (case tp_stdout tp p of
             Some out \<Rightarrow> (Inr (p, out), w1)
           | None \<Rightarrow> (Inl \<lparr>err_kind = OtherKind,
                            err_msg = ''spawn_capture: child stdout was not piped''\<rparr>,
                      snd (tp_kill tp p w1))))"

definition tokio_spawn ::
    "('w, 'p, 'o) tokio_process \<Rightarrow> 'w \<Rightarrow> string \<Rightarrow> string list \<Rightarrow> (io_error + 'p) \<times> 'w" where
  "tokio_spawn tp w program args = tp_spawn tp program args False w"

definition tokio_spawner :: "('w, 'p, 'o) tokio_process \<Rightarrow> ('w, 'p) spawner" where
  "tokio_spawner tp = \<lparr>spawn = tokio_spawn tp, wait = tp_wait tp\<rparr>"

text \<open>
  One run of the unit.  The outer \<open>None\<close> is the panic of the generator.
\<close>

definition filter_chain_launch ::
    "'w fs_ops \<Rightarrow> string \<Rightarrow> string \<Rightarrow> filter_chain_tool \<Rightarrow> string \<Rightarrow> 'w
      \<Rightarrow> (io_error + command_line) \<times> 'w" where
  "filter_chain_launch ops config runtime_dir tool home w =
     (case tool of
        Standalone \<Rightarrow>
          (let dir = filter_chain_config_dir runtime_dir in
           case write_atomic ops w dir FILTER_CHAIN_CONF config of
             (Inl e, w1) \<Rightarrow> (Inl e, w1)
           | (Inr _, w1) \<Rightarrow>
               (Inr (build_filter_chain_command Standalone (dir @ ''/'' @ FILTER_CHAIN_CONF)), w1))
      | PipewireEmbedded \<Rightarrow>
          (case write_atomic ops w (filter_chain_confd_dir home) FILTER_CHAIN_CONFD_FILENAME config of
             (Inl e, w1) \<Rightarrow> (Inl e, w1)
           | (Inr _, w1) \<Rightarrow> (Inr build_embedded_launch, w1)))"

definition run_filter_chain ::
    "('w, 'c) spawner \<Rightarrow> 'w fs_ops \<Rightarrow> (rat \<Rightarrow> string) \<Rightarrow> eq_band list \<Rightarrow> string
      \<Rightarrow> filter_chain_tool \<Rightarrow> string \<Rightarrow> 'w \<Rightarrow> ((io_error + unit) \<times> 'w) option" where
  "run_filter_chain sp ops shortest bands runtime_dir tool home w =
     (case generate_filter_chain_config shortest bands of
        None \<Rightarrow> None
      | Some config \<Rightarrow>
          (case filter_chain_launch ops config runtime_dir tool home w of
             (Inl e, w1) \<Rightarrow> Some (Inl e, w1)
           | (Inr cmd, w1) \<Rightarrow>
               (case spawn sp w1 (cmd_program cmd) (cmd_args cmd) of
                  (Inl e, w2) \<Rightarrow> Some (Inl e, w2)
                | (Inr ch, w2) \<Rightarrow>
                    (case wait sp ch w2 of
                       (Inl e, w3) \<Rightarrow> Some (Inl e, w3)
                     | (Inr _, w3) \<Rightarrow> Some (Inr (), w3)))))"

section \<open>Live control\<close>

definition EQ_NODE_NAME :: string where "EQ_NODE_NAME = ''effect_input.soundsync-eq''"

definition node_name_of :: "json \<Rightarrow> string option" where
  "node_name_of obj =
     Option.bind (Option.bind (Option.bind (json_get obj ''info'') (\<lambda>i. json_get i ''props''))
       (\<lambda>p. json_get p ''node.name'')) json_as_str"

text \<open>The first object with the node name decides, also when it has no id.\<close>

fun eq_node_in :: "json list \<Rightarrow> nat option" where
  "eq_node_in [] = None"
| "eq_node_in (obj # objs) =
     (if node_name_of obj = Some EQ_NODE_NAME
      then map_option (\<lambda>n. n mod 2 ^ 32) (Option.bind (json_get obj ''id'') json_as_u64)
      else eq_node_in objs)"

definition find_eq_node_id :: "json_parser \<Rightarrow> string \<Rightarrow> nat option" where
  "find_eq_node_id from_str pw_dump_json =
     Option.bind (Option.bind (from_str pw_dump_json) json_as_array) eq_node_in"

definition probe_eq_node_id :: "json_parser \<Rightarrow> 'w runner \<Rightarrow> 'w \<Rightarrow> nat option \<times> 'w" where
  "probe_eq_node_id from_str r w =
     (case r w ''pw-dump'' [] of
        (Inl _, w') \<Rightarrow> (None, w')
      | (Inr out, w') \<Rightarrow>
          (if \<not> success out then None else find_eq_node_id from_str (stdout out), w'))"

fun gain_params_from :: "nat \<Rightarrow> flt list \<Rightarrow> string" where
  "gain_params_from i [] = []"
| "gain_params_from i (g # gs) =
     '' '' @ quoted (''eq_band_'' @ show_nat i @ '':Gain'') @ '' '' @ fmt_fixed 1 g
       @ gain_params_from (Suc i) gs"

definition build_gain_params :: "flt list \<Rightarrow> string" where
  "build_gain_params gains = ''{ params = ['' @ gain_params_from 0 gains @ '' ] }''"

definition set_eq_gains ::
    "'w runner \<Rightarrow> nat \<Rightarrow> flt list \<Rightarrow> 'w \<Rightarrow> (string + unit) \<times> 'w" where
  "set_eq_gains r node_id gains w =
     (case r w ''pw-cli'' [''set-param'', show_nat node_id, ''Props'', build_gain_params gains] of
        (Inl e, w') \<Rightarrow> (Inl (''pw-cli set-param failed to spawn: '' @ err_msg e), w')
      | (Inr out, w') \<Rightarrow>
          (if success out then Inr ()
           else Inl (''pw-cli set-param '' @ show_nat node_id @ '' Props failed: ''
                      @ trim (stderr out)), w'))"

text \<open>
  The clock of the asynchronous runtime: reading it and sleeping.  The waiting loop is
  \<open>None\<close> when it does not return.
\<close>

record 'w timer =
  now :: "'w \<Rightarrow> duration"
  sleep :: "duration \<Rightarrow> 'w \<Rightarrow> 'w"

partial_function (option) wait_eq_loop ::
    "('w \<Rightarrow> nat option \<times> 'w) \<Rightarrow> 'w timer \<Rightarrow> duration \<Rightarrow> 'w \<Rightarrow> (nat option \<times> 'w) option" where
  "wait_eq_loop probe t deadline w =
     (case probe w of
        (Some i, w1) \<Rightarrow> Some (Some i, w1)
      | (None, w1) \<Rightarrow>
          if deadline \<le> now t w1 then Some (None, w1)
          else wait_eq_loop probe t deadline (sleep t (millis 50) w1))"

definition wait_for_eq_node ::
    "json_parser \<Rightarrow> 'w runner \<Rightarrow> 'w timer \<Rightarrow> duration \<Rightarrow> 'w \<Rightarrow> (nat option \<times> 'w) option" where
  "wait_for_eq_node from_str r t timeout w =
     wait_eq_loop (probe_eq_node_id from_str r) t (now t w + timeout) w"

section \<open>Lemmas\<close>

lemma length_default_bands [simp]: "length default_bands = NUM_BANDS"
  by (simp add: default_bands_def NUM_BANDS_def)

lemma confd_path_in_dir:
  "filter_chain_confd_path home = in_dir (filter_chain_confd_dir home) FILTER_CHAIN_CONFD_FILENAME"
  by (simp add: filter_chain_confd_path_def filter_chain_confd_dir_def in_dir_def)

lemma clamp_gain_idem [simp]: "clamp_gain (clamp_gain b) = clamp_gain b"
  by (simp add: clamp_gain_def MIN_GAIN_DB_def MAX_GAIN_DB_def)

lemma nodes_and_links_closed:
  "nodes_and_links shortest i bs =
     (concat (map (\<lambda>j. node_lines shortest (i + j) (bs ! j)) [0..<length bs]),
      map link_line [max 1 i..<i + length bs])"
proof (induction bs arbitrary: i)
  case (Cons b bs)
  have nodes: "map (\<lambda>j. node_lines shortest (i + j) ((b # bs) ! j)) [0..<length (b # bs)]
      = node_lines shortest i b # map (\<lambda>j. node_lines shortest (Suc i + j) (bs ! j)) [0..<length bs]"
    by (simp add: upt_conv_Cons map_Suc_upt[symmetric] del: upt_Suc)
  have links: "(if 0 < i then [link_line i] else []) @ map link_line [max 1 (Suc i)..<Suc i + length bs]
      = map link_line [max 1 i..<i + length (b # bs)]"
  proof (cases "0 < i")
    case True
    then have "[max 1 i..<i + length (b # bs)] = i # [Suc i..<Suc i + length bs]"
      by (simp add: upt_conv_Cons max_def del: upt_Suc)
    then show ?thesis using True by (simp add: max_def del: upt_Suc)
  qed (simp add: max_def del: upt_Suc)
  show ?case unfolding nodes_and_links.simps Cons.IH prod.case nodes links[symmetric]
    by simp
qed simp

text \<open>The loop returns when the clock moves on by what it sleeps.\<close>

definition timer_ok :: "'w timer \<Rightarrow> bool" where
  "timer_ok t \<longleftrightarrow> (\<forall>d w. now t w + d \<le> now t (sleep t d w))"

lemma wait_eq_loop_returns:
  assumes "timer_ok t" "\<And>w. now t w \<le> now t (snd (probe w))"
  shows "\<exists>res w'. wait_eq_loop probe t deadline w = Some (res, w')"
proof (induction "deadline - now t w" arbitrary: w rule: less_induct)
  case less
  obtain res w1 where p: "probe w = (res, w1)" by fastforce
  show ?case
  proof (cases "res = None \<and> now t w1 < deadline")
    case False
    then show ?thesis using p
      by (subst wait_eq_loop.simps) (cases res; auto simp: not_less)
  next
    case True
    have "now t w \<le> now t w1" using assms(2)[of w] p by simp
    moreover have "now t w1 + millis 50 \<le> now t (sleep t (millis 50) w1)"
      using assms(1) by (simp add: timer_ok_def)
    moreover have "0 < millis 50" by (simp add: millis_def)
    ultimately have "deadline - now t (sleep t (millis 50) w1) < deadline - now t w"
      using True by linarith
    from less[OF this] show ?thesis using p True
      by (subst wait_eq_loop.simps) (simp add: not_le)
  qed
qed

lemma probe_eq_snd: "snd (probe_eq_node_id f r w) = snd (r w ''pw-dump'' [])"
  by (auto simp: probe_eq_node_id_def split: prod.splits sum.splits)

lemma wait_for_eq_node_returns:
  assumes "timer_ok t" "\<And>w p as. now t w \<le> now t (snd (r w p as))"
  shows "\<exists>res w'. wait_for_eq_node f r t timeout w = Some (res, w')"
  unfolding wait_for_eq_node_def
  by (rule wait_eq_loop_returns[OF assms(1)]) (simp add: probe_eq_snd assms(2))

text \<open>An id that is reported was read from the graph by a probe.\<close>

lemma wait_eq_loop_found:
  assumes "wait_eq_loop probe t deadline w = Some r"
  shows "fst r = None \<or> (\<exists>w0. probe w0 = r)"
proof -
  let ?P = "\<lambda>probe t deadline w r. fst r = None \<or> (\<exists>w0. probe w0 = r)"
  show ?thesis
  proof (rule wait_eq_loop.raw_induct[where P = ?P, OF _ assms])
    fix f probe t d w r
    assume IH: "\<And>probe t d w r. f probe t d w = Some r \<Longrightarrow> ?P probe t d w r"
      and eq: "(case probe w of (None, w1) \<Rightarrow> if d \<le> now t w1 then Some (None, w1)
           else f probe t d (sleep t (millis 50) w1)
         | (Some i, w1) \<Rightarrow> Some (Some i, w1)) = Some r"
    show "?P probe t d w r"
    proof (cases "probe w")
      case (Pair res w1)
      then show ?thesis using eq IH[of probe t d "sleep t (millis 50) w1" r]
        by (cases res) (auto split: if_splits)
    qed
  qed
qed

section \<open>Properties\<close>

text \<open>
  C38 (the filter graph is one chain).  The generated text declares the bands in order, node
  \<open>i\<close> being \<open>eq_band_i\<close>, and links each band to the next one, so that the declared input is
  the first band and the declared output the last.
\<close>

theorem filter_graph_is_chain:
  assumes "bands \<noteq> []"
  shows "generate_filter_chain_config shortest bands = Some (unlines (config_head
      @ concat (map (\<lambda>i. node_lines shortest i (bands ! i)) [0..<length bands])
      @ [spaces 16 @ '']'', spaces 16 @ ''links = ['']
      @ map (\<lambda>i. link_line (Suc i)) [0..<length bands - 1] @ config_tail (length bands)))"
proof -
  have "[Suc 0..<length bands] = map Suc [0..<length bands - 1]"
    using assms by (simp add: map_Suc_upt del: upt_Suc)
  then show ?thesis using assms
    by (simp add: generate_filter_chain_config_def nodes_and_links_closed o_def del: upt_Suc)
qed

theorem filter_graph_is_chain_witness:
  "generate_filter_chain_config (\<lambda>_. []) default_bands = Some (unlines (config_head
      @ concat (map (\<lambda>i. node_lines (\<lambda>_. []) i (default_bands ! i)) [0..<length default_bands])
      @ [spaces 16 @ '']'', spaces 16 @ ''links = ['']
      @ map (\<lambda>i. link_line (Suc i)) [0..<length default_bands - 1] @ config_tail (length default_bands)))"
  by (rule filter_graph_is_chain) (simp add: default_bands_def)



end
