(* ===== verification/Discovery.thy ===== *)
theory Discovery
  imports Effects
begin

text \<open>
  The output model and its discovery (src/src/output/mod.rs, discovery.rs, loopback.rs):
  the kinds of output, the parsers of \<open>avahi-browse\<close> and \<open>pactl\<close> text, the
  deduplication, the aggregated probe, and the argument list that loads a loopback.
\<close>

section \<open>The output model\<close>

datatype output_kind = Soundcard | Airplay | Chromecast

fun output_kind_as_str :: "output_kind \<Rightarrow> string" where
  "output_kind_as_str Soundcard = ''soundcard''"
| "output_kind_as_str Airplay = ''airplay''"
| "output_kind_as_str Chromecast = ''chromecast''"

record output_device =
  dev_kind :: output_kind
  dev_id :: string
  dev_name :: string
  dev_addr :: "string option"
  dev_port :: "nat option"

record available_outputs =
  soundcard :: "output_device list"
  airplay :: "output_device list"
  chromecast :: "output_device list"

definition no_outputs :: available_outputs where
  "no_outputs = \<lparr>soundcard = [], airplay = [], chromecast = []\<rparr>"

datatype output_command = Select output_kind string | ClearOutput

section \<open>Deduplication\<close>

text \<open>
  \<open>dedup_by\<close> filters with a set of the keys seen so far; \<open>HashSet::insert\<close> answers
  whether the key is new.
\<close>

fun dedup_seen :: "'k list \<Rightarrow> ('a \<Rightarrow> 'k) \<Rightarrow> 'a list \<Rightarrow> 'a list" where
  "dedup_seen seen key [] = []"
| "dedup_seen seen key (d # ds) =
     (if key d \<in> set seen then dedup_seen seen key ds
      else d # dedup_seen (key d # seen) key ds)"

definition dedup_by :: "('a \<Rightarrow> 'k) \<Rightarrow> 'a list \<Rightarrow> 'a list" where
  "dedup_by key ds = dedup_seen [] key ds"

section \<open>The parsers\<close>

text \<open>
  The first odd-numbered piece between double quotes that starts with the key and an
  equals sign; the text after it is the value.
\<close>

fun txt_value_from :: "string \<Rightarrow> nat \<Rightarrow> string list \<Rightarrow> string option" where
  "txt_value_from p i [] = None"
| "txt_value_from p i (chunk # cs) =
     (if i mod 2 = 1
      then (case strip_prefix p chunk of
              Some v \<Rightarrow> Some v
            | None \<Rightarrow> txt_value_from p (Suc i) cs)
      else txt_value_from p (Suc i) cs)"

definition extract_txt_value :: "string \<Rightarrow> string \<Rightarrow> string option" where
  "extract_txt_value txt key = txt_value_from (key @ ''='') 0 (split_on CHR 0x22 txt)"

text \<open>One line of \<open>avahi-browse -rtp\<close>; the flag says whether it is an IPv4 line.\<close>

definition non_empty :: "string option \<Rightarrow> string option" where
  "non_empty v = (case v of Some s \<Rightarrow> if s \<noteq> [] then Some s else None | None \<Rightarrow> None)"

definition parse_chromecast_line :: "string \<Rightarrow> (output_device \<times> bool) option" where
  "parse_chromecast_line l =
     (let line = trim l in
      if \<not> starts_with line ''='' then None
      else let fields = splitn 10 CHR '';'' line in
        if length fields < 10 then None
        else case parse_u16 (fields ! 8) of
            None \<Rightarrow> None
          | Some port \<Rightarrow>
              (case non_empty (extract_txt_value (fields ! 9) ''fn'') of
                 None \<Rightarrow> None
               | Some name \<Rightarrow>
                   (case non_empty (extract_txt_value (fields ! 9) ''id'') of
                      None \<Rightarrow> None
                    | Some cid \<Rightarrow>
                        Some (\<lparr>dev_kind = Chromecast, dev_id = cid, dev_name = name,
                               dev_addr = Some (fields ! 7), dev_port = Some port\<rparr>,
                              fields ! 2 = ''IPv4''))))"

text \<open>\<open>sort_by_key\<close> is a stable sort; its key is 0 for IPv4 lines and 1 otherwise.\<close>

definition chromecast_entries :: "string \<Rightarrow> (output_device \<times> bool) list" where
  "chromecast_entries avahi = List.map_filter parse_chromecast_line (lines avahi)"

definition parse_chromecasts :: "string \<Rightarrow> output_device list" where
  "parse_chromecasts avahi =
     map fst (sort_key (\<lambda>(d, ipv4). if ipv4 then 0 else (1::nat)) (chromecast_entries avahi))"

text \<open>The sink name of a line of \<open>pactl list short sinks\<close>: its second tab-separated field.\<close>

definition sink_name_of_line :: "string \<Rightarrow> string option" where
  "sink_name_of_line l =
     (let line = trim l in
      if line = [] then None
      else let fields = splitn 5 CHR 0x09 line in
        if length fields < 2 then None else Some (fields ! 1))"

definition raop_friendly_name :: "string \<Rightarrow> string" where
  "raop_friendly_name sink_name =
     (let remainder = drop (length ''raop_sink.'') sink_name in
      case rfind_sub ''.local'' remainder of
        Some pos \<Rightarrow> take pos remainder
      | None \<Rightarrow> remainder)"

definition raop_device :: "string \<Rightarrow> output_device option" where
  "raop_device l =
     (case sink_name_of_line l of
        None \<Rightarrow> None
      | Some sink_name \<Rightarrow>
          if starts_with sink_name ''raop_sink.''
          then Some \<lparr>dev_kind = Airplay, dev_id = sink_name,
                     dev_name = raop_friendly_name sink_name,
                     dev_addr = None, dev_port = None\<rparr>
          else None)"

definition parse_raop_sinks :: "string \<Rightarrow> output_device list" where
  "parse_raop_sinks pactl_sinks = List.map_filter raop_device (lines pactl_sinks)"

definition soundcard_device :: "string \<Rightarrow> output_device option" where
  "soundcard_device l =
     (case sink_name_of_line l of
        None \<Rightarrow> None
      | Some name \<Rightarrow>
          if starts_with name ''soundsync'' \<or> starts_with name ''raop_sink.''
             \<or> contains name ''effect_'' \<or> ends_with name ''.monitor''
          then None
          else Some \<lparr>dev_kind = Soundcard, dev_id = name, dev_name = name,
                     dev_addr = None, dev_port = None\<rparr>)"

definition parse_soundcard_sinks :: "string \<Rightarrow> output_device list" where
  "parse_soundcard_sinks pactl = List.map_filter soundcard_device (lines pactl)"

text \<open>
  The first row whose second field is the module name decides; its id may still fail to
  parse.
\<close>

fun module_id_in_lines :: "string \<Rightarrow> string list \<Rightarrow> nat option" where
  "module_id_in_lines name [] = None"
| "module_id_in_lines name (l # ls) =
     (let line = trim l in
      if line = [] then module_id_in_lines name ls
      else case splitn 3 CHR 0x09 line of
          id_str # n # _ \<Rightarrow>
            if n = name then parse_u32 id_str else module_id_in_lines name ls
        | _ \<Rightarrow> module_id_in_lines name ls)"

definition parse_module_id_by_name :: "string \<Rightarrow> string \<Rightarrow> nat option" where
  "parse_module_id_by_name pactl_modules module_name =
     module_id_in_lines module_name (lines pactl_modules)"

section \<open>The probe\<close>

text \<open>
  Two commands; each that fails to run leaves its kinds empty.  The exit status is not
  looked at: the text is parsed whatever it is.
\<close>

definition probe_outputs :: "'w runner \<Rightarrow> 'w \<Rightarrow> available_outputs \<times> 'w" where
  "probe_outputs r w =
     (case r w ''avahi-browse'' [''-rtp'', ''_googlecast._tcp''] of (res1, w1) \<Rightarrow>
      (case r w1 ''pactl'' [''list'', ''short'', ''sinks''] of (res2, w2) \<Rightarrow>
        (\<lparr>soundcard = (case res2 of Inl _ \<Rightarrow> []
             | Inr o2 \<Rightarrow> dedup_by dev_id (parse_soundcard_sinks (stdout o2))),
          airplay = (case res2 of Inl _ \<Rightarrow> []
             | Inr o2 \<Rightarrow> dedup_by dev_name (parse_raop_sinks (stdout o2))),
          chromecast = dedup_by dev_id (case res1 of Inl _ \<Rightarrow> []
             | Inr o1 \<Rightarrow> parse_chromecasts (stdout o1))\<rparr>, w2)))"

section \<open>The loopback command\<close>

definition CAPTURE_MONITOR :: string where
  "CAPTURE_MONITOR = ''soundsync-capture.monitor''"

definition build_loopback_args :: "string \<Rightarrow> string list" where
  "build_loopback_args sink =
     [''load-module'', ''module-loopback'', ''source='' @ CAPTURE_MONITOR, ''sink='' @ sink,
      ''sink_dont_move=true'', ''source_dont_move=true'']"

definition parse_loopback_module_id :: "string \<Rightarrow> nat option" where
  "parse_loopback_module_id load_output = parse_u32 (trim load_output)"

section \<open>Lemmas\<close>

lemma set_dedup_seen: "set (dedup_seen seen key ds) \<subseteq> set ds"
  by (induction ds arbitrary: seen) auto

lemma subseq_dedup_seen: "subseq (dedup_seen seen key ds) ds"
  by (induction ds arbitrary: seen) auto

lemma keys_dedup_seen: "key ` set (dedup_seen seen key ds) = key ` set ds - set seen"
  by (induction ds arbitrary: seen) auto

lemma distinct_dedup_seen: "distinct (map key (dedup_seen seen key ds))"
proof (induction ds arbitrary: seen)
  case (Cons d ds)
  have "key d \<notin> key ` set (dedup_seen (key d # seen) key ds)"
    by (simp add: keys_dedup_seen)
  then show ?case using Cons by simp
qed simp

lemma dedup_seen_first:
  "find (\<lambda>x. key x = k) (dedup_seen seen key ds) =
     (if k \<in> set seen then None else find (\<lambda>x. key x = k) ds)"
  by (induction ds arbitrary: seen) auto

lemma dedup_seen_id:
  "distinct (map key ds) \<Longrightarrow> key ` set ds \<inter> set seen = {} \<Longrightarrow> dedup_seen seen key ds = ds"
  by (induction ds arbitrary: seen) auto

lemma soundcard_device_Some:
  "soundcard_device l = Some d \<Longrightarrow> sink_name_of_line l = Some (dev_id d) \<and> dev_kind d = Soundcard
     \<and> \<not> starts_with (dev_id d) ''soundsync'' \<and> \<not> starts_with (dev_id d) ''raop_sink.''
     \<and> \<not> contains (dev_id d) ''effect_'' \<and> \<not> ends_with (dev_id d) ''.monitor''"
  by (cases "sink_name_of_line l") (auto simp: soundcard_device_def split: if_splits)

lemma raop_device_Some:
  "raop_device l = Some d \<Longrightarrow> sink_name_of_line l = Some (dev_id d) \<and> dev_kind d = Airplay
     \<and> starts_with (dev_id d) ''raop_sink.''"
  by (cases "sink_name_of_line l") (auto simp: raop_device_def split: if_splits)

lemma set_map_filter: "x \<in> set (List.map_filter f xs) \<longleftrightarrow> (\<exists>y \<in> set xs. f y = Some x)"
  by (induction xs) (auto simp: map_filter_simps split: option.splits)

lemma build_loopback_args_inject [simp]:
  "build_loopback_args a = build_loopback_args b \<longleftrightarrow> a = b"
  by (simp add: build_loopback_args_def)

lemma parse_loopback_show: "parse_loopback_module_id (show_nat n @ [CHR 0x0A])
    = (if n < 2 ^ 32 then Some n else None)"
  by (simp add: parse_loopback_module_id_def parse_uint_show)

text \<open>The stable sort by a two-valued key puts the IPv4 entries before the others.\<close>

lemma insort_key_zero:
  fixes f :: "'a \<Rightarrow> nat"
  shows "f x = 0 \<Longrightarrow> insort_key f x xs = x # xs"
  by (cases xs) auto

lemma insort_key_one:
  fixes f :: "'a \<Rightarrow> nat"
  assumes "f x = 1" "\<forall>z \<in> set zs. f z = 0" "\<forall>y \<in> set os. f y = 1"
  shows "insort_key f x (zs @ os) = zs @ x # os"
  using assms(2)
proof (induction zs)
  case Nil
  then show ?case using assms by (cases os) auto
qed (use assms in auto)

lemma sort_key_two_valued:
  fixes f :: "'a \<Rightarrow> nat"
  assumes "\<And>x. f x = 0 \<or> f x = 1"
  shows "sort_key f xs = filter (\<lambda>x. f x = 0) xs @ filter (\<lambda>x. f x = 1) xs"
proof (induction xs)
  case (Cons x xs)
  show ?case
  proof (cases "f x = 0")
    case True
    then show ?thesis using Cons by (simp add: sort_key_def insort_key_zero)
  next
    case False
    then have "f x = 1" using assms[of x] by simp
    then show ?thesis using Cons by (simp add: sort_key_def insort_key_one)
  qed
qed simp

lemma parse_chromecasts_eq:
  "parse_chromecasts avahi =
     map fst (filter snd (chromecast_entries avahi))
     @ map fst (filter (\<lambda>e. \<not> snd e) (chromecast_entries avahi))"
proof -
  let ?f = "\<lambda>e::output_device \<times> bool. case e of (d, ipv4) \<Rightarrow> if ipv4 then 0 else (1::nat)"
  have "sort_key ?f es = filter (\<lambda>e. ?f e = 0) es @ filter (\<lambda>e. ?f e = 1) es" for es
    by (rule sort_key_two_valued) (auto split: if_splits)
  moreover have "?f e = 0 \<longleftrightarrow> snd e" "?f e = 1 \<longleftrightarrow> \<not> snd e" for e
    by (cases e, cases "snd e", simp_all)+
  ultimately show ?thesis by (simp only: parse_chromecasts_def map_append)
qed

lemma find_map_fst_filter:
  "find (\<lambda>d. p d) (map fst (filter q es)) = map_option fst (find (\<lambda>e. p (fst e) \<and> q e) es)"
  by (induction es) auto

lemma find_append:
  "find p (xs @ ys) = (case find p xs of Some x \<Rightarrow> Some x | None \<Rightarrow> find p ys)"
  by (induction xs) auto

lemma rfind_sub_append:
  assumes "\<not> contains (tl (p @ b)) p" "p \<noteq> []"
  shows "rfind_sub p (a @ p @ b) = Some (length a)"
proof -
  have none: "rfind_sub p (tl (p @ b)) = None"
  proof (rule ccontr)
    assume "rfind_sub p (tl (p @ b)) \<noteq> None"
    then obtain i where "rfind_sub p (tl (p @ b)) = Some i" by auto
    then have "prefix p (drop i (tl (p @ b)))" by (simp add: rfind_sub_Some)
    then obtain r where "drop i (tl (p @ b)) = p @ r" by (auto simp: prefix_def)
    then have "tl (p @ b) = take i (tl (p @ b)) @ p @ r" by (metis append_take_drop_id)
    then show False using assms(1) by (auto simp: contains_iff)
  qed
  have base: "rfind_sub p (p @ b) = Some 0"
    using assms(2) none by (cases p) auto
  show ?thesis
    by (induction a) (auto simp: base)
qed

section \<open>Properties\<close>

text \<open>
  Deduplication.  \<open>dedup_by\<close> keeps a subsequence of its input in which no key occurs
  twice, loses no key, and for every key keeps the first device that has it.
\<close>

theorem dedup_by_first_wins:
  "distinct (map key (dedup_by key ds)) \<and> subseq (dedup_by key ds) ds
   \<and> key ` set (dedup_by key ds) = key ` set ds
   \<and> (\<forall>k. find (\<lambda>d. key d = k) (dedup_by key ds) = find (\<lambda>d. key d = k) ds)"
  unfolding dedup_by_def
  by (simp add: distinct_dedup_seen subseq_dedup_seen keys_dedup_seen dedup_seen_first)

text \<open>
  IPv4 preference.  What the probe keeps for a Chromecast id is the first IPv4 line
  with that id when there is one, and otherwise the first line with that id.
\<close>

theorem chromecast_ipv4_preferred:
  "find (\<lambda>d. dev_id d = k) (dedup_by dev_id (parse_chromecasts avahi)) =
     (case find (\<lambda>(d, ipv4). dev_id d = k \<and> ipv4) (chromecast_entries avahi) of
        Some e \<Rightarrow> Some (fst e)
      | None \<Rightarrow> map_option fst (find (\<lambda>(d, ipv4). dev_id d = k) (chromecast_entries avahi)))"
proof -
  let ?es = "chromecast_entries avahi"
  have none: "find (\<lambda>e. dev_id (fst e) = k \<and> \<not> snd e) es = find (\<lambda>e. dev_id (fst e) = k) es"
    if "find (\<lambda>e. dev_id (fst e) = k \<and> snd e) es = None" for es :: "(output_device \<times> bool) list"
    using that by (induction es) (auto split: if_splits)
  show ?thesis
    unfolding dedup_by_def dedup_seen_first parse_chromecasts_eq find_append find_map_fst_filter
    using none[of ?es] by (auto simp: case_prod_unfold split: option.splits)
qed

text \<open>
  Sinks are classified.  No sink is offered both as a sound card and as an AirPlay
  device, and neither the program's own sinks nor monitors are offered as sound cards.
\<close>

theorem sinks_classified:
  "dev_id ` set (parse_soundcard_sinks p) \<inter> dev_id ` set (parse_raop_sinks p) = {}
   \<and> dev_id ` set (parse_soundcard_sinks p) \<inter>
       {n. starts_with n ''soundsync'' \<or> contains n ''effect_'' \<or> ends_with n ''.monitor''} = {}
   \<and> dev_kind ` set (parse_soundcard_sinks p) \<subseteq> {Soundcard}
   \<and> dev_kind ` set (parse_raop_sinks p) \<subseteq> {Airplay}"
  by (auto simp: parse_soundcard_sinks_def parse_raop_sinks_def set_map_filter
      dest!: soundcard_device_Some raop_device_Some)

text \<open>
  Friendly AirPlay names.  The sink name of an AirPlay receiver is taken apart at
  the last \<open>.local\<close>, so a friendly name that contains \<open>.local\<close> itself survives.
\<close>

theorem raop_friendly_name_roundtrip:
  assumes "\<not> contains (tl (''.local'' @ rest)) ''.local''"
  shows "raop_friendly_name (''raop_sink.'' @ friendly @ ''.local'' @ rest) = friendly"
  using rfind_sub_append[OF assms, of friendly] by (simp add: raop_friendly_name_def)

theorem raop_friendly_name_roundtrip_witness:
  "raop_friendly_name (''raop_sink.'' @ ''my.local.tv'' @ ''.local'' @ ''.10.0.0.1.7000'')
     = ''my.local.tv''"
proof (rule raop_friendly_name_roundtrip)
  show "\<not> contains (tl (''.local'' @ ''.10.0.0.1.7000'')) ''.local''"
    by (simp add: contains_def)
qed

end
