(* ===== verification/Machine.thy ===== *)
theory Machine
  imports Prelude
begin

text \<open>
  The interface every event-driven task of the program shares: a state, one step per
  event and an invariant that each step keeps.  A task is the left fold of its step
  over the events it receives, in the order the scheduler delivers them.  The locales
  prove once that invariants hold along every run; each component interprets them on
  its own step function.
\<close>

definition run :: "('s \<Rightarrow> 'e \<Rightarrow> 's) \<Rightarrow> 's \<Rightarrow> 'e list \<Rightarrow> 's" where
  "run step s es = foldl step s es"

lemma run_Nil [simp]: "run step s [] = s"
  by (simp add: run_def)

lemma run_Cons [simp]: "run step s (e # es) = run step (step s e) es"
  by (simp add: run_def)

lemma run_append [simp]: "run step s (es @ fs) = run step (run step s es) fs"
  by (simp add: run_def)

inductive reachable :: "('s \<Rightarrow> 'e \<Rightarrow> 's) \<Rightarrow> 's \<Rightarrow> 's \<Rightarrow> bool" for step s0 where
  reach_init: "reachable step s0 s0"
| reach_step: "reachable step s0 s \<Longrightarrow> reachable step s0 (step s e)"

lemma reachable_run: "reachable step s0 (run step s0 es)"
proof (induction es rule: rev_induct)
  case Nil
  show ?case by (simp add: reach_init)
next
  case (snoc e es)
  then show ?case by (simp add: reach_step)
qed

lemma reachable_iff_run: "reachable step s0 s \<longleftrightarrow> (\<exists>es. s = run step s0 es)"
proof
  assume "reachable step s0 s"
  then show "\<exists>es. s = run step s0 es"
  proof (induction rule: reachable.induct)
    case reach_init
    show ?case by (rule exI[of _ "[]"]) simp
  next
    case (reach_step s e)
    then obtain es where "s = run step s0 es" by blast
    then have "step s e = run step s0 (es @ [e])" by simp
    then show ?case by blast
  qed
qed (auto intro: reachable_run)

locale machine =
  fixes step :: "'s \<Rightarrow> 'e \<Rightarrow> 's"
    and inv :: "'s \<Rightarrow> bool"
  assumes step_inv: "inv s \<Longrightarrow> inv (step s e)"
begin

lemma run_inv: "inv s \<Longrightarrow> inv (run step s es)"
  by (induction es arbitrary: s) (auto intro: step_inv)

lemma reachable_inv: "inv s0 \<Longrightarrow> reachable step s0 s \<Longrightarrow> inv s"
  by (auto simp: reachable_iff_run intro: run_inv)

end

text \<open>
  A task that can return: from then on it handles no event, so its state stays as it is.
\<close>

locale halting_machine = machine +
  fixes halted :: "'s \<Rightarrow> bool"
  assumes halted_step: "halted s \<Longrightarrow> step s e = s"
begin

lemma halted_run: "halted s \<Longrightarrow> run step s es = s"
  by (induction es) (auto simp: halted_step)

end

text \<open>
  A measured quantity that every step changes by a known amount: the quantity after a
  run is the sum of the amounts.
\<close>

locale counted_machine =
  fixes step :: "'s \<Rightarrow> 'e \<Rightarrow> 's"
    and count :: "'s \<Rightarrow> 'n::comm_monoid_add"
    and amount :: "'e \<Rightarrow> 'n"
  assumes step_count: "count (step s e) = count s + amount e"
begin

lemma run_count: "count (run step s es) = count s + sum_list (map amount es)"
  by (induction es arbitrary: s) (auto simp: step_count ac_simps)

end

text \<open>
  A protocol on a log: an automaton that reads the entries in order and rejects (\<open>None\<close>)
  an entry that is out of order.
\<close>

fun track :: "('c \<Rightarrow> 'e \<Rightarrow> 'c option) \<Rightarrow> 'c \<Rightarrow> 'e list \<Rightarrow> 'c option" where
  "track f c [] = Some c"
| "track f c (e # es) = (case f c e of None \<Rightarrow> None | Some c' \<Rightarrow> track f c' es)"

lemma track_append:
  "track f c (es @ fs) = (case track f c es of None \<Rightarrow> None | Some c' \<Rightarrow> track f c' fs)"
  by (induction es arbitrary: c) (auto split: option.splits)

lemma track_snoc [simp]: "track f c es = Some c' \<Longrightarrow> track f c (es @ [e]) = f c' e"
  by (simp add: track_append split: option.splits)

lemma track_prefix: "track f c (es @ fs) \<noteq> None \<Longrightarrow> track f c es \<noteq> None"
  by (auto simp: track_append split: option.splits)

end
