(* ===== verification/State.thy ===== *)
theory State
  imports Equalizer Discovery Machine
begin

text \<open>
  The shared runtime state and the internal event bus (src/src/state.rs).

  A handle is the state behind the lock together with everything published on the bus, in
  order.  A setter takes the lock, stores the value, releases the lock and then publishes:
  two atomic steps, between which other tasks may run.
\<close>

section \<open>What the UI is shown\<close>

definition VERSION :: string where "VERSION = ''0.0.3''"

record media_info =
  media_status :: string
  title :: "string option"
  artist :: "string option"
  album :: "string option"
  duration_ms :: "nat option"
  position_ms :: "nat option"
  artwork_url :: "string option"

record device_info =
  di_addr :: string
  di_name :: "string option"
  di_state :: string
  di_icon :: "string option"

record eq_band_info =
  ebi_freq :: flt
  ebi_gain_db :: flt
  ebi_q :: flt
  ebi_filter_type :: string

record eq_info =
  eqi_enabled :: bool
  eqi_bands :: "eq_band_info list"

datatype cast_health = CastConnecting | CastLost

record output_state =
  os_active :: "output_device option"
  os_available :: available_outputs
  os_cast_health :: "cast_health option"

fun filter_type_str :: "filter_type \<Rightarrow> string" where
  "filter_type_str LowShelf = ''low_shelf''"
| "filter_type_str Peaking = ''peaking''"
| "filter_type_str HighShelf = ''high_shelf''"

definition eq_info_of :: "bool \<Rightarrow> eq_band list \<Rightarrow> eq_info" where
  "eq_info_of enabled bands =
     \<lparr>eqi_enabled = enabled,
      eqi_bands = map (\<lambda>b. \<lparr>ebi_freq = freq b, ebi_gain_db = gain_db b, ebi_q = q_factor b,
                            ebi_filter_type = filter_type_str (filter_type b)\<rparr>) bands\<rparr>"

definition default_eq_info :: eq_info where
  "default_eq_info = eq_info_of False default_bands"

section \<open>State, snapshot and events\<close>

record app_state =
  st_bluetooth_devices :: "device_info list"
  st_media :: "media_info option"
  st_eq :: eq_info
  st_device_name :: string
  st_output :: output_state

definition default_output_state :: output_state where
  "default_output_state =
     \<lparr>os_active = None, os_available = no_outputs, os_cast_health = None\<rparr>"

definition default_app_state :: app_state where
  "default_app_state =
     \<lparr>st_bluetooth_devices = [], st_media = None, st_eq = default_eq_info,
      st_device_name = ''SoundSync'', st_output = default_output_state\<rparr>"

record app_state_snapshot =
  sn_version :: string
  sn_bluetooth_devices :: "device_info list"
  sn_media :: "media_info option"
  sn_eq :: eq_info
  sn_device_name :: string
  sn_output :: output_state

type_synonym uuid = "128 word"

datatype system_event =
    SpectrumData "flt list"
  | WebrtcAnswer uuid string
  | WebrtcIceCandidate uuid string "string option" "nat option"
  | BluetoothDevices "device_info list"
  | MediaState "media_info option"
  | EqChanged eq_info
  | DeviceNameChanged string
  | OutputStateEv output_state

section \<open>The handle\<close>

record app_handle =
  app :: app_state
  bus :: "system_event list"

definition new_handle :: app_handle where
  "new_handle = \<lparr>app = default_app_state, bus = []\<rparr>"

definition publish :: "system_event \<Rightarrow> app_handle \<Rightarrow> app_handle" where
  "publish e h = h\<lparr>bus := bus h @ [e]\<rparr>"

definition snapshot_of :: "app_state \<Rightarrow> app_state_snapshot" where
  "snapshot_of s =
     \<lparr>sn_version = VERSION, sn_bluetooth_devices = st_bluetooth_devices s, sn_media = st_media s,
      sn_eq = st_eq s, sn_device_name = st_device_name s, sn_output = st_output s\<rparr>"

definition snapshot :: "app_handle \<Rightarrow> app_state_snapshot" where
  "snapshot h = snapshot_of (app h)"

definition set_device_name :: "string \<Rightarrow> app_handle \<Rightarrow> app_handle" where
  "set_device_name name h =
     publish (DeviceNameChanged name) (h\<lparr>app := (app h)\<lparr>st_device_name := name\<rparr>\<rparr>)"

definition set_media :: "media_info option \<Rightarrow> app_handle \<Rightarrow> app_handle" where
  "set_media m h = publish (MediaState m) (h\<lparr>app := (app h)\<lparr>st_media := m\<rparr>\<rparr>)"

definition set_bluetooth_devices :: "device_info list \<Rightarrow> app_handle \<Rightarrow> app_handle" where
  "set_bluetooth_devices ds h =
     publish (BluetoothDevices ds) (h\<lparr>app := (app h)\<lparr>st_bluetooth_devices := ds\<rparr>\<rparr>)"

definition set_eq :: "eq_info \<Rightarrow> app_handle \<Rightarrow> app_handle" where
  "set_eq e h = publish (EqChanged e) (h\<lparr>app := (app h)\<lparr>st_eq := e\<rparr>\<rparr>)"

definition set_output :: "output_state \<Rightarrow> app_handle \<Rightarrow> app_handle" where
  "set_output out h = publish (OutputStateEv out) (h\<lparr>app := (app h)\<lparr>st_output := out\<rparr>\<rparr>)"

section \<open>The two steps of the setters, and a client of the bus\<close>

datatype update =
    UDevices "device_info list" | UMedia "media_info option" | UEq eq_info
  | UName string | UOutput output_state

fun store :: "update \<Rightarrow> app_state \<Rightarrow> app_state" where
  "store (UDevices ds) s = s\<lparr>st_bluetooth_devices := ds\<rparr>"
| "store (UMedia m) s = s\<lparr>st_media := m\<rparr>"
| "store (UEq e) s = s\<lparr>st_eq := e\<rparr>"
| "store (UName n) s = s\<lparr>st_device_name := n\<rparr>"
| "store (UOutput u) s = s\<lparr>st_output := u\<rparr>"

fun event_of :: "update \<Rightarrow> system_event" where
  "event_of (UDevices ds) = BluetoothDevices ds"
| "event_of (UMedia m) = MediaState m"
| "event_of (UEq e) = EqChanged e"
| "event_of (UName n) = DeviceNameChanged n"
| "event_of (UOutput u) = OutputStateEv u"

datatype phase = Store update | Publish update

fun phase_step :: "app_handle \<Rightarrow> phase \<Rightarrow> app_handle" where
  "phase_step h (Store u) = h\<lparr>app := store u (app h)\<rparr>"
| "phase_step h (Publish u) = publish (event_of u) h"

text \<open>
  What a client that holds a snapshot makes of an event: it replaces the field the event
  carries and leaves the others alone.
\<close>

fun observe :: "app_state_snapshot \<Rightarrow> system_event \<Rightarrow> app_state_snapshot" where
  "observe s (BluetoothDevices ds) = s\<lparr>sn_bluetooth_devices := ds\<rparr>"
| "observe s (MediaState m) = s\<lparr>sn_media := m\<rparr>"
| "observe s (EqChanged e) = s\<lparr>sn_eq := e\<rparr>"
| "observe s (DeviceNameChanged n) = s\<lparr>sn_device_name := n\<rparr>"
| "observe s (OutputStateEv u) = s\<lparr>sn_output := u\<rparr>"
| "observe s _ = s"

section \<open>Published fields\<close>

text \<open>
  The contract of a setter: it stores the value, publishes one event for it, and the event
  tells a client exactly what changed.
\<close>

locale published_field =
  fixes put :: "'v \<Rightarrow> app_handle \<Rightarrow> app_handle"
    and get :: "app_state \<Rightarrow> 'v"
    and ev :: "'v \<Rightarrow> system_event"
  assumes get_put: "get (app (put v h)) = v"
    and bus_put: "bus (put v h) = bus h @ [ev v]"
    and ev_inject: "ev v = ev v' \<Longrightarrow> v = v'"
    and observe_ev: "observe (snapshot h) (ev v) = snapshot (put v h)"
begin

lemma last_event_is_current: "last (bus (put v h)) = ev (get (app (put v h)))"
  by (simp add: bus_put get_put)

text \<open>After any series of updates a client that replayed their events has the state.\<close>

lemma replay_puts:
  "foldl observe (snapshot h) (drop (length (bus h)) (bus (foldl (\<lambda>h v. put v h) h vs)))
     = snapshot (foldl (\<lambda>h v. put v h) h vs)
   \<and> bus (foldl (\<lambda>h v. put v h) h vs) = bus h @ map ev vs"
  by (induction vs rule: rev_induct) (auto simp: bus_put observe_ev)

end

lemmas setter_defs = set_device_name_def set_media_def set_bluetooth_devices_def set_eq_def
  set_output_def publish_def snapshot_def snapshot_of_def

interpretation name_field: published_field set_device_name st_device_name DeviceNameChanged
  by unfold_locales (auto simp: setter_defs)

interpretation media_field: published_field set_media st_media MediaState
  by unfold_locales (auto simp: setter_defs)

interpretation devices_field: published_field set_bluetooth_devices st_bluetooth_devices
    BluetoothDevices
  by unfold_locales (auto simp: setter_defs)

interpretation eq_field: published_field set_eq st_eq EqChanged
  by unfold_locales (auto simp: setter_defs)

interpretation output_field: published_field set_output st_output OutputStateEv
  by unfold_locales (auto simp: setter_defs)

section \<open>Interleaved setters\<close>

datatype field = FDevices | FMedia | FEq | FName | FOutput

fun field_of :: "update \<Rightarrow> field" where
  "field_of (UDevices _) = FDevices"
| "field_of (UMedia _) = FMedia"
| "field_of (UEq _) = FEq"
| "field_of (UName _) = FName"
| "field_of (UOutput _) = FOutput"

fun current :: "field \<Rightarrow> app_state_snapshot \<Rightarrow> update" where
  "current FDevices s = UDevices (sn_bluetooth_devices s)"
| "current FMedia s = UMedia (sn_media s)"
| "current FEq s = UEq (sn_eq s)"
| "current FName s = UName (sn_device_name s)"
| "current FOutput s = UOutput (sn_output s)"

fun phase_field :: "phase \<Rightarrow> field" where
  "phase_field (Store u) = field_of u"
| "phase_field (Publish u) = field_of u"

text \<open>
  A field has a sequential writer in a schedule when each of its values is published before
  the next one is stored; the steps of other fields may come anywhere.
\<close>

definition sequential_writer :: "field \<Rightarrow> phase list \<Rightarrow> bool" where
  "sequential_writer f ps \<longleftrightarrow>
     (\<exists>us. filter (\<lambda>p. phase_field p = f) ps = concat (map (\<lambda>u. [Store u, Publish u]) us))"

fun stores :: "phase list \<Rightarrow> update list" where
  "stores [] = []"
| "stores (Store u # ps) = u # stores ps"
| "stores (Publish u # ps) = stores ps"

fun publishes :: "phase list \<Rightarrow> update list" where
  "publishes [] = []"
| "publishes (Store u # ps) = publishes ps"
| "publishes (Publish u # ps) = u # publishes ps"

definition latest :: "field \<Rightarrow> update \<Rightarrow> update list \<Rightarrow> update" where
  "latest f u us = foldl (\<lambda>v u. if field_of u = f then u else v) u us"

lemma latest_simps [simp]:
  "latest f v [] = v"
  "latest f v (u # us) = latest f (if field_of u = f then u else v) us"
  by (simp_all add: latest_def)

lemma latest_filter: "latest f v us = latest f v (filter (\<lambda>u. field_of u = f) us)"
  by (induction us arbitrary: v) auto

lemma current_store:
  "current f (snapshot_of (store u s)) = (if field_of u = f then u else current f (snapshot_of s))"
  by (cases u; cases f) (auto simp: snapshot_of_def)

lemma current_observe:
  "current f (observe s (event_of u)) = (if field_of u = f then u else current f s)"
  by (cases u; cases f) auto

lemma snapshot_eqI:
  "sn_version s = sn_version t \<Longrightarrow> (\<And>f. current f s = current f t) \<Longrightarrow>
     s = (t :: app_state_snapshot)"
proof -
  assume v: "sn_version s = sn_version t" and c: "\<And>f. current f s = current f t"
  from c[of FDevices] c[of FMedia] c[of FEq] c[of FName] c[of FOutput] v
  show ?thesis by simp
qed

lemma bus_schedule: "bus (run phase_step h ps) = bus h @ map event_of (publishes ps)"
proof (induction ps arbitrary: h)
  case (Cons p ps)
  then show ?case by (cases p) (auto simp: publish_def)
qed simp

lemma current_schedule:
  "current f (snapshot (run phase_step h ps)) = latest f (current f (snapshot h)) (stores ps)"
proof (induction ps arbitrary: h)
  case (Cons p ps)
  then show ?case
    by (cases p) (auto simp: snapshot_def publish_def current_store)
qed simp

lemma current_replay:
  "current f (foldl observe s (map event_of us)) = latest f (current f s) us"
  by (induction us arbitrary: s) (auto simp: current_observe)

lemma version_replay [simp]: "sn_version (foldl observe s (map event_of us)) = sn_version s"
proof (induction us arbitrary: s)
  case (Cons u us)
  then show ?case by (cases u) auto
qed simp

lemma stores_filter:
  "filter (\<lambda>u. field_of u = f) (stores ps) = stores (filter (\<lambda>p. phase_field p = f) ps)"
  by (induction ps rule: stores.induct) auto

lemma publishes_filter:
  "filter (\<lambda>u. field_of u = f) (publishes ps) = publishes (filter (\<lambda>p. phase_field p = f) ps)"
  by (induction ps rule: publishes.induct) auto

lemma stores_pairs: "stores (concat (map (\<lambda>u. [Store u, Publish u]) us)) = us"
  by (induction us) auto

lemma publishes_pairs: "publishes (concat (map (\<lambda>u. [Store u, Publish u]) us)) = us"
  by (induction us) auto

lemma sequential_writer_latest:
  assumes "sequential_writer f ps"
  shows "latest f v (stores ps) = latest f v (publishes ps)"
proof -
  obtain us where us: "filter (\<lambda>p. phase_field p = f) ps
      = concat (map (\<lambda>u. [Store u, Publish u]) us)"
    using assms by (auto simp: sequential_writer_def)
  show ?thesis
    by (subst (1 2) latest_filter)
      (simp add: stores_filter publishes_filter us stores_pairs publishes_pairs)
qed

lemma setters_are_phases:
  "set_device_name n h = run phase_step h [Store (UName n), Publish (UName n)]"
  "set_media m h = run phase_step h [Store (UMedia m), Publish (UMedia m)]"
  "set_bluetooth_devices ds h = run phase_step h [Store (UDevices ds), Publish (UDevices ds)]"
  "set_eq e h = run phase_step h [Store (UEq e), Publish (UEq e)]"
  "set_output u h = run phase_step h [Store (UOutput u), Publish (UOutput u)]"
  by (simp_all add: setter_defs)

section \<open>Tasks on the shared handle\<close>

text \<open>
  What a published event did to the handle: the setters store the value they publish, the other
  events are only published.
\<close>

fun commit :: "system_event \<Rightarrow> app_handle \<Rightarrow> app_handle" where
  "commit (BluetoothDevices ds) h = set_bluetooth_devices ds h"
| "commit (MediaState m) h = set_media m h"
| "commit (EqChanged e) h = set_eq e h"
| "commit (DeviceNameChanged n) h = set_device_name n h"
| "commit (OutputStateEv u) h = set_output u h"
| "commit (SpectrumData bands) h = publish (SpectrumData bands) h"
| "commit (WebrtcAnswer u sdp) h = publish (WebrtcAnswer u sdp) h"
| "commit (WebrtcIceCandidate u c mid idx) h = publish (WebrtcIceCandidate u c mid idx) h"

definition written :: "app_handle \<Rightarrow> app_handle \<Rightarrow> system_event list" where
  "written h h' = drop (length (bus h)) (bus h')"

datatype writer = SpectrumTask | SignallingTask | BluetoothTask | MediaTask | EqTask | OutputTask

fun writer_of :: "system_event \<Rightarrow> writer" where
  "writer_of (BluetoothDevices _) = BluetoothTask"
| "writer_of (DeviceNameChanged _) = BluetoothTask"
| "writer_of (MediaState _) = MediaTask"
| "writer_of (EqChanged _) = EqTask"
| "writer_of (OutputStateEv _) = OutputTask"
| "writer_of (SpectrumData _) = SpectrumTask"
| "writer_of (WebrtcAnswer _ _) = SignallingTask"
| "writer_of (WebrtcIceCandidate _ _ _ _) = SignallingTask"

lemma bus_commit [simp]: "bus (commit e h) = bus h @ [e]"
  by (cases e) (simp_all add: setter_defs)

lemma bus_commits [simp]: "bus (fold commit evs h) = bus h @ evs"
  by (induction evs arbitrary: h) simp_all

lemma written_simps [simp]:
  "written h h = []" "written h (fold commit evs h) = evs" "written h (commit e h) = [e]"
  by (simp_all add: written_def)

lemma observe_commit: "observe (snapshot h) e = snapshot (commit e h)"
  by (cases e) (simp_all add: setter_defs)

text \<open>A client that replays the events of commits has the snapshot.\<close>

lemma replay_commits: "foldl observe (snapshot h) evs = snapshot (fold commit evs h)"
  by (induction evs arbitrary: h) (simp_all add: observe_commit)

text \<open>
  The contract of a task that works on the shared handle: of the shared state it sees one part,
  which nobody else writes, so that it does on the shared handle what it does on one of its own.
\<close>

locale handle_user =
  fixes step :: "'s \<Rightarrow> 'e \<Rightarrow> 's"
    and hget :: "'s \<Rightarrow> app_handle"
    and hput :: "app_handle \<Rightarrow> 's \<Rightarrow> 's"
    and sees :: "app_state \<Rightarrow> 'v"
    and me :: writer
  assumes get_put: "hget (hput h s) = h"
    and put_put: "hput h (hput h' s) = hput h s"
    and put_get: "hput (hget s) s = s"
    and step_frame: "\<exists>evs. (\<forall>h. sees (app h) = sees (app (hget s)) \<longrightarrow>
        step (hput h s) e = hput (fold commit evs h) (step s e)) \<and> (\<forall>ev \<in> set evs. writer_of ev = me)"
    and own_commit: "writer_of ev = me \<Longrightarrow> sees (app h) = sees (app h') \<Longrightarrow>
      sees (app (commit ev h)) = sees (app (commit ev h'))"
    and foreign_commit: "writer_of ev \<noteq> me \<Longrightarrow> sees (app (commit ev h)) = sees (app h)"
begin

definition agree :: "app_handle \<Rightarrow> 's \<Rightarrow> bool" where
  "agree h s \<longleftrightarrow> sees (app h) = sees (app (hget s))
     \<and> filter (\<lambda>ev. writer_of ev = me) (bus h) = bus (hget s)"

lemma own_commits:
  "(\<And>ev. ev \<in> set evs \<Longrightarrow> writer_of ev = me) \<Longrightarrow> sees (app h) = sees (app h') \<Longrightarrow>
   sees (app (fold commit evs h)) = sees (app (fold commit evs h'))"
proof (induction evs arbitrary: h h')
  case (Cons ev evs)
  have "sees (app (commit ev h)) = sees (app (commit ev h'))"
    by (rule own_commit) (use Cons.prems in auto)
  from Cons.IH[OF _ this] Cons.prems(1) show ?case by simp
qed simp

lemma foreign_commits:
  assumes "\<forall>ev \<in> set evs. writer_of ev \<noteq> me"
  shows "agree (fold commit evs h) s = agree h s"
proof -
  have "sees (app (fold commit evs h)) = sees (app h)" using assms
  proof (induction evs arbitrary: h)
    case (Cons ev evs)
    then show ?case using foreign_commit[of ev h] by simp
  qed simp
  moreover have "filter (\<lambda>ev. writer_of ev = me) evs = []" using assms by (simp add: filter_empty_conv)
  ultimately show ?thesis by (simp add: agree_def)
qed

lemma step_writes:
  "(sees (app h) = sees (app (hget s)) \<longrightarrow>
      step (hput h s) e = hput (fold commit (written (hget s) (hget (step s e))) h) (step s e))
   \<and> (\<forall>ev \<in> set (written (hget s) (hget (step s e))). writer_of ev = me)
   \<and> hget (step s e) = fold commit (written (hget s) (hget (step s e))) (hget s)"
proof -
  obtain evs where f: "\<And>h. sees (app h) = sees (app (hget s)) \<Longrightarrow>
      step (hput h s) e = hput (fold commit evs h) (step s e)"
    and w: "\<forall>ev \<in> set evs. writer_of ev = me" using step_frame by blast
  have "step s e = hput (fold commit evs (hget s)) (step s e)" using f[of "hget s"] by (simp add: put_get)
  then have "hget (step s e) = fold commit evs (hget s)" by (metis get_put)
  then show ?thesis using f w by simp
qed

lemma step_on_shared:
  assumes "agree h s"
  shows "step (hput h s) e = hput (hget (step (hput h s) e)) (step s e)
    \<and> agree (hget (step (hput h s) e)) (step s e)
    \<and> hget (step (hput h s) e) = fold commit (written (hget s) (hget (step s e))) h"
proof -
  let ?evs = "written (hget s) (hget (step s e))"
  have f: "step (hput h s) e = hput (fold commit ?evs h) (step s e)"
    using assms step_writes by (simp add: agree_def)
  have w: "\<forall>ev \<in> set ?evs. writer_of ev = me" "hget (step s e) = fold commit ?evs (hget s)"
    using step_writes[of h s e] by blast+
  have "sees (app (fold commit ?evs h)) = sees (app (fold commit ?evs (hget s)))"
    using assms w by (intro own_commits) (auto simp: agree_def)
  moreover have "bus (hget (step s e)) = bus (hget s) @ ?evs" by (subst w(2)) (rule bus_commits)
  moreover have "filter (\<lambda>ev. writer_of ev = me) ?evs = ?evs" using w(1) by (simp add: filter_id_conv)
  ultimately have "agree (fold commit ?evs h) (step s e)" using assms w(2) by (simp add: agree_def)
  then show ?thesis using f by (simp add: get_put)
qed

lemma turn:
  assumes "agree h s"
  obtains evs where "step (hput h s) e = hput (fold commit evs h) (step s e)"
    and "hget (step (hput h s) e) = fold commit evs h" and "agree (fold commit evs h) (step s e)"
    and "\<forall>ev \<in> set evs. writer_of ev = me"
proof (rule that[of "written (hget s) (hget (step s e))"])
  note w = step_writes[of h s e] step_on_shared[OF assms, of e]
  show "step (hput h s) e = hput (fold commit (written (hget s) (hget (step s e))) h) (step s e)"
    "hget (step (hput h s) e) = fold commit (written (hget s) (hget (step s e))) h"
    "agree (fold commit (written (hget s) (hget (step s e))) h) (step s e)"
    using w by metis+
  show "\<forall>ev \<in> set (written (hget s) (hget (step s e))). writer_of ev = me" using w by blast
qed

text \<open>A run among the writes of others, against the run on a handle of its own.\<close>

fun shared_step :: "'s \<Rightarrow> 'e + system_event \<Rightarrow> 's" where
  "shared_step s (Inl e) = step s e"
| "shared_step s (Inr ev) = hput (commit ev (hget s)) s"

fun own_events :: "('e + system_event) list \<Rightarrow> 'e list" where
  "own_events [] = []"
| "own_events (Inl e # es) = e # own_events es"
| "own_events (Inr ev # es) = own_events es"

lemma shared_run:
  assumes "\<And>ev. Inr ev \<in> set es \<Longrightarrow> writer_of ev \<noteq> me" and "agree h s"
  shows "run shared_step (hput h s) es
      = hput (hget (run shared_step (hput h s) es)) (run step s (own_events es))
    \<and> agree (hget (run shared_step (hput h s) es)) (run step s (own_events es))"
  using assms
proof (induction es arbitrary: h s)
  case (Cons x es)
  show ?case
  proof (cases x)
    case (Inl e)
    let ?h = "hget (step (hput h s) e)"
    have s: "step (hput h s) e = hput ?h (step s e)" "agree ?h (step s e)"
      using step_on_shared[OF Cons.prems(2), of e] by blast+
    have "run shared_step (hput ?h (step s e)) es
          = hput (hget (run shared_step (hput ?h (step s e)) es)) (run step (step s e) (own_events es))
        \<and> agree (hget (run shared_step (hput ?h (step s e)) es)) (run step (step s e) (own_events es))"
      by (rule Cons.IH) (use Cons.prems(1) s(2) in auto)
    then show ?thesis using Inl by (simp add: s(1)[symmetric])
  next
    case (Inr ev)
    then have "writer_of ev \<noteq> me" using Cons.prems(1) by simp
    then have "agree (commit ev h) s" using Cons.prems(2) foreign_commits[of "[ev]" h s] by simp
    then show ?thesis using Cons.IH[of "commit ev h" s] Cons.prems(1) Inr
      by (simp add: get_put put_put)
  qed
qed (simp add: get_put)

end

section \<open>Properties\<close>

text \<open>
  C14 (the event bus is a change log).  Let tasks interleave the two steps of their setters
  in any way in which each field has a sequential writer.  A client that held a snapshot and
  replays the events published since then has exactly the current snapshot.
\<close>

theorem bus_is_changelog:
  assumes "\<And>f. sequential_writer f ps"
  shows "foldl observe (snapshot h) (drop (length (bus h)) (bus (run phase_step h ps)))
    = snapshot (run phase_step h ps)"
proof (rule snapshot_eqI)
  fix f
  show "current f (foldl observe (snapshot h) (drop (length (bus h)) (bus (run phase_step h ps))))
      = current f (snapshot (run phase_step h ps))"
    by (simp add: bus_schedule current_replay current_schedule
        sequential_writer_latest[OF assms])
qed (simp add: bus_schedule snapshot_def snapshot_of_def)

definition demo_schedule :: "phase list" where
  "demo_schedule = [Store (UName ''a''), Store (UEq default_eq_info), Publish (UName ''a''),
     Store (UName ''b''), Publish (UEq default_eq_info), Publish (UName ''b'')]"

lemma demo_schedule_sequential: "sequential_writer f demo_schedule"
proof (cases f)
  case FName
  then show ?thesis unfolding sequential_writer_def
    by (intro exI[of _ "[UName ''a'', UName ''b'']"]) (simp add: demo_schedule_def)
next
  case FEq
  then show ?thesis unfolding sequential_writer_def
    by (intro exI[of _ "[UEq default_eq_info]"]) (simp add: demo_schedule_def)
qed (auto simp: sequential_writer_def demo_schedule_def intro!: exI[of _ "[]"])

theorem bus_is_changelog_witness:
  "foldl observe (snapshot new_handle) (drop (length (bus new_handle))
      (bus (run phase_step new_handle demo_schedule)))
    = snapshot (run phase_step new_handle demo_schedule)"
  by (rule bus_is_changelog) (rule demo_schedule_sequential)

text \<open>
  Without a sequential writer the guarantee is gone: the lock is released before the event is
  published, so two tasks that set the same field can publish in the opposite order.
\<close>

theorem two_writers_can_diverge:
  "\<exists>a b. let h = run phase_step new_handle
        [Store (UMedia a), Store (UMedia b), Publish (UMedia b), Publish (UMedia a)]
     in st_media (app h) = b \<and> last (bus h) = MediaState a \<and> a \<noteq> b"
  by (rule exI[of _ None], rule exI[of _ "Some \<lparr>media_status = ''playing'', title = None,
      artist = None, album = None, duration_ms = None, position_ms = None,
      artwork_url = None\<rparr>"]) (simp add: publish_def)

end
