(* ===== verification/CastProto.thy ===== *)
theory CastProto
  imports Values
begin

text \<open>
  The framing of the Chromecast protocol (src/src/cast/proto.rs): a four-byte big-endian
  length followed by the serialised message.  Serialising a message is the business of the
  protobuf library: \<open>enc\<close> and \<open>dec\<close> are arguments.
\<close>

definition CASTV2_1_0 :: int where "CASTV2_1_0 = 0"
definition PAYLOAD_STRING :: int where "PAYLOAD_STRING = 0"
definition PAYLOAD_BINARY :: int where "PAYLOAD_BINARY = 1"

record cast_message =
  protocol_version :: "int option"
  source_id :: string
  destination_id :: string
  namespace :: string
  payload_type :: "int option"
  payload_utf8 :: "string option"
  payload_binary :: "bytes option"

text \<open>\<open>u32::to_be_bytes\<close> of a length truncated to 32 bits, and back.\<close>

definition be_bytes :: "nat \<Rightarrow> bytes" where
  "be_bytes n = [of_nat (n div 2 ^ 24), of_nat (n div 2 ^ 16), of_nat (n div 2 ^ 8), of_nat n]"

definition from_be_bytes :: "8 word \<Rightarrow> 8 word \<Rightarrow> 8 word \<Rightarrow> 8 word \<Rightarrow> nat" where
  "from_be_bytes a b c d = unat a * 2 ^ 24 + unat b * 2 ^ 16 + unat c * 2 ^ 8 + unat d"

definition encode_frame :: "('m \<Rightarrow> bytes) \<Rightarrow> 'm \<Rightarrow> bytes" where
  "encode_frame enc msg = be_bytes (length (enc msg)) @ enc msg"

definition decode_frame :: "(bytes \<Rightarrow> 'm option) \<Rightarrow> bytes \<Rightarrow> ('m \<times> nat) option" where
  "decode_frame dec buf =
     (if length buf < 4 then None
      else let msg_len = from_be_bytes (buf ! 0) (buf ! 1) (buf ! 2) (buf ! 3);
               total = 4 + msg_len
        in if length buf < total then None
           else case dec (take msg_len (drop 4 buf)) of
               None \<Rightarrow> None
             | Some msg \<Rightarrow> Some (msg, total))"

definition string_message :: "string \<Rightarrow> string \<Rightarrow> string \<Rightarrow> cast_message" where
  "string_message ns dest payload_json =
     \<lparr>protocol_version = Some CASTV2_1_0, source_id = ''sender-0'', destination_id = dest,
      namespace = ns, payload_type = Some PAYLOAD_STRING, payload_utf8 = Some payload_json,
      payload_binary = None\<rparr>"

section \<open>Draining a read buffer\<close>

text \<open>
  The loop of the session task that takes every complete frame off the buffer: the messages
  and what is left.
\<close>

function drain_frames :: "(bytes \<Rightarrow> 'm option) \<Rightarrow> bytes \<Rightarrow> 'm list \<times> bytes" where
  "drain_frames dec buf =
     (case decode_frame dec buf of
        None \<Rightarrow> ([], buf)
      | Some (msg, consumed) \<Rightarrow>
          (case drain_frames dec (drop consumed buf) of (ms, rest) \<Rightarrow> (msg # ms, rest)))"
  by pat_completeness auto

lemma decode_frame_consumed:
  "decode_frame dec buf = Some (m, k) \<Longrightarrow> 4 \<le> k \<and> k \<le> length buf"
  by (auto simp: decode_frame_def Let_def split: if_splits option.splits)

termination drain_frames
  by (relation "measure (length \<circ> snd)") (auto dest: decode_frame_consumed)

declare drain_frames.simps [simp del]

section \<open>Lemmas\<close>

lemma unat_of_nat8: "unat (of_nat n :: 8 word) = n mod 256"
  by (simp add: unat_of_nat)

lemma from_be_bytes_be:
  assumes "n < 2 ^ 32"
  shows "from_be_bytes (of_nat (n div 2 ^ 24)) (of_nat (n div 2 ^ 16)) (of_nat (n div 2 ^ 8))
    (of_nat n) = n"
proof -
  have a: "256 * (n div 256) + n mod 256 = n" by simp
  have b: "256 * (n div 65536) + n div 256 mod 256 = n div 256"
    using mult_div_mod_eq[of 256 "n div 256"] by (simp add: div_mult2_eq[symmetric])
  have c: "256 * (n div 16777216) + n div 65536 mod 256 = n div 65536"
    using mult_div_mod_eq[of 256 "n div 65536"] by (simp add: div_mult2_eq[symmetric])
  have d: "(n div 16777216) mod 256 = n div 16777216" using assms by simp
  have "from_be_bytes (of_nat (n div 2 ^ 24)) (of_nat (n div 2 ^ 16)) (of_nat (n div 2 ^ 8))
      (of_nat n) = n div 16777216 * 16777216 + (n div 65536 mod 256) * 65536
        + (n div 256 mod 256) * 256 + n mod 256"
    by (simp add: from_be_bytes_def unat_of_nat8 d)
  then show ?thesis using a b c by linarith
qed

lemma length_be_bytes [simp]: "length (be_bytes n) = 4"
  by (simp add: be_bytes_def)

lemma be_bytes_nth:
  "(be_bytes n @ p) ! 0 = of_nat (n div 2 ^ 24)" "(be_bytes n @ p) ! 1 = of_nat (n div 2 ^ 16)"
  "(be_bytes n @ p) ! 2 = of_nat (n div 2 ^ 8)" "(be_bytes n @ p) ! 3 = of_nat n"
  by (simp_all add: be_bytes_def)

lemma decode_encode:
  assumes "length (enc m) < 2 ^ 32"
  shows "decode_frame dec (encode_frame enc m @ rest) =
    map_option (\<lambda>m'. (m', length (encode_frame enc m))) (dec (enc m))"
  using from_be_bytes_be[OF assms]
  by (simp add: decode_frame_def encode_frame_def be_bytes_nth Let_def split: option.split
      del: One_nat_def)

lemma decode_frame_append:
  assumes "decode_frame dec buf = Some (m, k)"
  shows "decode_frame dec (buf @ ext) = Some (m, k)"
proof -
  have "4 \<le> length buf" using decode_frame_consumed[OF assms] by simp
  then have "(buf @ ext) ! i = buf ! i" if "i < 4" for i
    using that by (simp add: nth_append)
  then show ?thesis using assms
    by (auto simp: decode_frame_def Let_def split: if_splits option.splits)
qed

text \<open>Bytes that arrive later do not change what was drained before.\<close>

lemma drain_frames_append:
  "drain_frames dec (buf @ ext) =
     (case drain_frames dec buf of (ms, rest) \<Rightarrow>
      (case drain_frames dec (rest @ ext) of (ms', rest') \<Rightarrow> (ms @ ms', rest')))"
proof (induction dec buf rule: drain_frames.induct)
  case (1 dec buf)
  show ?case
  proof (cases "decode_frame dec buf")
    case None
    then show ?thesis by (simp add: drain_frames.simps[of dec buf])
  next
    case (Some mk)
    obtain m k where mk: "mk = (m, k)" by fastforce
    have k: "k \<le> length buf" using decode_frame_consumed Some mk by fastforce
    have "decode_frame dec (buf @ ext) = Some (m, k)"
      using decode_frame_append Some mk by fastforce
    then have "drain_frames dec (buf @ ext) =
        (case drain_frames dec (drop k buf @ ext) of (ms, rest) \<Rightarrow> (m # ms, rest))"
      using k by (simp add: drain_frames.simps[of dec "buf @ ext"])
    then show ?thesis using "1.IH"[OF Some mk[symmetric]] Some mk
      by (simp add: drain_frames.simps[of dec buf] split: prod.splits)
  qed
qed

lemma drain_encoded:
  assumes "\<And>m. m \<in> set ms \<Longrightarrow> length (enc m) < 2 ^ 32 \<and> dec (enc m) = Some m"
  shows "drain_frames dec (concat (map (encode_frame enc) ms) @ rest) =
    (case drain_frames dec rest of (ms', r) \<Rightarrow> (ms @ ms', r))"
  using assms
proof (induction ms)
  case (Cons m ms)
  have "decode_frame dec (encode_frame enc m @ concat (map (encode_frame enc) ms) @ rest)
      = Some (m, length (encode_frame enc m))"
    using Cons.prems[of m] by (simp add: decode_encode)
  then show ?case using Cons
    by (simp add: drain_frames.simps[of dec "encode_frame enc m @ _"] split: prod.splits)
qed (simp split: prod.splits)

text \<open>Reading a stream in pieces: each piece is appended to the buffer, which is drained.\<close>

fun read_pieces :: "(bytes \<Rightarrow> 'm option) \<Rightarrow> bytes \<Rightarrow> bytes list \<Rightarrow> 'm list \<times> bytes" where
  "read_pieces dec buf [] = ([], buf)"
| "read_pieces dec buf (p # ps) =
     (case drain_frames dec (buf @ p) of (ms, rest) \<Rightarrow>
      (case read_pieces dec rest ps of (ms', rest') \<Rightarrow> (ms @ ms', rest')))"

lemma drain_rest_stuck:
  "drain_frames dec buf = (ms, rest) \<Longrightarrow> decode_frame dec rest = None"
proof (induction dec buf arbitrary: ms rule: drain_frames.induct)
  case (1 dec buf)
  then show ?case
    by (cases "decode_frame dec buf") (auto simp: drain_frames.simps[of dec buf] split: prod.splits)
qed

lemma drain_stuck: "decode_frame dec buf = None \<Longrightarrow> drain_frames dec buf = ([], buf)"
  by (simp add: drain_frames.simps)

lemma read_pieces_eq:
  "decode_frame dec buf = None \<Longrightarrow> read_pieces dec buf ps = drain_frames dec (buf @ concat ps)"
proof (induction ps arbitrary: buf)
  case (Cons p ps)
  obtain ms rest where d: "drain_frames dec (buf @ p) = (ms, rest)" by fastforce
  then have "read_pieces dec rest ps = drain_frames dec (rest @ concat ps)"
    using Cons drain_rest_stuck by blast
  then show ?case using drain_frames_append[of dec "buf @ p" "concat ps"] d by simp
qed (simp add: drain_stuck)

section \<open>Properties\<close>

text \<open>
  C23 (frames survive the wire, however it cuts them).  A series of messages is encoded,
  concatenated and delivered in arbitrary pieces, ending possibly with the incomplete bytes of
  another frame: the reader recovers exactly the messages, in order, and keeps those bytes.
\<close>

theorem frames_roundtrip:
  assumes "\<And>m. m \<in> set ms \<Longrightarrow> length (enc m) < 2 ^ 32 \<and> dec (enc m) = Some m"
    and "concat pieces = concat (map (encode_frame enc) ms) @ rest"
    and "decode_frame dec rest = None"
  shows "read_pieces dec [] pieces = (ms, rest)"
proof -
  have "decode_frame dec [] = None" by (simp add: decode_frame_def)
  then show ?thesis
    using assms(2,3) by (simp add: read_pieces_eq drain_encoded[OF assms(1)] drain_stuck)
qed

theorem frames_roundtrip_witness:
  "read_pieces (\<lambda>b. Some b) [] [[0, 0], [0, 2, 7], [8, 0, 0, 0], [0, 0]] = ([[7, 8], []], [0])"
proof (rule frames_roundtrip[where enc = "\<lambda>b. b"])
  show "concat [[0, 0], [0, 2, 7], [8, 0, 0, 0], [0, 0]] =
      concat (map (encode_frame (\<lambda>b. b)) [[7, 8], []]) @ [0]"
    by (simp add: encode_frame_def be_bytes_def)
qed (auto simp: decode_frame_def)

text \<open>
  An incomplete frame waits.  No proper prefix of an encoded frame is taken for a frame.
\<close>

theorem incomplete_frame_waits:
  assumes "length (enc m) < 2 ^ 32" "n < length (encode_frame enc m)"
  shows "drain_frames dec (take n (encode_frame enc m)) = ([], take n (encode_frame enc m))"
proof (rule drain_stuck)
  show "decode_frame dec (take n (encode_frame enc m)) = None"
  proof (cases "n < 4")
    case False
    then have "take n (encode_frame enc m) ! i = encode_frame enc m ! i" if "i < 4" for i
      using that by simp
    then show ?thesis using assms False from_be_bytes_be[OF assms(1)]
      by (simp add: decode_frame_def encode_frame_def be_bytes_nth Let_def del: One_nat_def)
  qed (use assms(2) in \<open>simp add: decode_frame_def min_def\<close>)
qed

theorem incomplete_frame_waits_witness:
  "drain_frames (\<lambda>b. Some b) (take 5 (encode_frame (\<lambda>b. b) [7, 8])) =
     ([], take 5 (encode_frame (\<lambda>b. b) [7, 8 :: 8 word]))"
  by (rule incomplete_frame_waits) (simp_all add: encode_frame_def)

end
