(* ===== verification/CastSession.thy ===== *)
theory CastSession
  imports CastProto Machine
begin

text \<open>
  A Chromecast session: the JSON payloads (src/src/cast/messages.rs), the address helpers
  and the session task (src/src/cast/client.rs).  The task is a step function over the three
  branches of its select loop; connecting and the TLS layer are the environment's, whether
  each write succeeds is the argument \<open>wok\<close>, indexed by the number of frames written so far.
\<close>

section \<open>Payloads\<close>

definition DEFAULT_MEDIA_RECEIVER_APP_ID :: string where
  "DEFAULT_MEDIA_RECEIVER_APP_ID = ''CC1AD845''"
definition NS_CONNECTION :: string where
  "NS_CONNECTION = ''urn:x-cast:com.google.cast.tp.connection''"
definition NS_HEARTBEAT :: string where
  "NS_HEARTBEAT = ''urn:x-cast:com.google.cast.tp.heartbeat''"
definition NS_RECEIVER :: string where
  "NS_RECEIVER = ''urn:x-cast:com.google.cast.receiver''"
definition NS_MEDIA :: string where "NS_MEDIA = ''urn:x-cast:com.google.cast.media''"

definition type_payload :: "string \<Rightarrow> string" where
  "type_payload t = ''{'' @ quoted ''type'' @ '':'' @ quoted t @ ''}''"

definition connect_payload :: string where "connect_payload = type_payload ''CONNECT''"
definition close_payload :: string where "close_payload = type_payload ''CLOSE''"
definition ping_payload :: string where "ping_payload = type_payload ''PING''"
definition pong_payload :: string where "pong_payload = type_payload ''PONG''"

definition launch :: "json_printer \<Rightarrow> nat \<Rightarrow> string \<Rightarrow> string" where
  "launch to_str req_id app_id =
     to_str (JObj [(''type'', JStr ''LAUNCH''), (''appId'', JStr app_id),
                   (''requestId'', JInt (int req_id))])"

definition get_status :: "json_printer \<Rightarrow> nat \<Rightarrow> string" where
  "get_status to_str req_id =
     to_str (JObj [(''type'', JStr ''GET_STATUS''), (''requestId'', JInt (int req_id))])"

definition load_json_of :: "nat \<Rightarrow> string \<Rightarrow> string \<Rightarrow> json" where
  "load_json_of req_id url content_type =
     JObj [(''type'', JStr ''LOAD''), (''requestId'', JInt (int req_id)),
           (''media'', JObj [(''contentId'', JStr url), (''contentType'', JStr content_type),
                             (''streamType'', JStr ''LIVE'')]),
           (''autoplay'', JBool True)]"

definition load :: "json_printer \<Rightarrow> nat \<Rightarrow> string \<Rightarrow> string \<Rightarrow> string" where
  "load to_str req_id url content_type = to_str (load_json_of req_id url content_type)"

definition media_stop :: "json_printer \<Rightarrow> nat \<Rightarrow> nat \<Rightarrow> string" where
  "media_stop to_str req_id media_session_id =
     to_str (JObj [(''type'', JStr ''STOP''), (''requestId'', JInt (int req_id)),
                   (''mediaSessionId'', JInt (int media_session_id))])"

definition receiver_stop :: "json_printer \<Rightarrow> nat \<Rightarrow> string" where
  "receiver_stop to_str req_id =
     to_str (JObj [(''type'', JStr ''STOP''), (''requestId'', JInt (int req_id))])"

fun launched_in :: "string \<Rightarrow> json list \<Rightarrow> string option" where
  "launched_in app_id [] = None"
| "launched_in app_id (app # apps) =
     (if Option.bind (json_get app ''appId'') json_as_str = Some app_id
      then (case Option.bind (json_get app ''transportId'') json_as_str of
              Some tid \<Rightarrow> Some tid
            | None \<Rightarrow> launched_in app_id apps)
      else launched_in app_id apps)"

definition parse_launched_transport_id :: "json_parser \<Rightarrow> string \<Rightarrow> string \<Rightarrow> string option" where
  "parse_launched_transport_id from_str status_json app_id =
     Option.bind (from_str status_json) (\<lambda>v.
     Option.bind (json_get v ''status'') (\<lambda>st.
     Option.bind (json_get st ''applications'') (\<lambda>a.
     Option.bind (json_as_array a) (launched_in app_id))))"

definition message_type :: "json_parser \<Rightarrow> string \<Rightarrow> string option" where
  "message_type from_str payload_json =
     Option.bind (from_str payload_json) (\<lambda>v. Option.bind (json_get v ''type'') json_as_str)"

section \<open>The address of this server\<close>

definition is_ipv4 :: "string \<Rightarrow> bool" where
  "is_ipv4 token = (length (split_on CHR ''.'' token) = 4
     \<and> list_all (\<lambda>p. parse_u8 p \<noteq> None) (split_on CHR ''.'' token))"

definition is_rfc1918_172 :: "string \<Rightarrow> bool" where
  "is_rfc1918_172 addr =
     (let parts = split_on CHR ''.'' addr in
      if length parts < 2 then False
      else if parts ! 0 \<noteq> ''172'' then False
      else case parse_u8 (parts ! 1) of Some b \<Rightarrow> 16 \<le> b \<and> b \<le> 31 | None \<Rightarrow> False)"

definition usable_ipv4 :: "string \<Rightarrow> bool" where
  "usable_ipv4 t \<longleftrightarrow> is_ipv4 t \<and> \<not> (starts_with t ''127.'' \<or> starts_with t ''169.254.'')"

definition private_ipv4 :: "string \<Rightarrow> bool" where
  "private_ipv4 t \<longleftrightarrow> starts_with t ''192.168.'' \<or> starts_with t ''10.'' \<or> is_rfc1918_172 t"

text \<open>The loop over the tokens; the second argument is \<open>first_ipv4\<close>.\<close>

fun lan_ip_loop :: "string list \<Rightarrow> string option \<Rightarrow> string option" where
  "lan_ip_loop [] first_ipv4 = first_ipv4"
| "lan_ip_loop (t # ts) first_ipv4 =
     (if \<not> usable_ipv4 t then lan_ip_loop ts first_ipv4
      else let first' = (if first_ipv4 = None then Some t else first_ipv4)
        in if private_ipv4 t then Some t else lan_ip_loop ts first')"

definition server_lan_ip :: "string \<Rightarrow> string option" where
  "server_lan_ip hostname_i_output = lan_ip_loop (split_whitespace hostname_i_output) None"

definition stream_url :: "string \<Rightarrow> nat \<Rightarrow> string" where
  "stream_url lan_ip port =
     ''http://'' @ lan_ip @ '':'' @ show_nat port @ ''/api/stream/audio.aac''"

section \<open>The session task\<close>

definition CAST_INBOUND_DEADLINE :: duration where "CAST_INBOUND_DEADLINE = secs 15"

text \<open>\<open>duration_since\<close> is zero when the argument is later.\<close>

definition link_lost :: "duration \<Rightarrow> duration \<Rightarrow> duration \<Rightarrow> bool" where
  "link_lost last_inbound now_t deadline \<longleftrightarrow> deadline < now_t - last_inbound"

record session =
  read_buf :: bytes
  loaded :: bool
  req_id :: nat
  last_inbound :: duration
  sent :: "cast_message list"
  handled :: "cast_message list"
  ended :: bool

text \<open>\<open>sent\<close> is what went over the wire; \<open>handled\<close> records the messages processed.\<close>

definition send :: "(nat \<Rightarrow> bool) \<Rightarrow> cast_message \<Rightarrow> session \<Rightarrow> session" where
  "send wok m s =
     (if wok (length (sent s)) then s\<lparr>sent := sent s @ [m]\<rparr> else s\<lparr>ended := True\<rparr>)"

text \<open>Continue unless the session has returned.\<close>

definition then_do :: "session \<Rightarrow> (session \<Rightarrow> session) \<Rightarrow> session" where
  "then_do s f = (if ended s then s else f s)"

definition session_start :: "json_printer \<Rightarrow> (nat \<Rightarrow> bool) \<Rightarrow> duration \<Rightarrow> session" where
  "session_start to_str wok t0 =
     then_do (send wok (string_message NS_CONNECTION ''receiver-0'' connect_payload)
       \<lparr>read_buf = [], loaded = False, req_id = 2, last_inbound = t0, sent = [],
        handled = [], ended = False\<rparr>)
     (send wok (string_message NS_RECEIVER ''receiver-0''
       (launch to_str 1 DEFAULT_MEDIA_RECEIVER_APP_ID)))"

record cast_env =
  ce_dec :: "bytes \<Rightarrow> cast_message option"
  ce_from_str :: json_parser
  ce_to_str :: json_printer
  ce_wok :: "nat \<Rightarrow> bool"
  ce_media_url :: string

definition payload_of :: "cast_message \<Rightarrow> string" where
  "payload_of msg = (case payload_utf8 msg of Some p \<Rightarrow> p | None \<Rightarrow> [])"

definition load_stream :: "cast_env \<Rightarrow> string \<Rightarrow> session \<Rightarrow> session" where
  "load_stream E tid s =
     then_do (send (ce_wok E) (string_message NS_CONNECTION tid connect_payload) s) (\<lambda>s1.
       then_do (send (ce_wok E) (string_message NS_MEDIA tid
                  (load (ce_to_str E) (req_id s1) (ce_media_url E) ''audio/aac''))
                (s1\<lparr>req_id := req_id s1 + 1\<rparr>))
         (\<lambda>s2. s2\<lparr>loaded := True\<rparr>))"

definition handle_message :: "cast_env \<Rightarrow> cast_message \<Rightarrow> session \<Rightarrow> session" where
  "handle_message E msg s =
     (let mt = message_type (ce_from_str E) (payload_of msg) in
      if mt = Some ''PING''
      then send (ce_wok E) (string_message NS_HEARTBEAT (source_id msg) pong_payload) s
      else if mt = Some ''RECEIVER_STATUS'' \<and> \<not> loaded s
      then (case parse_launched_transport_id (ce_from_str E) (payload_of msg)
                   DEFAULT_MEDIA_RECEIVER_APP_ID of
              Some tid \<Rightarrow> load_stream E tid s
            | None \<Rightarrow> s)
      else s)"

text \<open>The inner loop: take one frame, handle it, go on unless the session returned.\<close>

function drain :: "cast_env \<Rightarrow> bytes \<Rightarrow> session \<Rightarrow> session" where
  "drain E buf s =
     (if ended s then s\<lparr>read_buf := buf\<rparr>
      else case decode_frame (ce_dec E) buf of
          None \<Rightarrow> s\<lparr>read_buf := buf\<rparr>
        | Some (msg, consumed) \<Rightarrow>
            drain E (drop consumed buf) (handle_message E msg (s\<lparr>handled := handled s @ [msg]\<rparr>)))"
  by pat_completeness auto

termination drain
  by (relation "measure (\<lambda>(E, buf, s). length buf)") (auto dest: decode_frame_consumed)

declare drain.simps [simp del]

datatype session_event =
    ShutdownSignal bool
  | Read "io_error + bytes" duration
  | Heartbeat duration

fun session_step :: "cast_env \<Rightarrow> session \<Rightarrow> session_event \<Rightarrow> session" where
  "session_step E s (ShutdownSignal stop) =
     (if ended s then s
      else if stop
      then (send (ce_wok E) (string_message NS_CONNECTION ''receiver-0'' close_payload) s)
             \<lparr>ended := True\<rparr>
      else s)"
| "session_step E s (Read r t) =
     (if ended s then s
      else case r of
          Inl e \<Rightarrow> s\<lparr>ended := True\<rparr>
        | Inr bs \<Rightarrow>
            if bs = [] then s\<lparr>ended := True\<rparr>
            else drain E (read_buf s @ bs) (s\<lparr>last_inbound := t\<rparr>))"
| "session_step E s (Heartbeat t) =
     (if ended s then s
      else then_do (send (ce_wok E) (string_message NS_HEARTBEAT ''receiver-0'' ping_payload) s)
        (\<lambda>s1. if link_lost (last_inbound s1) t CAST_INBOUND_DEADLINE
               then s1\<lparr>ended := True\<rparr> else s1))"

section \<open>Lemmas\<close>

lemma lan_ip_loop_eq:
  "lan_ip_loop ts first =
     (case find (\<lambda>t. usable_ipv4 t \<and> private_ipv4 t) ts of
        Some t \<Rightarrow> Some t
      | None \<Rightarrow> (case first of Some t \<Rightarrow> Some t | None \<Rightarrow> find usable_ipv4 ts))"
  by (induction ts arbitrary: first) (auto split: option.splits)

lemma namespaces_distinct [simp]:
  "NS_CONNECTION \<noteq> NS_MEDIA" "NS_HEARTBEAT \<noteq> NS_MEDIA" "NS_RECEIVER \<noteq> NS_MEDIA"
  "NS_CONNECTION \<noteq> NS_HEARTBEAT" "NS_MEDIA \<noteq> NS_HEARTBEAT" "NS_RECEIVER \<noteq> NS_HEARTBEAT"
  by (simp_all add: NS_CONNECTION_def NS_MEDIA_def NS_HEARTBEAT_def NS_RECEIVER_def)

lemma string_message_simps [simp]:
  "namespace (string_message n d p) = n" "destination_id (string_message n d p) = d"
  "payload_utf8 (string_message n d p) = Some p"
  by (simp_all add: string_message_def)

lemma send_simps [simp]:
  "loaded (send wok m s) = loaded s" "req_id (send wok m s) = req_id s"
  "handled (send wok m s) = handled s" "last_inbound (send wok m s) = last_inbound s"
  "read_buf (send wok m s) = read_buf s"
  by (simp_all add: send_def)

lemma send_sent: "sent (send wok m s) = (if wok (length (sent s)) then sent s @ [m] else sent s)"
  by (simp add: send_def)

lemma send_ended: "ended (send wok m s) = (ended s \<or> \<not> wok (length (sent s)))"
  by (simp add: send_def)

subsection \<open>One LOAD per session\<close>

definition media_free :: "cast_message list \<Rightarrow> bool" where
  "media_free ms \<longleftrightarrow> (\<forall>m \<in> set ms. namespace m \<noteq> NS_MEDIA)"

lemma media_free_simps [simp]:
  "media_free []" "media_free (m # ms) = (namespace m \<noteq> NS_MEDIA \<and> media_free ms)"
  "media_free (xs @ ys) = (media_free xs \<and> media_free ys)"
  by (auto simp: media_free_def)

definition load_message :: "cast_env \<Rightarrow> string \<Rightarrow> cast_message" where
  "load_message E tid =
     string_message NS_MEDIA tid (load (ce_to_str E) 2 (ce_media_url E) ''audio/aac'')"

definition load_once :: "cast_env \<Rightarrow> session \<Rightarrow> bool" where
  "load_once E s \<longleftrightarrow>
     (if loaded s
      then \<exists>pre tid rest. sent s = pre @ [string_message NS_CONNECTION tid connect_payload,
               load_message E tid] @ rest \<and> media_free pre \<and> media_free rest
      else media_free (sent s) \<and> (\<not> ended s \<longrightarrow> req_id s = 2))"

lemma load_once_update [simp]:
  "load_once E (s\<lparr>read_buf := b\<rparr>) = load_once E s"
  "load_once E (s\<lparr>last_inbound := t\<rparr>) = load_once E s"
  "load_once E (s\<lparr>handled := hs\<rparr>) = load_once E s"
  by (simp_all add: load_once_def)

lemma load_once_ended: "load_once E s \<Longrightarrow> load_once E (s\<lparr>ended := True\<rparr>)"
  by (auto simp: load_once_def)

lemma load_once_send:
  assumes "load_once E s" "namespace m \<noteq> NS_MEDIA"
  shows "load_once E (send wok m s)"
proof (cases "wok (length (sent s))")
  case False
  then show ?thesis using load_once_ended[OF assms(1)] by (simp add: send_def)
next
  case True
  show ?thesis
  proof (cases "loaded s")
    case ld: True
    then obtain pre tid rest where "sent s = pre @ [string_message NS_CONNECTION tid connect_payload,
        load_message E tid] @ rest" "media_free pre" "media_free rest"
      using assms(1) by (auto simp: load_once_def)
    then have "sent (send wok m s) = pre @ [string_message NS_CONNECTION tid connect_payload,
        load_message E tid] @ (rest @ [m]) \<and> media_free pre \<and> media_free (rest @ [m])"
      using True assms(2) by (simp add: send_sent)
    then show ?thesis using ld unfolding load_once_def by (metis send_simps(1))
  next
    case nl: False
    then show ?thesis using assms True by (simp add: load_once_def send_sent send_ended)
  qed
qed

lemma load_once_load_stream:
  assumes "load_once E s" "\<not> loaded s" "\<not> ended s"
  shows "load_once E (load_stream E tid s)"
proof -
  let ?c = "string_message NS_CONNECTION tid connect_payload"
  have free: "media_free (sent s)" "req_id s = 2"
    using assms by (auto simp: load_once_def)
  show ?thesis
  proof (cases "ce_wok E (length (sent s)) \<and> ce_wok E (Suc (length (sent s)))")
    case True
    then have "sent (load_stream E tid s) = sent s @ [?c, load_message E tid] @ []"
      "loaded (load_stream E tid s)"
      using assms free by (simp_all add: load_stream_def then_do_def send_def load_message_def)
    then show ?thesis using free(1) unfolding load_once_def by (metis media_free_simps(1))
  next
    case False
    then show ?thesis using assms free
      by (auto simp: load_stream_def then_do_def send_def load_once_def)
  qed
qed

lemma load_once_handle:
  "load_once E s \<Longrightarrow> \<not> ended s \<Longrightarrow> load_once E (handle_message E msg s)"
  by (auto simp: handle_message_def Let_def intro: load_once_send load_once_load_stream
      split: option.splits)

lemma load_once_drain: "load_once E s \<Longrightarrow> load_once E (drain E buf s)"
proof (induction E buf s rule: drain.induct)
  case (1 E buf s)
  show ?case
    by (subst drain.simps) (use 1 load_once_handle[of E] in \<open>auto split: option.splits\<close>)
qed

lemma load_once_step: "load_once E s \<Longrightarrow> load_once E (session_step E s ev)"
  by (cases ev) (auto simp: then_do_def intro!: load_once_send load_once_drain
      intro: load_once_ended load_once_send split: sum.splits)

interpretation cast: halting_machine "session_step E" "load_once E" ended for E
proof unfold_locales
  fix s ev
  show "load_once E s \<Longrightarrow> load_once E (session_step E s ev)" by (rule load_once_step)
  show "ended s \<Longrightarrow> session_step E s ev = s" by (cases ev) auto
qed

lemma load_once_start: "load_once E (session_start to_str wok t0)"
  by (simp add: session_start_def then_do_def send_def load_once_def)

subsection \<open>Messages handled and answered\<close>

definition all_writes_ok :: "cast_env \<Rightarrow> bool" where
  "all_writes_ok E \<longleftrightarrow> (\<forall>i. ce_wok E i)"

lemma handle_message_ok:
  assumes "all_writes_ok E"
  shows "ended (handle_message E msg s) = ended s" "handled (handle_message E msg s) = handled s"
  using assms by (auto simp: all_writes_ok_def handle_message_def Let_def load_stream_def
      then_do_def send_def split: option.splits)

lemma drain_handled:
  assumes "all_writes_ok E" "\<not> ended s"
  shows "handled (drain E buf s) = handled s @ fst (drain_frames (ce_dec E) buf)
    \<and> read_buf (drain E buf s) = snd (drain_frames (ce_dec E) buf) \<and> \<not> ended (drain E buf s)"
  using assms
proof (induction E buf s rule: drain.induct)
  case (1 E buf s)
  show ?case
  proof (cases "decode_frame (ce_dec E) buf")
    case None
    then show ?thesis using 1 by (simp add: drain.simps[of E buf s] drain_stuck)
  next
    case (Some mk)
    obtain m k where mk: "mk = (m, k)" by fastforce
    show ?thesis
      using 1 Some mk handle_message_ok[OF \<open>all_writes_ok E\<close>]
      by (simp add: drain.simps[of E buf s] drain_frames.simps[of _ buf] split: prod.splits)
  qed
qed

lemma reads_handled:
  assumes "all_writes_ok E" "\<not> ended s" "\<And>p. p \<in> set ps \<Longrightarrow> fst p \<noteq> []"
  shows "handled (run (session_step E) s (map (\<lambda>(bs, t). Read (Inr bs) t) ps)) =
      handled s @ fst (read_pieces (ce_dec E) (read_buf s) (map fst ps))
    \<and> \<not> ended (run (session_step E) s (map (\<lambda>(bs, t). Read (Inr bs) t) ps))"
  using assms(2,3)
proof (induction ps arbitrary: s)
  case (Cons p ps)
  let ?s = "drain E (read_buf s @ fst p) (s\<lparr>last_inbound := snd p\<rparr>)"
  have d: "handled ?s = handled s @ fst (drain_frames (ce_dec E) (read_buf s @ fst p))"
    "read_buf ?s = snd (drain_frames (ce_dec E) (read_buf s @ fst p))" "\<not> ended ?s"
    using drain_handled[OF assms(1), of "s\<lparr>last_inbound := snd p\<rparr>"] Cons.prems by simp_all
  show ?case using Cons.IH[OF d(3)] Cons.prems d by (simp add: case_prod_unfold)
qed simp

definition is_ping :: "cast_env \<Rightarrow> cast_message \<Rightarrow> bool" where
  "is_ping E msg \<longleftrightarrow> message_type (ce_from_str E) (payload_of msg) = Some ''PING''"

definition pong_for :: "cast_message \<Rightarrow> cast_message" where
  "pong_for msg = string_message NS_HEARTBEAT (source_id msg) pong_payload"

definition pongs :: "session \<Rightarrow> cast_message list" where
  "pongs s = filter (\<lambda>m. namespace m = NS_HEARTBEAT \<and> payload_utf8 m = Some pong_payload) (sent s)"

definition pings_answered :: "cast_env \<Rightarrow> session \<Rightarrow> bool" where
  "pings_answered E s \<longleftrightarrow> pongs s = map pong_for (filter (is_ping E) (handled s))"

lemma ping_not_pong [simp]: "ping_payload \<noteq> pong_payload"
  by (simp add: ping_payload_def pong_payload_def type_payload_def quoted_def)

lemma pings_answered_handle:
  assumes "all_writes_ok E" "pings_answered E s"
  shows "pings_answered E (handle_message E msg (s\<lparr>handled := handled s @ [msg]\<rparr>))"
proof (cases "is_ping E msg")
  case True
  then show ?thesis using assms
    by (simp add: pings_answered_def pongs_def handle_message_def is_ping_def Let_def send_def
        all_writes_ok_def pong_for_def)
next
  case False
  then show ?thesis using assms
    by (auto simp: pings_answered_def pongs_def handle_message_def is_ping_def Let_def send_def
        all_writes_ok_def load_stream_def then_do_def split: option.splits)
qed

lemma pings_answered_buf [simp]:
  "pings_answered E (s\<lparr>read_buf := b\<rparr>) = pings_answered E s"
  "pings_answered E (s\<lparr>last_inbound := t\<rparr>) = pings_answered E s"
  "pings_answered E (s\<lparr>ended := e\<rparr>) = pings_answered E s"
  by (simp_all add: pings_answered_def pongs_def)

lemma pings_answered_drain:
  "all_writes_ok E \<Longrightarrow> pings_answered E s \<Longrightarrow> pings_answered E (drain E buf s)"
proof (induction E buf s rule: drain.induct)
  case (1 E buf s)
  show ?case
    by (subst drain.simps) (use 1 pings_answered_handle in \<open>auto split: option.splits\<close>)
qed

lemma pings_answered_step:
  assumes "all_writes_ok E" "pings_answered E s"
  shows "pings_answered E (session_step E s ev)"
proof (cases ev)
  case (Read r t)
  then show ?thesis using assms
    by (auto intro!: pings_answered_drain split: sum.splits)
qed (use assms in \<open>auto simp: send_def then_do_def all_writes_ok_def pings_answered_def pongs_def\<close>)

interpretation pings: machine "session_step E" "\<lambda>s. all_writes_ok E \<longrightarrow> pings_answered E s" for E
  by unfold_locales (auto intro: pings_answered_step)

lemma start_simps:
  "loaded (session_start f wok t) = False" "handled (session_start f wok t) = []"
  "read_buf (session_start f wok t) = []" "pings_answered E (session_start f wok t)"
  "(\<forall>i. wok i) \<Longrightarrow> \<not> ended (session_start f wok t)"
  by (auto simp: session_start_def then_do_def send_def pings_answered_def pongs_def)

lemma heartbeats_reap:
  assumes "all_writes_ok E" "\<not> ended s"
  shows "ended (run (session_step E) s (map Heartbeat ts)) \<longleftrightarrow>
    (\<exists>t \<in> set ts. link_lost (last_inbound s) t CAST_INBOUND_DEADLINE)"
  using assms(2)
proof (induction ts arbitrary: s)
  case (Cons t ts)
  let ?s = "send (ce_wok E) (string_message NS_HEARTBEAT ''receiver-0'' ping_payload) s"
  have "\<not> ended ?s" using Cons.prems assms(1) by (simp add: send_ended all_writes_ok_def)
  then show ?case using Cons by (auto simp: then_do_def cast.halted_run)
qed simp

section \<open>Properties\<close>

text \<open>
  C13 (at most one LOAD per session).  Whatever a device sends and in whatever order the
  events of a session come, the session asks for the stream at most once: the LOAD carries
  this server's URL, directly follows the CONNECT to the same transport, and every other
  frame the session sends is off the media namespace.
\<close>

theorem one_load_per_session:
  "let s = run (session_step E) (session_start to_str (ce_wok E) t0) es in
     if loaded s
     then \<exists>pre tid rest. sent s = pre @ [string_message NS_CONNECTION tid connect_payload,
              load_message E tid] @ rest \<and> media_free pre \<and> media_free rest
     else media_free (sent s)"
  using cast.run_inv[OF load_once_start, of E to_str "ce_wok E" t0 es]
  unfolding load_once_def Let_def by (auto split: if_splits)

text \<open>
  C8 (every message is handled, every PING answered).  A device sends messages \<open>ms\<close>; the
  network delivers their bytes in pieces of any size.  While the session's own writes succeed
  it handles exactly \<open>ms\<close>, in order, and its PONGs answer exactly the PINGs among them.
\<close>

theorem session_handles_stream:
  assumes "all_writes_ok E"
    and "\<And>m. m \<in> set ms \<Longrightarrow> length (enc m) < 2 ^ 32 \<and> ce_dec E (enc m) = Some m"
    and "concat (map fst ps) = concat (map (encode_frame enc) ms)"
    and "\<And>p. p \<in> set ps \<Longrightarrow> fst p \<noteq> []"
  shows "let s = run (session_step E) (session_start to_str (ce_wok E) t0)
                   (map (\<lambda>(bs, t). Read (Inr bs) t) ps)
     in handled s = ms \<and> pongs s = map pong_for (filter (is_ping E) ms) \<and> \<not> ended s"
proof -
  define st where "st = session_start to_str (ce_wok E) t0"
  let ?s = "run (session_step E) st (map (\<lambda>(bs, t). Read (Inr bs) t) ps)"
  have stuck: "decode_frame (ce_dec E) [] = None" by (simp add: decode_frame_def)
  have "\<not> ended st" using assms(1) by (simp add: st_def start_simps all_writes_ok_def)
  from reads_handled[OF assms(1) this assms(4)]
  have "handled ?s = fst (read_pieces (ce_dec E) [] (map fst ps))" "\<not> ended ?s"
    by (simp_all add: st_def start_simps)
  moreover have "read_pieces (ce_dec E) [] (map fst ps) = (ms, [])"
    using drain_encoded[OF assms(2), of ms "[]"] stuck
    by (simp add: read_pieces_eq assms(3) drain_stuck)
  moreover have "pings_answered E ?s"
    using pings.run_inv[of E st] assms(1) by (simp add: st_def start_simps)
  ultimately show ?thesis by (simp add: pings_answered_def st_def Let_def)
qed

text \<open>
  A silent link is given up.  With nothing arriving, a heartbeat ends the session if and
  only if the link has been silent for more than the deadline of 15 seconds.
\<close>

theorem silent_link_reaped:
  assumes "all_writes_ok E" "\<not> ended s"
  shows "ended (run (session_step E) s (map Heartbeat ts)) \<longleftrightarrow>
    (\<exists>t \<in> set ts. last_inbound s + secs 15 < t)"
  using heartbeats_reap[OF assms, of ts]
  by (auto simp: link_lost_def CAST_INBOUND_DEADLINE_def less_diff_conv add.commute)

text \<open>
  C40 (the address offered to a Chromecast).  Of the addresses \<open>hostname -I\<close> prints, the first
  usable private one is chosen, and the first usable one when none is private.
\<close>

theorem server_lan_ip_preference:
  "server_lan_ip out =
     (case find (\<lambda>t. usable_ipv4 t \<and> private_ipv4 t) (split_whitespace out) of
        Some t \<Rightarrow> Some t
      | None \<Rightarrow> find usable_ipv4 (split_whitespace out))"
  by (simp add: server_lan_ip_def lan_ip_loop_eq split: option.splits)

definition demo_ping :: cast_message where
  "demo_ping = (string_message NS_HEARTBEAT ''sender-0'' ping_payload)\<lparr>source_id := ''tv''\<rparr>"

definition demo_cast_env :: cast_env where
  "demo_cast_env =
     \<lparr>ce_dec = (\<lambda>bs. if bs = [1] then Some demo_ping else None),
      ce_from_str = (\<lambda>s. if s = ping_payload then Some (JObj [(''type'', JStr ''PING'')]) else None),
      ce_to_str = (\<lambda>_. []), ce_wok = (\<lambda>_. True), ce_media_url = ''u''\<rparr>"

theorem session_handles_stream_witness:
  "let s = run (session_step demo_cast_env)
       (session_start (\<lambda>_. []) (ce_wok demo_cast_env) 0)
       (map (\<lambda>(bs, t). Read (Inr bs) t) [([0, 0], 5), ([0, 1, 1], 7)])
   in handled s = [demo_ping] \<and> pongs s = map pong_for (filter (is_ping demo_cast_env) [demo_ping])
      \<and> \<not> ended s"
  by (rule session_handles_stream[where enc = "\<lambda>_. [1]"])
    (auto simp: demo_cast_env_def all_writes_ok_def encode_frame_def be_bytes_def)

theorem silent_link_reaped_witness:
  "ended (run (session_step demo_cast_env) (session_start (\<lambda>_. []) (\<lambda>_. True) 0)
      (map Heartbeat [secs 5, secs 10, secs 20])) \<longleftrightarrow>
    (\<exists>t \<in> set [secs 5, secs 10, secs 20].
       last_inbound (session_start (\<lambda>_. []) (\<lambda>_. True) 0) + secs 15 < t)"
  by (rule silent_link_reaped) (simp_all add: demo_cast_env_def all_writes_ok_def start_simps)

end
