(* ===== verification/OutputController.thy ===== *)
theory OutputController
  imports State CastSession
begin

text \<open>
  The output controller (src/src/output/controller.rs): it owns the active output, the
  PipeWire loopback that feeds a sound card or an AirPlay receiver, and the Chromecast
  session, and makes sure that at most one of them exists.

  The task is a step function over the branches of its biased select loop.  Commands run
  through the runner of the environment on the blocking pool; a cast session is started by
  spawning its task, so the controller only keeps its identity.  What was started, stopped
  and found dead is recorded in \<open>cast_log\<close>.
\<close>

section \<open>State\<close>

definition REFRESH_INTERVAL :: duration where "REFRESH_INTERVAL = secs 10"

record cast_ref =
  cr_id :: nat
  cr_addr :: string
  cr_port :: nat
  cr_url :: string

datatype cast_action = StartCast cast_ref | StopCast nat | ReapCast nat

record 'w oc_env =
  oe_run :: "'w runner"
  oe_cancelled :: "'w \<Rightarrow> bool"
  oe_lan_ip :: string
  oe_bind_port :: nat

record 'w oc =
  oc_available :: available_outputs
  oc_active :: "output_device option"
  oc_loopback :: "nat option"
  oc_cast :: "cast_ref option"
  oc_health :: "cast_health option"
  oc_raop :: "nat option"
  oc_next_cast :: nat
  cast_log :: "cast_action list"
  oc_handle :: app_handle
  oc_world :: 'w
  oc_done :: bool

definition find_device :: "available_outputs \<Rightarrow> output_kind \<Rightarrow> string \<Rightarrow> output_device option" where
  "find_device avail kind i =
     find (\<lambda>d. dev_id d = i)
       (case kind of Soundcard \<Rightarrow> soundcard avail | Airplay \<Rightarrow> airplay avail
        | Chromecast \<Rightarrow> chromecast avail)"

text \<open>A command on the blocking pool; \<open>None\<close> is a failed join or a failed spawn.\<close>

definition run_blocking :: "'w oc_env \<Rightarrow> string \<Rightarrow> string list \<Rightarrow> 'w
    \<Rightarrow> command_output option \<times> 'w" where
  "run_blocking E p as w =
     (case spawn_blocking (oe_cancelled E) (\<lambda>w. oe_run E w p as) w of
        (Inl _, w') \<Rightarrow> (None, w')
      | (Inr (Inl _), w') \<Rightarrow> (None, w')
      | (Inr (Inr out), w') \<Rightarrow> (Some out, w'))"

section \<open>Start\<close>

definition load_raop_discover :: "'w oc_env \<Rightarrow> 'w \<Rightarrow> nat option \<times> 'w" where
  "load_raop_discover E w =
     (case run_blocking E ''pactl'' [''load-module'', ''module-raop-discover''] w of
        (None, w1) \<Rightarrow> (None, w1)
      | (Some out, w1) \<Rightarrow>
          if success out then (parse_u32 (trim (stdout out)), w1)
          else (case run_blocking E ''pactl'' [''list'', ''short'', ''modules''] w1 of
                  (None, w2) \<Rightarrow> (None, w2)
                | (Some lo, w2) \<Rightarrow>
                    (if success lo then parse_module_id_by_name (stdout lo) ''module-raop-discover''
                     else None, w2)))"

definition publish_output :: "'w oc \<Rightarrow> 'w oc" where
  "publish_output s =
     s\<lparr>oc_handle := set_output \<lparr>os_active = oc_active s, os_available = oc_available s,
                                os_cast_health = oc_health s\<rparr> (oc_handle s)\<rparr>"

definition oc_start :: "'w oc_env \<Rightarrow> app_handle \<Rightarrow> 'w \<Rightarrow> 'w oc" where
  "oc_start E h w =
     (case load_raop_discover E w of (raop, w1) \<Rightarrow>
      (case spawn_blocking (oe_cancelled E) (probe_outputs (oe_run E)) w1 of (res, w2) \<Rightarrow>
        publish_output
          \<lparr>oc_available = (case res of Inr a \<Rightarrow> a | Inl _ \<Rightarrow> no_outputs), oc_active = None,
           oc_loopback = None, oc_cast = None, oc_health = None, oc_raop = raop,
           oc_next_cast = 0, cast_log = [], oc_handle = h, oc_world = w2, oc_done = False\<rparr>))"

section \<open>Teardown and routing\<close>

definition teardown_loopback :: "'w oc_env \<Rightarrow> 'w oc \<Rightarrow> 'w oc" where
  "teardown_loopback E s =
     (case oc_loopback s of
        None \<Rightarrow> s
      | Some mid \<Rightarrow>
          s\<lparr>oc_loopback := None,
            oc_world := snd (run_blocking E ''pactl'' [''unload-module'', show_nat mid]
                               (oc_world s))\<rparr>)"

definition teardown :: "'w oc_env \<Rightarrow> 'w oc \<Rightarrow> 'w oc" where
  "teardown E s =
     teardown_loopback E
       (case oc_cast s of
          None \<Rightarrow> s
        | Some c \<Rightarrow> s\<lparr>oc_cast := None, cast_log := cast_log s @ [StopCast (cr_id c)]\<rparr>)"

definition route_to_sink :: "'w oc_env \<Rightarrow> output_kind \<Rightarrow> string \<Rightarrow> 'w oc \<Rightarrow> 'w oc" where
  "route_to_sink E kind sink_id s0 =
     (let s = teardown_loopback E s0 in
      case run_blocking E ''pactl'' (build_loopback_args sink_id) (oc_world s) of
        (None, w) \<Rightarrow> s\<lparr>oc_active := None, oc_world := w\<rparr>
      | (Some out, w) \<Rightarrow>
          if \<not> success out then s\<lparr>oc_active := None, oc_world := w\<rparr>
          else (case parse_loopback_module_id (stdout out) of
                  None \<Rightarrow> s\<lparr>oc_loopback := None, oc_active := None, oc_world := w\<rparr>
                | Some mid \<Rightarrow>
                    s\<lparr>oc_loopback := Some mid,
                      oc_active := Some (case find_device (oc_available s) kind sink_id of
                          Some d \<Rightarrow> d
                        | None \<Rightarrow> \<lparr>dev_kind = kind, dev_id = sink_id, dev_name = sink_id,
                                   dev_addr = None, dev_port = None\<rparr>),
                      oc_world := w\<rparr>))"

definition start_cast :: "string \<Rightarrow> nat \<Rightarrow> string \<Rightarrow> 'w oc \<Rightarrow> 'w oc" where
  "start_cast addr port url s =
     (let c = \<lparr>cr_id = oc_next_cast s, cr_addr = addr, cr_port = port, cr_url = url\<rparr> in
      s\<lparr>oc_cast := Some c, oc_next_cast := oc_next_cast s + 1,
        cast_log := cast_log s @ [StartCast c]\<rparr>)"

definition route_to_chromecast :: "'w oc_env \<Rightarrow> string \<Rightarrow> 'w oc \<Rightarrow> 'w oc" where
  "route_to_chromecast E i s =
     (case find_device (oc_available s) Chromecast i of
        None \<Rightarrow> s\<lparr>oc_active := None\<rparr>
      | Some dev \<Rightarrow>
          (case dev_addr dev of
             None \<Rightarrow> s\<lparr>oc_active := None\<rparr>
           | Some addr \<Rightarrow>
               if oe_lan_ip E = [] then s\<lparr>oc_active := None\<rparr>
               else (start_cast addr (case dev_port dev of Some p \<Rightarrow> p | None \<Rightarrow> 8009)
                       (stream_url (oe_lan_ip E) (oe_bind_port E)) s)
                      \<lparr>oc_health := Some CastConnecting, oc_active := Some dev\<rparr>))"

section \<open>The loop\<close>

fun handle_command :: "'w oc_env \<Rightarrow> output_command \<Rightarrow> 'w oc \<Rightarrow> 'w oc" where
  "handle_command E ClearOutput s =
     publish_output ((teardown E s)\<lparr>oc_active := None, oc_health := None\<rparr>)"
| "handle_command E (Select Soundcard i) s =
     publish_output (route_to_sink E Soundcard i ((teardown E s)\<lparr>oc_health := None\<rparr>))"
| "handle_command E (Select Airplay i) s =
     publish_output (route_to_sink E Airplay i ((teardown E s)\<lparr>oc_health := None\<rparr>))"
| "handle_command E (Select Chromecast i) s =
     publish_output (route_to_chromecast E i ((teardown E s)\<lparr>oc_health := None\<rparr>))"

text \<open>The periodic refresh; \<open>finished\<close> tells which session tasks have exited.\<close>

definition reap_cast :: "(nat \<Rightarrow> bool) \<Rightarrow> 'w oc \<Rightarrow> 'w oc" where
  "reap_cast finished s =
     (case oc_cast s of
        None \<Rightarrow> s
      | Some c \<Rightarrow>
          if finished (cr_id c)
          then s\<lparr>oc_cast := None, oc_active := None, oc_health := Some CastLost,
                 cast_log := cast_log s @ [ReapCast (cr_id c)]\<rparr>
          else s)"

definition refresh :: "'w oc_env \<Rightarrow> (nat \<Rightarrow> bool) \<Rightarrow> 'w oc \<Rightarrow> 'w oc" where
  "refresh E finished s =
     (case spawn_blocking (oe_cancelled E) (probe_outputs (oe_run E)) (oc_world s) of (res, w) \<Rightarrow>
        publish_output (reap_cast finished
          (s\<lparr>oc_available := (case res of Inr fresh \<Rightarrow> fresh | Inl _ \<Rightarrow> oc_available s),
             oc_world := w\<rparr>)))"

definition oc_shutdown :: "'w oc_env \<Rightarrow> 'w oc \<Rightarrow> 'w oc" where
  "oc_shutdown E s0 =
     (let s = teardown E s0 in
      case oc_raop s of
        None \<Rightarrow> s\<lparr>oc_done := True\<rparr>
      | Some mid \<Rightarrow>
          s\<lparr>oc_raop := None, oc_done := True,
            oc_world := snd (run_blocking E ''pactl'' [''unload-module'', show_nat mid]
                               (oc_world s))\<rparr>)"

datatype oc_event =
    OcShutdown bool
  | OcCommand output_command
  | OcClosed
  | OcTick "nat \<Rightarrow> bool"

fun oc_step :: "'w oc_env \<Rightarrow> 'w oc \<Rightarrow> oc_event \<Rightarrow> 'w oc" where
  "oc_step E s (OcShutdown stop) =
     (if oc_done s then s else if stop then oc_shutdown E s else s)"
| "oc_step E s OcClosed = (if oc_done s then s else oc_shutdown E s)"
| "oc_step E s (OcCommand c) = (if oc_done s then s else handle_command E c s)"
| "oc_step E s (OcTick finished) = (if oc_done s then s else refresh E finished s)"

section \<open>Lemmas\<close>

lemma publish_output_simps [simp]:
  "oc_available (publish_output s) = oc_available s" "oc_active (publish_output s) = oc_active s"
  "oc_loopback (publish_output s) = oc_loopback s" "oc_cast (publish_output s) = oc_cast s"
  "oc_health (publish_output s) = oc_health s" "oc_raop (publish_output s) = oc_raop s"
  "cast_log (publish_output s) = cast_log s" "oc_world (publish_output s) = oc_world s"
  "oc_done (publish_output s) = oc_done s" "oc_next_cast (publish_output s) = oc_next_cast s"
  by (simp_all add: publish_output_def)

lemma teardown_loopback_simps [simp]:
  "oc_available (teardown_loopback E s) = oc_available s"
  "oc_active (teardown_loopback E s) = oc_active s" "oc_loopback (teardown_loopback E s) = None"
  "oc_cast (teardown_loopback E s) = oc_cast s" "oc_health (teardown_loopback E s) = oc_health s"
  "oc_raop (teardown_loopback E s) = oc_raop s" "cast_log (teardown_loopback E s) = cast_log s"
  "oc_done (teardown_loopback E s) = oc_done s" "oc_handle (teardown_loopback E s) = oc_handle s"
  by (simp_all add: teardown_loopback_def split: option.splits)

lemma teardown_simps [simp]:
  "oc_available (teardown E s) = oc_available s" "oc_active (teardown E s) = oc_active s"
  "oc_loopback (teardown E s) = None" "oc_cast (teardown E s) = None"
  "oc_health (teardown E s) = oc_health s" "oc_raop (teardown E s) = oc_raop s"
  "oc_done (teardown E s) = oc_done s" "oc_handle (teardown E s) = oc_handle s"
  by (simp_all add: teardown_def split: option.splits)

subsection \<open>A single active output\<close>

definition well_kinded :: "available_outputs \<Rightarrow> bool" where
  "well_kinded a \<longleftrightarrow> dev_kind ` set (soundcard a) \<subseteq> {Soundcard}
     \<and> dev_kind ` set (airplay a) \<subseteq> {Airplay} \<and> dev_kind ` set (chromecast a) \<subseteq> {Chromecast}"

lemma find_in_set: "find P xs = Some x \<Longrightarrow> x \<in> set xs \<and> P x"
  by (induction xs) (auto split: if_splits)

lemma find_device_kind: "well_kinded a \<Longrightarrow> find_device a k i = Some d \<Longrightarrow> dev_kind d = k"
  by (cases k) (auto simp: find_device_def well_kinded_def dest!: find_in_set)

lemma parse_chromecast_line_kind: "parse_chromecast_line l = Some (d, b) \<Longrightarrow> dev_kind d = Chromecast"
  by (auto simp: parse_chromecast_line_def Let_def split: if_splits option.splits)

lemma parse_chromecasts_kind: "d \<in> set (parse_chromecasts out) \<Longrightarrow> dev_kind d = Chromecast"
  by (auto simp: parse_chromecasts_def chromecast_entries_def set_map_filter
      dest: parse_chromecast_line_kind)

lemma probe_well_kinded: "probe_outputs r w = (a, w') \<Longrightarrow> well_kinded a"
proof -
  assume p: "probe_outputs r w = (a, w')"
  have sub: "d \<in> set ds" if "d \<in> set (dedup_by key ds)"
    for d ds and key :: "output_device \<Rightarrow> string"
    using that set_dedup_seen[of "[]" key ds] by (auto simp: dedup_by_def)
  have "d \<in> set (soundcard a) \<Longrightarrow> dev_kind d = Soundcard" for d
    using p by (auto simp: probe_outputs_def parse_soundcard_sinks_def set_map_filter
        split: prod.splits sum.splits dest!: sub soundcard_device_Some)
  moreover have "d \<in> set (airplay a) \<Longrightarrow> dev_kind d = Airplay" for d
    using p by (auto simp: probe_outputs_def parse_raop_sinks_def set_map_filter
        split: prod.splits sum.splits dest!: sub raop_device_Some)
  moreover have "d \<in> set (chromecast a) \<Longrightarrow> dev_kind d = Chromecast" for d
    using p by (auto simp: probe_outputs_def split: prod.splits sum.splits
        dest!: sub dest: parse_chromecasts_kind)
  ultimately show ?thesis by (auto simp: well_kinded_def)
qed

lemma no_outputs_well_kinded: "well_kinded no_outputs"
  by (simp add: well_kinded_def no_outputs_def)

definition single_active :: "'w oc \<Rightarrow> bool" where
  "single_active s \<longleftrightarrow>
     (oc_loopback s = None \<or> oc_cast s = None) \<and>
     (oc_active s = None \<longleftrightarrow> oc_loopback s = None \<and> oc_cast s = None) \<and>
     (\<forall>d. oc_active s = Some d \<longrightarrow> (dev_kind d = Chromecast \<longleftrightarrow> oc_cast s \<noteq> None)) \<and>
     (oc_health s = Some CastConnecting \<longleftrightarrow> oc_cast s \<noteq> None)"

definition oc_inv :: "'w oc \<Rightarrow> bool" where
  "oc_inv s \<longleftrightarrow> well_kinded (oc_available s)
     \<and> (if oc_done s then oc_loopback s = None \<and> oc_cast s = None \<and> oc_raop s = None
        else single_active s)
     \<and> st_output (app (oc_handle s)) = \<lparr>os_active = oc_active s, os_available = oc_available s,
                                         os_cast_health = oc_health s\<rparr>"

lemma st_output_set_output [simp]: "st_output (app (set_output u h)) = u"
  by (rule output_field.get_put)

lemma published [simp]:
  "st_output (app (oc_handle (publish_output s))) = \<lparr>os_active = oc_active s,
     os_available = oc_available s, os_cast_health = oc_health s\<rparr>"
  by (simp add: publish_output_def)

lemma route_to_sink_simps [simp]:
  "oc_available (route_to_sink E k i s) = oc_available s"
  "oc_cast (route_to_sink E k i s) = oc_cast s"
  "oc_health (route_to_sink E k i s) = oc_health s" "oc_done (route_to_sink E k i s) = oc_done s"
  "cast_log (route_to_sink E k i s) = cast_log s"
  by (simp_all add: route_to_sink_def Let_def split: prod.splits option.splits)

lemma route_to_sink_active:
  assumes "well_kinded (oc_available s)"
  shows "(oc_active (route_to_sink E k i s) = None \<longleftrightarrow> oc_loopback (route_to_sink E k i s) = None)
    \<and> (\<forall>d. oc_active (route_to_sink E k i s) = Some d \<longrightarrow> dev_kind d = k)"
  using find_device_kind[OF assms]
  by (auto simp: route_to_sink_def Let_def split: prod.splits option.splits)

lemma handle_command_inv:
  assumes "oc_inv s" "\<not> oc_done s"
  shows "oc_inv (handle_command E c s)"
proof (cases c)
  case (Select k i)
  have wk: "well_kinded (oc_available s)" using assms(1) by (simp add: oc_inv_def)
  show ?thesis
  proof (cases "k = Chromecast")
    case True
    then show ?thesis using Select assms wk find_device_kind[OF wk, of Chromecast i]
      by (auto simp: oc_inv_def single_active_def route_to_chromecast_def start_cast_def Let_def
          split: option.splits)
  next
    case False
    then have "handle_command E c s
        = publish_output (route_to_sink E k i ((teardown E s)\<lparr>oc_health := None\<rparr>))"
      using Select by (cases k) auto
    then show ?thesis
      using route_to_sink_active[of "(teardown E s)\<lparr>oc_health := None\<rparr>" E k i] wk assms False
      by (auto simp: oc_inv_def single_active_def)
  qed
qed (use assms in \<open>auto simp: oc_inv_def single_active_def\<close>)

lemma refresh_inv:
  assumes "oc_inv s" "\<not> oc_done s"
  shows "oc_inv (refresh E finished s)"
proof -
  obtain res w where p: "spawn_blocking (oe_cancelled E) (probe_outputs (oe_run E)) (oc_world s)
      = (res, w)" by fastforce
  have "well_kinded (case res of Inr fresh \<Rightarrow> fresh | Inl _ \<Rightarrow> oc_available s)"
    using p assms(1)
    by (auto simp: spawn_blocking_def oc_inv_def split: if_splits sum.splits prod.splits
        dest: probe_well_kinded)
  then show ?thesis using assms p
    by (auto simp: oc_inv_def single_active_def refresh_def reap_cast_def split: option.splits)
qed

lemma oc_shutdown_inv: "oc_inv s \<Longrightarrow> oc_inv (oc_shutdown E s)"
  by (auto simp: oc_inv_def oc_shutdown_def Let_def split: option.splits)

lemma oc_step_inv: "oc_inv s \<Longrightarrow> oc_inv (oc_step E s ev)"
  by (cases ev) (auto simp: handle_command_inv refresh_inv oc_shutdown_inv)

interpretation outputs: halting_machine "oc_step E" oc_inv oc_done for E
proof unfold_locales
  fix s :: "'a oc" and ev
  show "oc_inv s \<Longrightarrow> oc_inv (oc_step E s ev)" by (rule oc_step_inv)
  show "oc_done s \<Longrightarrow> oc_step E s ev = s" by (cases ev) auto
qed

lemma oc_start_inv: "oc_inv (oc_start E h w)"
  by (auto simp: oc_start_def oc_inv_def single_active_def spawn_blocking_def
      no_outputs_well_kinded split: prod.splits sum.splits dest: probe_well_kinded)

subsection \<open>Nothing is leaked\<close>

text \<open>
  The protocol of cast sessions: one at a time, and each one that was started is stopped or
  was found dead before the next one starts.
\<close>

fun cast_protocol :: "nat option \<Rightarrow> cast_action \<Rightarrow> nat option option" where
  "cast_protocol None (StartCast c) = Some (Some (cr_id c))"
| "cast_protocol (Some i) (StopCast j) = (if i = j then Some None else None)"
| "cast_protocol (Some i) (ReapCast j) = (if i = j then Some None else None)"
| "cast_protocol _ _ = None"

definition cast_ok :: "'w oc \<Rightarrow> bool" where
  "cast_ok s \<longleftrightarrow> track cast_protocol None (cast_log s) = Some (map_option cr_id (oc_cast s))"

lemma teardown_loopback_cast [simp]: "cast_ok (teardown_loopback E s) = cast_ok s"
  by (simp add: cast_ok_def)

lemma teardown_cast: "cast_ok s \<Longrightarrow> cast_ok (teardown E s)"
  by (auto simp: teardown_def cast_ok_def split: option.splits)

lemma cast_ok_update [simp]:
  "cast_ok (s\<lparr>oc_health := h\<rparr>) = cast_ok s" "cast_ok (s\<lparr>oc_active := a\<rparr>) = cast_ok s"
  "cast_ok (s\<lparr>oc_world := w\<rparr>) = cast_ok s" "cast_ok (s\<lparr>oc_available := av\<rparr>) = cast_ok s"
  "cast_ok (s\<lparr>oc_done := b\<rparr>) = cast_ok s" "cast_ok (s\<lparr>oc_raop := r\<rparr>) = cast_ok s"
  "cast_ok (publish_output s) = cast_ok s" "cast_ok (route_to_sink E k i s) = cast_ok s"
  by (simp_all add: cast_ok_def)

lemma route_to_chromecast_cast:
  "cast_ok s \<Longrightarrow> oc_cast s = None \<Longrightarrow> cast_ok (route_to_chromecast E i s)"
  by (auto simp: route_to_chromecast_def start_cast_def Let_def cast_ok_def split: option.splits)

lemma handle_command_cast: "cast_ok s \<Longrightarrow> cast_ok (handle_command E c s)"
  by (induction E c s rule: handle_command.induct)
    (simp_all add: teardown_cast route_to_chromecast_cast)

lemma reap_cast_ok: "cast_ok s \<Longrightarrow> cast_ok (reap_cast finished s)"
  by (auto simp: reap_cast_def cast_ok_def split: option.splits)

lemma cast_ok_step: "cast_ok s \<Longrightarrow> cast_ok (oc_step E s ev)"
  by (cases ev) (auto simp: handle_command_cast refresh_def reap_cast_ok oc_shutdown_def Let_def
      teardown_cast split: prod.splits option.splits)

interpretation casts: machine "oc_step E" cast_ok for E
  by unfold_locales (rule cast_ok_step)

text \<open>
  The protocol of loopbacks, on the log of commands: a loopback is loaded only when the one
  before it has been unloaded.
\<close>

definition is_loopback_load :: "call \<Rightarrow> bool" where
  "is_loopback_load c \<longleftrightarrow> call_prog c = ''pactl''
     \<and> take 2 (call_args c) = [''load-module'', ''module-loopback'']"

definition loaded_id :: "call \<Rightarrow> nat option" where
  "loaded_id c = (case call_res c of
     Inr out \<Rightarrow> if success out then parse_loopback_module_id (stdout out) else None
   | Inl _ \<Rightarrow> None)"

definition loopback_protocol :: "nat option \<Rightarrow> call \<Rightarrow> nat option option" where
  "loopback_protocol cur c =
     (if is_loopback_load c \<and> loaded_id c \<noteq> None
      then (if cur = None then Some (loaded_id c) else None)
      else if cur \<noteq> None \<and> call_args c = [''unload-module'', show_nat (the cur)] then Some None
      else Some cur)"

definition loopback_ok :: "(call list \<times> 'w) oc \<Rightarrow> bool" where
  "loopback_ok s \<longleftrightarrow> track loopback_protocol None (fst (oc_world s)) = Some (oc_loopback s)"

definition logging_env :: "'w oc_env \<Rightarrow> (call list \<times> 'w) oc_env" where
  "logging_env E = \<lparr>oe_run = logged (oe_run E), oe_cancelled = (\<lambda>_. False),
                    oe_lan_ip = oe_lan_ip E, oe_bind_port = oe_bind_port E\<rparr>"

lemma run_blocking_logged:
  "run_blocking (logging_env E) p as w =
     (case fst (oe_run E (snd w) p as) of Inl _ \<Rightarrow> None | Inr out \<Rightarrow> Some out,
      (fst w @ [\<lparr>call_prog = p, call_args = as, call_res = fst (oe_run E (snd w) p as)\<rparr>],
       snd (oe_run E (snd w) p as)))"
  by (simp add: run_blocking_def spawn_blocking_def logging_env_def logged_def
      split: prod.splits sum.splits)

lemma loopback_other:
  "\<not> is_loopback_load c \<Longrightarrow> hd (call_args c) \<noteq> ''unload-module'' \<Longrightarrow> loopback_protocol cur c = Some cur"
  by (auto simp: loopback_protocol_def)

lemma loopback_probe:
  assumes "probe_outputs (logged r) w = (a, w')"
    and "track loopback_protocol None (fst w) = Some cur"
  shows "track loopback_protocol None (fst w') = Some cur"
  using assms
  by (auto simp: probe_outputs_def logged_def track_append loopback_other is_loopback_load_def
      split: prod.splits)

lemma loopback_unload:
  "loopback_protocol (Some m) \<lparr>call_prog = p, call_args = [''unload-module'', show_nat m],
      call_res = res\<rparr> = Some None"
  "loopback_protocol None \<lparr>call_prog = p, call_args = [''unload-module'', x],
      call_res = res\<rparr> = Some None"
  by (simp_all add: loopback_protocol_def is_loopback_load_def)

lemma teardown_loopback_ok: "loopback_ok s \<Longrightarrow> loopback_ok (teardown_loopback (logging_env E) s)"
  by (auto simp: teardown_loopback_def loopback_ok_def run_blocking_logged loopback_unload
      split: option.splits)

lemma teardown_loopback_log_ok: "loopback_ok s \<Longrightarrow> loopback_ok (teardown (logging_env E) s)"
  unfolding teardown_def
  by (rule teardown_loopback_ok) (simp add: loopback_ok_def split: option.splits)

lemma loopback_load:
  "loopback_protocol None \<lparr>call_prog = ''pactl'', call_args = build_loopback_args i, call_res = res\<rparr> =
     Some (case res of Inr out \<Rightarrow> if success out then parse_loopback_module_id (stdout out) else None
       | Inl _ \<Rightarrow> None)"
  by (auto simp: loopback_protocol_def is_loopback_load_def loaded_id_def build_loopback_args_def
      split: sum.splits option.splits)

lemma loopback_ok_update [simp]:
  "loopback_ok (s\<lparr>oc_health := h\<rparr>) = loopback_ok s" "loopback_ok (s\<lparr>oc_active := ac\<rparr>) = loopback_ok s"
  "loopback_ok (publish_output s) = loopback_ok s" "loopback_ok (s\<lparr>oc_done := b\<rparr>) = loopback_ok s"
  "loopback_ok (s\<lparr>oc_raop := ra\<rparr>) = loopback_ok s"
  by (simp_all add: loopback_ok_def)

lemma route_to_sink_ok:
  assumes "loopback_ok s"
  shows "loopback_ok (route_to_sink (logging_env E) k i s)"
proof -
  have "track loopback_protocol None (fst (oc_world (teardown_loopback (logging_env E) s))) = Some None"
    using teardown_loopback_ok[OF assms, of E] by (simp add: loopback_ok_def)
  then show ?thesis
    by (auto simp: route_to_sink_def Let_def loopback_ok_def run_blocking_logged loopback_load
        split: sum.splits option.splits)
qed

lemma route_to_chromecast_ok: "loopback_ok s \<Longrightarrow> loopback_ok (route_to_chromecast E i s)"
  by (auto simp: route_to_chromecast_def start_cast_def Let_def loopback_ok_def split: option.splits)

lemma refresh_ok: "loopback_ok s \<Longrightarrow> loopback_ok (refresh (logging_env E) finished s)"
  by (auto simp: refresh_def spawn_blocking_def logging_env_def loopback_ok_def reap_cast_def
      split: prod.splits option.splits dest: loopback_probe)

lemma handle_command_ok: "loopback_ok s \<Longrightarrow> loopback_ok (handle_command (logging_env E) c s)"
proof -
  assume ok: "loopback_ok s"
  then show ?thesis
  proof (cases c)
    case (Select k i)
    then show ?thesis
      by (cases k) (simp_all add: ok route_to_sink_ok route_to_chromecast_ok teardown_loopback_log_ok)
  qed (simp add: ok teardown_loopback_log_ok)
qed

lemma oc_shutdown_ok: "loopback_ok s \<Longrightarrow> loopback_ok (oc_shutdown (logging_env E) s)"
  using teardown_loopback_log_ok[of s E]
  by (auto simp: oc_shutdown_def Let_def loopback_ok_def run_blocking_logged loopback_unload
      split: option.splits)

lemma loopback_ok_step: "loopback_ok s \<Longrightarrow> loopback_ok (oc_step (logging_env E) s ev)"
  by (cases ev) (auto simp: handle_command_ok refresh_ok oc_shutdown_ok)

interpretation loopbacks: machine "oc_step (logging_env E)" loopback_ok for E
  by unfold_locales (rule loopback_ok_step)

lemma oc_start_cast_ok: "cast_ok (oc_start E h w)"
  by (simp add: oc_start_def cast_ok_def split: prod.splits)

lemma load_raop_discover_log:
  assumes "load_raop_discover (logging_env E) w = (raop, w')"
    and "track loopback_protocol None (fst w) = Some cur"
  shows "track loopback_protocol None (fst w') = Some cur"
  using assms
  by (auto simp: load_raop_discover_def run_blocking_logged track_append loopback_other
      is_loopback_load_def split: sum.splits if_splits)

lemma oc_start_loopback_ok: "loopback_ok (oc_start (logging_env E) h ([], w))"
  by (auto simp: oc_start_def loopback_ok_def spawn_blocking_def logging_env_def
      split: prod.splits
      dest!: load_raop_discover_log[unfolded logging_env_def, where cur = None] loopback_probe)

lemma done_no_route: "oc_inv s \<Longrightarrow> oc_done s \<Longrightarrow> oc_loopback s = None \<and> oc_cast s = None"
  by (simp add: oc_inv_def)

lemma oc_run_inv: "oc_inv (run (oc_step E) (oc_start E h w) es)"
  by (rule outputs.run_inv[OF oc_start_inv])

lemma oc_run_cast_ok: "cast_ok (run (oc_step E) (oc_start E h w) es)"
  by (rule casts.run_inv[OF oc_start_cast_ok])

lemma oc_run_loopback_ok:
  "loopback_ok (run (oc_step (logging_env E)) (oc_start (logging_env E) h ([], w)) es)"
  by (rule loopbacks.run_inv[OF oc_start_loopback_ok])

section \<open>On the shared handle\<close>

text \<open>Only \<open>publish_output\<close> touches the handle; everything else passes it on.\<close>

definition oc_on :: "app_handle \<Rightarrow> 'w oc \<Rightarrow> 'w oc" where
  "oc_on h s = s\<lparr>oc_handle := h\<rparr>"

lemma oc_on_fields [simp]:
  "oc_available (oc_on h s) = oc_available s" "oc_active (oc_on h s) = oc_active s"
  "oc_loopback (oc_on h s) = oc_loopback s" "oc_cast (oc_on h s) = oc_cast s"
  "oc_health (oc_on h s) = oc_health s" "oc_raop (oc_on h s) = oc_raop s"
  "oc_next_cast (oc_on h s) = oc_next_cast s" "cast_log (oc_on h s) = cast_log s"
  "oc_handle (oc_on h s) = h" "oc_world (oc_on h s) = oc_world s" "oc_done (oc_on h s) = oc_done s"
  by (simp_all add: oc_on_def)

lemma oc_on_updates [simp]:
  "(oc_on h s)\<lparr>oc_active := a\<rparr> = oc_on h (s\<lparr>oc_active := a\<rparr>)"
  "(oc_on h s)\<lparr>oc_available := v\<rparr> = oc_on h (s\<lparr>oc_available := v\<rparr>)"
  "(oc_on h s)\<lparr>oc_loopback := l\<rparr> = oc_on h (s\<lparr>oc_loopback := l\<rparr>)"
  "(oc_on h s)\<lparr>oc_cast := c\<rparr> = oc_on h (s\<lparr>oc_cast := c\<rparr>)"
  "(oc_on h s)\<lparr>oc_health := x\<rparr> = oc_on h (s\<lparr>oc_health := x\<rparr>)"
  "(oc_on h s)\<lparr>oc_raop := r\<rparr> = oc_on h (s\<lparr>oc_raop := r\<rparr>)"
  "(oc_on h s)\<lparr>oc_next_cast := n\<rparr> = oc_on h (s\<lparr>oc_next_cast := n\<rparr>)"
  "(oc_on h s)\<lparr>cast_log := ls\<rparr> = oc_on h (s\<lparr>cast_log := ls\<rparr>)"
  "(oc_on h s)\<lparr>oc_world := w\<rparr> = oc_on h (s\<lparr>oc_world := w\<rparr>)"
  "(oc_on h s)\<lparr>oc_done := d\<rparr> = oc_on h (s\<lparr>oc_done := d\<rparr>)"
  by (simp_all add: oc_on_def)

lemma oc_on_ops [simp]:
  "teardown_loopback E (oc_on h s) = oc_on h (teardown_loopback E s)"
  "teardown E (oc_on h s) = oc_on h (teardown E s)"
  "start_cast a q u (oc_on h s) = oc_on h (start_cast a q u s)"
  "route_to_chromecast E i (oc_on h s) = oc_on h (route_to_chromecast E i s)"
  "reap_cast finished (oc_on h s) = oc_on h (reap_cast finished s)"
  "oc_shutdown E (oc_on h s) = oc_on h (oc_shutdown E s)"
proof -
  show 1: "teardown_loopback E (oc_on h s) = oc_on h (teardown_loopback E s)" for s
    by (simp add: teardown_loopback_def split: option.split)
  show 2: "teardown E (oc_on h s) = oc_on h (teardown E s)"
    by (simp add: teardown_def 1 split: option.split)
  show 3: "start_cast a q u (oc_on h s) = oc_on h (start_cast a q u s)" for a q u
    by (simp add: start_cast_def Let_def)
  show "route_to_chromecast E i (oc_on h s) = oc_on h (route_to_chromecast E i s)"
    by (simp add: route_to_chromecast_def 3 split: option.split)
  show "reap_cast finished (oc_on h s) = oc_on h (reap_cast finished s)"
    by (simp add: reap_cast_def split: option.split)
  show "oc_shutdown E (oc_on h s) = oc_on h (oc_shutdown E s)"
    by (simp add: oc_shutdown_def 2 Let_def split: option.split)
qed

lemma route_to_sink_on [simp]:
  "route_to_sink E k i (oc_on h s) = oc_on h (route_to_sink E k i s)"
  by (simp add: route_to_sink_def Let_def split: option.split prod.split)

lemma oc_handle_kept [simp]:
  "oc_handle (route_to_sink E k i s) = oc_handle s" "oc_handle (reap_cast finished s) = oc_handle s"
  "oc_handle (route_to_chromecast E i s) = oc_handle s" "oc_handle (oc_shutdown E s) = oc_handle s"
  by (simp_all add: route_to_sink_def route_to_chromecast_def reap_cast_def start_cast_def
      oc_shutdown_def Let_def split: option.split prod.split)

definition output_event :: "'w oc \<Rightarrow> system_event" where
  "output_event s = OutputStateEv \<lparr>os_active = oc_active s, os_available = oc_available s,
                                   os_cast_health = oc_health s\<rparr>"

lemma publish_output_on:
  "publish_output (oc_on h s) = oc_on (commit (output_event s) h) (publish_output s)"
  "oc_handle (publish_output s) = commit (output_event s) (oc_handle s)"
  "writer_of (output_event s) = OutputTask"
  by (simp_all add: publish_output_def output_event_def oc_on_def)

lemma oc_step_frame:
  "oc_step E (oc_on h s) e =
      oc_on (fold commit (written (oc_handle s) (oc_handle (oc_step E s e))) h) (oc_step E s e)
   \<and> (\<forall>ev \<in> set (written (oc_handle s) (oc_handle (oc_step E s e))). writer_of ev = OutputTask)"
proof (cases "oc_done s")
  case False
  show ?thesis
  proof (cases e)
    case (OcCommand c)
    then show ?thesis using False by (cases "(E, c, s)" rule: handle_command.cases)
        (simp_all add: publish_output_on)
  qed (use False in \<open>simp_all add: refresh_def publish_output_on split: prod.split sum.split\<close>)
qed (cases e; simp)

interpretation oc_user: handle_user "oc_step E" oc_handle oc_on st_output OutputTask for E
proof unfold_locales
  fix s :: "'a oc" and e ev and h h' :: app_handle
  show "\<exists>evs. (\<forall>h. st_output (app h) = st_output (app (oc_handle s)) \<longrightarrow>
        oc_step E (oc_on h s) e = oc_on (fold commit evs h) (oc_step E s e))
      \<and> (\<forall>ev \<in> set evs. writer_of ev = OutputTask)"
    using oc_step_frame by blast
  show "oc_on h (oc_on h' s) = oc_on h s" "oc_on (oc_handle s) s = s" by (simp_all add: oc_on_def)
  show "writer_of ev = OutputTask \<Longrightarrow> st_output (app (commit ev h)) = st_output (app (commit ev h'))"
    "writer_of ev \<noteq> OutputTask \<Longrightarrow> st_output (app (commit ev h)) = st_output (app h)"
    by (cases ev; simp add: setter_defs)+
qed simp

section \<open>Properties\<close>



text \<open>
  C15 (cast sessions never overlap).  Each cast session is stopped, or was found dead, before
  the next one is started, and none is left when the task has returned.
\<close>

theorem casts_never_overlap:
  "let s = run (oc_step E) (oc_start E h w) es in
     track cast_protocol None (cast_log s) = Some (if oc_done s then None else map_option cr_id (oc_cast s))"
  using oc_run_cast_ok[of E h w es] done_no_route[OF oc_run_inv, of E h w es]
  by (auto simp: cast_ok_def Let_def)

text \<open>
  Selecting a sink.  Selecting a sound card or an AirPlay sink makes it active exactly
  when the loopback to it was loaded and reported a module id: then the loopback is held and
  the device is the discovered one, or a minimal record when discovery has lost it; in every
  other case nothing is active.
\<close>

theorem select_sink_outcome:
  assumes "k \<noteq> Chromecast" "\<not> oc_done s"
  shows "let s1 = teardown E s;
             s' = oc_step E s (OcCommand (Select k i));
             loaded = Option.bind (fst (run_blocking E ''pactl'' (build_loopback_args i) (oc_world s1)))
               (\<lambda>out. if success out then parse_loopback_module_id (stdout out) else None)
         in oc_loopback s' = loaded \<and> oc_cast s' = None \<and>
            os_active (st_output (app (oc_handle s'))) =
              map_option (\<lambda>_. case find_device (oc_available s) k i of Some d \<Rightarrow> d
                | None \<Rightarrow> \<lparr>dev_kind = k, dev_id = i, dev_name = i, dev_addr = None, dev_port = None\<rparr>)
                loaded"
proof -
  have "handle_command E (Select k i) s
      = publish_output (route_to_sink E k i ((teardown E s)\<lparr>oc_health := None\<rparr>))"
    using assms(1) by (cases k) auto
  moreover have "teardown_loopback E ((teardown E s)\<lparr>oc_health := None\<rparr>) = (teardown E s)\<lparr>oc_health := None\<rparr>"
    by (simp add: teardown_loopback_def)
  ultimately show ?thesis using assms(2)
    by (auto simp: route_to_sink_def Let_def split: prod.splits option.splits)
qed

text \<open>
  A dead cast is not shown as active.  At the first refresh after the session task has
  exited, the published state has no active output and the health "lost".
\<close>

theorem dead_cast_is_cleared:
  assumes "\<not> oc_done s" "oc_cast s = Some c" "finished (cr_id c)"
  shows "let u = st_output (app (oc_handle (oc_step E s (OcTick finished)))) in
    os_active u = None \<and> os_cast_health u = Some CastLost"
  using assms by (simp add: refresh_def reap_cast_def Let_def split: prod.splits)

definition demo_oc_env :: "nat oc_env" where
  "demo_oc_env = \<lparr>oe_run = (\<lambda>n _ _. (Inr \<lparr>status = 0, stdout = show_nat n @ [CHR 0x0A], stderr = []\<rparr>, n + 1)),
     oe_cancelled = (\<lambda>_. False), oe_lan_ip = ''10.0.0.2'', oe_bind_port = 8080\<rparr>"

definition demo_cast :: cast_ref where
  "demo_cast = \<lparr>cr_id = 0, cr_addr = ''10.0.0.9'', cr_port = 8009, cr_url = ''u''\<rparr>"

definition demo_oc :: "nat oc" where
  "demo_oc = \<lparr>oc_available = no_outputs, oc_active = None, oc_loopback = None,
     oc_cast = Some demo_cast, oc_health = Some CastConnecting, oc_raop = None, oc_next_cast = 1,
     cast_log = [StartCast demo_cast], oc_handle = new_handle, oc_world = 7, oc_done = False\<rparr>"

theorem select_sink_outcome_witness:
  "let s1 = teardown demo_oc_env demo_oc;
       s' = oc_step demo_oc_env demo_oc (OcCommand (Select Soundcard ''hifi''));
       loaded = Option.bind (fst (run_blocking demo_oc_env ''pactl'' (build_loopback_args ''hifi'') (oc_world s1)))
         (\<lambda>out. if success out then parse_loopback_module_id (stdout out) else None)
   in oc_loopback s' = loaded \<and> oc_cast s' = None \<and>
      os_active (st_output (app (oc_handle s'))) =
        map_option (\<lambda>_. case find_device (oc_available demo_oc) Soundcard ''hifi'' of Some d \<Rightarrow> d
          | None \<Rightarrow> \<lparr>dev_kind = Soundcard, dev_id = ''hifi'', dev_name = ''hifi'', dev_addr = None,
              dev_port = None\<rparr>) loaded"
  by (rule select_sink_outcome) (simp_all add: demo_oc_def)

theorem dead_cast_is_cleared_witness:
  "let u = st_output (app (oc_handle (oc_step demo_oc_env demo_oc (OcTick (\<lambda>_. True))))) in
    os_active u = None \<and> os_cast_health u = Some CastLost"
  by (rule dead_cast_is_cleared) (simp_all add: demo_oc_def)

end
