(* ===== verification/PwGraph.thy ===== *)
theory PwGraph
  imports Equalizer Discovery Machine
begin

text \<open>
  The PipeWire graph as the program sees and changes it: the parsers of pactl and wpctl
  output (src/src/audio/pw/parse.rs), default-sink routing (routing.rs), the capture null sink
  and the sweep of its duplicates (null_sink.rs), the clock settings and the capture latency
  (quantum.rs), the capture command line (capture_cmd.rs) and graph events (events.rs).
\<close>

section \<open>Parsers\<close>

text \<open>The loop over the lines, with \<open>current_id\<close> and \<open>is_null_sink\<close>.\<close>

fun null_sink_scan :: "string \<Rightarrow> nat option \<Rightarrow> bool \<Rightarrow> string list \<Rightarrow> nat option" where
  "null_sink_scan sink_name cur isn [] = None"
| "null_sink_scan sink_name cur isn (l # ls) =
     (let t = trim l in
      case strip_prefix ''Module #'' t of
        Some rest \<Rightarrow> null_sink_scan sink_name (parse_u32 rest) False ls
      | None \<Rightarrow>
          if starts_with t ''Name:''
          then null_sink_scan sink_name cur (contains t ''module-null-sink'') ls
          else if starts_with t ''Argument:'' \<and> isn \<and> contains t sink_name then cur
          else null_sink_scan sink_name cur isn ls)"

definition parse_null_sink_module_id :: "string \<Rightarrow> string \<Rightarrow> nat option" where
  "parse_null_sink_module_id pactl_output sink_name =
     null_sink_scan sink_name None False (lines pactl_output)"

definition is_alnum :: "char \<Rightarrow> bool" where
  "is_alnum c \<longleftrightarrow> is_digit c \<or> (65 \<le> (of_char c :: nat) \<and> (of_char c :: nat) \<le> 90)
     \<or> (97 \<le> (of_char c :: nat) \<and> (of_char c :: nat) \<le> 122)"

definition is_name_char :: "char \<Rightarrow> bool" where
  "is_name_char c \<longleftrightarrow> is_alnum c \<or> c = CHR ''.'' \<or> c = CHR ''-'' \<or> c = CHR ''_''"

text \<open>
  The search loop of \<open>line_contains_node_token\<close>: \<open>a\<close> is the text before the position \<open>start\<close>
  and \<open>r\<close> the text from there.  The program never searches for an empty name (the loop would
  not end); here that search is false.
\<close>

definition unflanked :: "string \<Rightarrow> string \<Rightarrow> bool" where
  "unflanked before after \<longleftrightarrow> (before = [] \<or> \<not> is_name_char (last before))
     \<and> (after = [] \<or> \<not> is_name_char (hd after))"

function token_loop :: "string \<Rightarrow> string \<Rightarrow> string \<Rightarrow> bool" where
  "token_loop name a r =
     (if name = [] then False
      else case find_sub name r of
          None \<Rightarrow> False
        | Some pos \<Rightarrow>
            if unflanked (a @ take pos r) (drop (pos + length name) r) then True
            else token_loop name (a @ take (pos + length name) r) (drop (pos + length name) r))"
  by pat_completeness auto

lemma find_sub_length: "find_sub p s = Some i \<Longrightarrow> i + length p \<le> length s"
  by (induction p s arbitrary: i rule: find_sub.induct)
    (auto split: if_splits dest: prefix_length_le)

termination token_loop
proof (relation "measure (\<lambda>(name, a, r). length r)")
  fix name a r :: string and pos
  assume "name \<noteq> []" "find_sub name r = Some pos"
  then have "pos + length name \<le> length r" "0 < length name" by (auto dest: find_sub_length)
  then show "((name, a @ take (pos + length name) r, drop (pos + length name) r), name, a, r)
      \<in> measure (\<lambda>(name, a, r). length r)" by (cases name; cases r) auto
qed simp

declare token_loop.simps [simp del]

definition line_contains_node_token :: "string \<Rightarrow> string \<Rightarrow> bool" where
  "line_contains_node_token line name = token_loop name [] line"

definition null_sink_id_of_line :: "string \<Rightarrow> string \<Rightarrow> nat option" where
  "null_sink_id_of_line needle line =
     (case split_on CHR 0x09 line of
        id_field # name_field # args_field # _ \<Rightarrow>
          if trim name_field \<noteq> ''module-null-sink'' then None
          else if \<not> line_contains_node_token args_field needle then None
          else parse_u32 (trim id_field)
      | _ \<Rightarrow> None)"

definition parse_all_null_sink_module_ids :: "string \<Rightarrow> string \<Rightarrow> nat list" where
  "parse_all_null_sink_module_ids short_modules_output sink_name =
     List.map_filter (null_sink_id_of_line (''sink_name='' @ sink_name)) (lines short_modules_output)"

fun wpctl_scan :: "string \<Rightarrow> string list \<Rightarrow> nat option" where
  "wpctl_scan node_name [] = None"
| "wpctl_scan node_name (l # ls) =
     (if line_contains_node_token l node_name
      then (case split_once CHR ''.'' (dropWhile (\<lambda>c. \<not> is_digit c) (trim l)) of
              None \<Rightarrow> wpctl_scan node_name ls
            | Some (before, _) \<Rightarrow>
                (case parse_u32 (trim before) of
                   Some i \<Rightarrow> Some i
                 | None \<Rightarrow> wpctl_scan node_name ls))
      else wpctl_scan node_name ls)"

definition find_wpctl_node_id :: "string \<Rightarrow> string \<Rightarrow> nat option" where
  "find_wpctl_node_id status_output node_name = wpctl_scan node_name (lines status_output)"

section \<open>Routing\<close>

datatype default_sink_set = Pactl | Wpctl nat

definition set_default_sink :: "'w runner \<Rightarrow> string \<Rightarrow> 'w \<Rightarrow> (string + default_sink_set) \<times> 'w" where
  "set_default_sink r sink_name w =
     (case r w ''pactl'' [''set-default-sink'', sink_name] of (res, w1) \<Rightarrow>
      if (case res of Inr out \<Rightarrow> success out | Inl _ \<Rightarrow> False) then (Inr Pactl, w1)
      else case r w1 ''wpctl'' [''status''] of
          (Inl e, w2) \<Rightarrow> (Inl (''wpctl status failed: '' @ err_msg e), w2)
        | (Inr st, w2) \<Rightarrow>
            if \<not> success st
            then (Inl (''cannot set default sink '' @ sink_name
                       @ '': pactl failed and `wpctl status` failed''), w2)
            else (case find_wpctl_node_id (stdout st) sink_name of
                    None \<Rightarrow> (Inl (sink_name @ '' not found in `wpctl status`''), w2)
                  | Some i \<Rightarrow>
                      (case r w2 ''wpctl'' [''set-default'', show_nat i] of
                         (Inl e, w3) \<Rightarrow> (Inl (''wpctl set-default failed: '' @ err_msg e), w3)
                       | (Inr out, w3) \<Rightarrow>
                           if success out then (Inr (Wpctl i), w3)
                           else (Inl (''`wpctl set-default '' @ show_nat i @ ''` failed: ''
                                      @ trim (stderr out)), w3))))"

definition unload_module :: "'w runner \<Rightarrow> nat \<Rightarrow> 'w \<Rightarrow> (string + unit) \<times> 'w" where
  "unload_module r module_id w =
     (case r w ''pactl'' [''unload-module'', show_nat module_id] of
        (Inl e, w') \<Rightarrow> (Inl (''failed to run pactl: '' @ err_msg e), w')
      | (Inr out, w') \<Rightarrow>
          (if success out then Inr ()
           else Inl (''unload-module '' @ show_nat module_id @ '' failed: '' @ trim (stderr out)), w'))"

section \<open>The null sink\<close>

definition MAX_ATTEMPTS :: nat where "MAX_ATTEMPTS = 10"

record null_sink =
  ns_module_id :: "nat option"
  ns_reused :: bool

definition find_existing :: "'w runner \<Rightarrow> string \<Rightarrow> 'w \<Rightarrow> nat option \<times> 'w" where
  "find_existing r sink_name w =
     (case r w ''pactl'' [''list'', ''modules''] of
        (Inl _, w') \<Rightarrow> (None, w')
      | (Inr out, w') \<Rightarrow>
          (if \<not> success out then None else parse_null_sink_module_id (stdout out) sink_name, w'))"

text \<open>
  The attempts to load the module, from \<open>attempt\<close> on with \<open>n\<close> of them left: an error of the
  runner, or whether it was loaded with the id when parseable and the last error text.
\<close>

fun load_attempts ::
    "'w runner \<Rightarrow> 'w timer \<Rightarrow> string list \<Rightarrow> nat \<Rightarrow> nat \<Rightarrow> string \<Rightarrow> 'w
      \<Rightarrow> (string + bool \<times> nat option \<times> string) \<times> 'w" where
  "load_attempts r t args 0 attempt last_err w = (Inr (False, None, last_err), w)"
| "load_attempts r t args (Suc n) attempt last_err w =
     (case r w ''pactl'' args of
        (Inl e, w1) \<Rightarrow> (Inl (''failed to run pactl: '' @ err_msg e), w1)
      | (Inr out, w1) \<Rightarrow>
          if success out then (Inr (True, parse_u32 (trim (stdout out)), last_err), w1)
          else load_attempts r t args n (Suc attempt) (trim (stderr out))
                 (if attempt < MAX_ATTEMPTS then sleep t (secs (min attempt 5)) w1 else w1))"

definition load_null_sink_args :: "string \<Rightarrow> string \<Rightarrow> string list" where
  "load_null_sink_args sink_name description =
     [''load-module'', ''module-null-sink'', ''sink_name='' @ sink_name,
      ''sink_properties=device.description='' @ description]"

definition debug_opt :: "nat option \<Rightarrow> string" where
  "debug_opt x = (case x of None \<Rightarrow> ''None'' | Some n \<Rightarrow> ''Some('' @ show_nat n @ '')'')"

definition create_null_sink ::
    "'w runner \<Rightarrow> 'w timer \<Rightarrow> string \<Rightarrow> string \<Rightarrow> 'w \<Rightarrow> (string + null_sink) \<times> 'w" where
  "create_null_sink r t sink_name description w =
     (case load_attempts r t (load_null_sink_args sink_name description) MAX_ATTEMPTS 1 [] w of
        (Inl e, w1) \<Rightarrow> (Inl e, w1)
      | (Inr (loaded_by_us, module_id, last_err), w1) \<Rightarrow>
          (case r w1 ''pactl'' [''list'', ''short'', ''sinks''] of
             (Inl e, w2) \<Rightarrow> (Inl (''failed to run pactl for verification: '' @ err_msg e), w2)
           | (Inr verify, w2) \<Rightarrow>
               if success verify \<and> contains (stdout verify) sink_name
               then (case module_id of
                       Some i \<Rightarrow>
                         (Inr \<lparr>ns_module_id = Some i, ns_reused = (\<not> loaded_by_us)\<rparr>, w2)
                     | None \<Rightarrow>
                         (case find_existing r sink_name w2 of (i, w3) \<Rightarrow>
                           (Inr \<lparr>ns_module_id = i, ns_reused = (\<not> loaded_by_us)\<rparr>, w3)))
               else if loaded_by_us
               then (Inl (''null sink '' @ sink_name @ '' was loaded (module '' @ debug_opt module_id
                          @ '') but did not appear in `pactl list short sinks`''), w2)
               else (Inl (''null sink '' @ sink_name @ '' not created after ''
                          @ show_nat MAX_ATTEMPTS @ '' attempts; last error: '' @ last_err), w2)))"

definition ensure_null_sink ::
    "'w runner \<Rightarrow> 'w timer \<Rightarrow> string \<Rightarrow> string \<Rightarrow> 'w \<Rightarrow> (string + null_sink) \<times> 'w" where
  "ensure_null_sink r t sink_name description w =
     (case find_existing r sink_name w of
        (None, w1) \<Rightarrow> create_null_sink r t sink_name description w1
      | (Some i, w1) \<Rightarrow>
          (case r w1 ''pactl'' [''list'', ''short'', ''sinks''] of
             (Inl _, w2) \<Rightarrow> (Inr \<lparr>ns_module_id = Some i, ns_reused = True\<rparr>, w2)
           | (Inr out, w2) \<Rightarrow>
               if success out \<and> contains (stdout out) sink_name
               then (Inr \<lparr>ns_module_id = Some i, ns_reused = True\<rparr>, w2)
               else if success out
               then create_null_sink r t sink_name description (snd (unload_module r i w2))
               else (Inr \<lparr>ns_module_id = Some i, ns_reused = True\<rparr>, w2)))"

fun unload_others :: "'w runner \<Rightarrow> nat \<Rightarrow> nat list \<Rightarrow> nat \<Rightarrow> 'w \<Rightarrow> nat \<times> 'w" where
  "unload_others r canonical [] unloaded w = (unloaded, w)"
| "unload_others r canonical (i # is) unloaded w =
     (if i = canonical then unload_others r canonical is unloaded w
      else case unload_module r i w of
          (Inr _, w') \<Rightarrow> unload_others r canonical is (Suc unloaded) w'
        | (Inl _, w') \<Rightarrow> unload_others r canonical is unloaded w')"

definition sweep_duplicate_null_sinks :: "'w runner \<Rightarrow> string \<Rightarrow> nat \<Rightarrow> 'w \<Rightarrow> nat \<times> 'w" where
  "sweep_duplicate_null_sinks r sink_name canonical w =
     (case r w ''pactl'' [''list'', ''short'', ''modules''] of
        (Inl _, w') \<Rightarrow> (0, w')
      | (Inr out, w') \<Rightarrow>
          if success out
          then unload_others r canonical (parse_all_null_sink_module_ids (stdout out) sink_name) 0 w'
          else (0, w'))"

section \<open>Clock settings and capture\<close>

definition DEFAULT_QUANTUM :: nat where "DEFAULT_QUANTUM = 1024"
definition DEFAULT_RATE :: nat where "DEFAULT_RATE = 48000"

record pw_quantum =
  quantum :: nat
  rate :: nat

text \<open>\<open>u64::div_ceil\<close>, then the cast to \<open>u32\<close>.\<close>

definition capture_latency_ms :: "pw_quantum \<Rightarrow> nat" where
  "capture_latency_ms pw =
     (let rt = (if rate pw = 0 then DEFAULT_RATE else rate pw)
      in max ((2 * quantum pw * 1000 + (rt - 1)) div rt mod 2 ^ 32) 50)"

text \<open>
  The first line that mentions the key decides: the text after the first \<open>value:'\<close> up to the
  next quote.
\<close>

fun pw_setting_scan :: "string \<Rightarrow> string list \<Rightarrow> nat option" where
  "pw_setting_scan key_pat [] = None"
| "pw_setting_scan key_pat (l # ls) =
     (if contains l key_pat
      then (case split_once_str (''value:'' @ [CHR 0x27]) l of
              None \<Rightarrow> None
            | Some (_, after) \<Rightarrow>
                (case split_once_str (''value:'' @ [CHR 0x27]) after of
                   Some (piece, _) \<Rightarrow> parse_u32 (trim (hd (split_on CHR 0x27 piece)))
                 | None \<Rightarrow> parse_u32 (trim (hd (split_on CHR 0x27 after)))))
      else pw_setting_scan key_pat ls)"

definition parse_pw_setting :: "string \<Rightarrow> string \<Rightarrow> nat option" where
  "parse_pw_setting output key =
     pw_setting_scan (''key:'' @ [CHR 0x27] @ key @ [CHR 0x27]) (lines output)"

definition or_default :: "nat option \<Rightarrow> nat \<Rightarrow> nat" where
  "or_default x d = (case x of Some v \<Rightarrow> v | None \<Rightarrow> d)"

definition probe_quantum :: "'w runner \<Rightarrow> 'w \<Rightarrow> pw_quantum \<times> 'w" where
  "probe_quantum r w =
     (case r w ''pw-metadata'' [''-n'', ''settings''] of
        (Inl _, w') \<Rightarrow> (\<lparr>quantum = DEFAULT_QUANTUM, rate = DEFAULT_RATE\<rparr>, w')
      | (Inr out, w') \<Rightarrow>
          (if success out
           then \<lparr>quantum = or_default (parse_pw_setting (stdout out) ''clock.quantum'') DEFAULT_QUANTUM,
                 rate = or_default (parse_pw_setting (stdout out) ''clock.rate'') DEFAULT_RATE\<rparr>
           else \<lparr>quantum = DEFAULT_QUANTUM, rate = DEFAULT_RATE\<rparr>, w'))"

datatype capture_source = NullSinkMonitor string | BluetoothDirect string | DefaultSource
datatype capture_tool = Parec | PwCat

definition CHANNELS :: nat where "CHANNELS = 2"
definition SAMPLE_RATE :: nat where "SAMPLE_RATE = 48000"

fun parec_device :: "capture_source \<Rightarrow> string" where
  "parec_device (NullSinkMonitor name) = name @ ''.monitor''"
| "parec_device (BluetoothDirect name) = name"
| "parec_device DefaultSource = ''@DEFAULT_MONITOR@''"

fun pw_cat_target :: "capture_source \<Rightarrow> string list" where
  "pw_cat_target (NullSinkMonitor name) = [''--target'', name]"
| "pw_cat_target (BluetoothDirect name) = [''--target'', name]"
| "pw_cat_target DefaultSource = []"

fun build_capture_command :: "capture_tool \<Rightarrow> capture_source \<Rightarrow> nat \<Rightarrow> command_line" where
  "build_capture_command Parec source latency_ms =
     \<lparr>cmd_program = ''parec'',
      cmd_args = [''--raw'', ''--format=float32'', ''--channels='' @ show_nat CHANNELS,
                  ''--rate='' @ show_nat SAMPLE_RATE, ''--device='' @ parec_device source,
                  ''--latency-msec='' @ show_nat latency_ms]\<rparr>"
| "build_capture_command PwCat source latency_ms =
     \<lparr>cmd_program = ''pw-cat'',
      cmd_args = [''--format'', ''f32'', ''--channels'', show_nat CHANNELS, ''--rate'',
                  show_nat SAMPLE_RATE, ''-r''] @ pw_cat_target source @ [''-'']\<rparr>"

section \<open>Graph events\<close>

datatype graph_event = Sink | Server

definition parse_pactl_event :: "string \<Rightarrow> graph_event option" where
  "parse_pactl_event line =
     (case strip_prefix ''Event '' (trim line) of
        None \<Rightarrow> None
      | Some rest \<Rightarrow>
          (case split_once_str '' on '' rest of
             None \<Rightarrow> None
           | Some (_, t) \<Rightarrow>
               let target = trim t in
               if target = ''server'' then Some Server
               else if target = ''sink'' \<or> starts_with target ''sink #'' then Some Sink
               else None))"

text \<open>
  The event source over the lines it reads: what is forwarded.  \<open>accept\<close> tells whether the
  receiver still takes the \<open>n\<close>-th event; when it does not, the source stops.
\<close>

fun event_source_lines :: "(nat \<Rightarrow> bool) \<Rightarrow> nat \<Rightarrow> string list \<Rightarrow> graph_event list" where
  "event_source_lines accept n [] = []"
| "event_source_lines accept n (l # ls) =
     (case parse_pactl_event l of
        None \<Rightarrow> event_source_lines accept n ls
      | Some ev \<Rightarrow> if accept n then ev # event_source_lines accept (Suc n) ls else [])"

section \<open>Lemmas on token matching\<close>

lemma find_sub_split:
  "find_sub p s = Some i \<Longrightarrow> s = take i s @ p @ drop (i + length p) s"
proof -
  assume a: "find_sub p s = Some i"
  then have "prefix p (drop i s)" by (simp add: find_sub_Some)
  then obtain z where z: "drop i s = p @ z" by (auto simp: prefix_def)
  then have "drop (i + length p) s = z"
    by (metis add.commute append_eq_conv_conj drop_drop)
  then show ?thesis using z append_take_drop_id[of i s] by simp
qed

lemma token_loop_sound:
  "token_loop name a r \<Longrightarrow> \<exists>b c. r = b @ name @ c \<and> unflanked (a @ b) c"
proof (induction name a r rule: token_loop.induct)
  case (1 name a r)
  obtain pos where pos: "name \<noteq> []" "find_sub name r = Some pos"
    using "1.prems" by (subst (asm) token_loop.simps) (auto split: if_splits option.splits)
  show ?case
  proof (cases "unflanked (a @ take pos r) (drop (pos + length name) r)")
    case True
    then show ?thesis using find_sub_split[OF pos(2)] by blast
  next
    case False
    then have "token_loop name (a @ take (pos + length name) r) (drop (pos + length name) r)"
      using "1.prems" pos by (simp add: token_loop.simps[of name a r])
    from "1.IH"[OF pos False this]
    obtain b c where bc: "drop (pos + length name) r = b @ name @ c"
      "unflanked ((a @ take (pos + length name) r) @ b) c" by blast
    then have "r = (take (pos + length name) r @ b) @ name @ c"
      by (metis append.assoc append_take_drop_id)
    then show ?thesis using bc(2) by (metis append.assoc)
  qed
qed

text \<open>
  The search skips a whole match, so it could miss an occurrence that overlaps a flanked one.
  That needs a name that, after a character that is not a name character, repeats its own
  beginning.
\<close>

definition self_delimiting :: "string \<Rightarrow> bool" where
  "self_delimiting name \<longleftrightarrow> name \<noteq> [] \<and>
     list_all (\<lambda>k. is_name_char (name ! (k - 1)) \<or> \<not> prefix (drop k name) name) [1..<length name]"

lemma self_delimitingD:
  "self_delimiting name \<Longrightarrow> 0 < k \<Longrightarrow> k < length name \<Longrightarrow> \<not> is_name_char (name ! (k - 1)) \<Longrightarrow>
     \<not> prefix (drop k name) name"
  by (auto simp: self_delimiting_def list_all_iff)

lemma token_loop_complete:
  assumes "self_delimiting name" "r = b @ name @ c" "unflanked (a @ b) c"
  shows "token_loop name a r"
  using assms
proof (induction name a r arbitrary: b rule: token_loop.induct)
  case (1 name a r)
  have ne: "name \<noteq> []" using "1.prems"(1) by (simp add: self_delimiting_def)
  have at: "prefix name (drop (length b) r)" using "1.prems"(2) by simp
  obtain pos where pos: "find_sub name r = Some pos"
    using find_sub_None[of name r "length b"] at by (cases "find_sub name r") auto
  have split: "r = take pos r @ name @ drop (pos + length name) r" by (rule find_sub_split[OF pos])
  have le: "pos \<le> length b"
    using find_sub_least[OF pos, of "length b"] at by (meson not_le)
  show ?case
  proof (cases "unflanked (a @ take pos r) (drop (pos + length name) r)")
    case True
    then show ?thesis using ne pos by (simp add: token_loop.simps[of name a r])
  next
    case False
    have "pos \<noteq> length b" using False "1.prems"(2,3) by auto
    then have lt: "pos < length b" using le by simp
    have far: "pos + length name \<le> length b"
    proof (rule ccontr)
      assume "\<not> ?thesis"
      then have k: "0 < length b - pos" "length b - pos < length name" using lt by simp_all
      have "prefix name (drop pos r)" using find_sub_Some[OF pos] by simp
      then obtain z where "drop pos r = name @ z" by (auto simp: prefix_def)
      then have dr: "drop (length b - pos) (drop pos r) = drop (length b - pos) name @ z"
        using k by simp
      then have "prefix (drop (length b - pos) name) (drop (length b) r)" using lt by simp
      then have "prefix (drop (length b - pos) name) name"
        using at k(2) by (metis length_drop diff_le_self prefix_length_prefix)
      moreover have "name ! (length b - pos - 1) = last (a @ b)"
      proof -
        have "drop pos r ! (length b - pos - 1) = name ! (length b - pos - 1)"
        proof -
          have "length b - pos - 1 < length name" using k by linarith
          then show ?thesis using \<open>drop pos r = name @ z\<close> by (simp only: nth_append if_True)
        qed
        moreover have "drop pos r ! (length b - pos - 1) = r ! (length b - 1)"
        proof -
          have "pos \<le> length r" "pos + (length b - pos - 1) = length b - 1"
            using find_sub_Some[OF pos] lt by simp_all
          then show ?thesis by (simp only: nth_drop)
        qed
        moreover have "r ! (length b - 1) = last (a @ b)"
          using lt "1.prems"(2) by (cases b rule: rev_cases) (auto simp: nth_append)
        ultimately show ?thesis by simp
      qed
      moreover have "\<not> is_name_char (last (a @ b))"
        using "1.prems"(3) lt by (auto simp: unflanked_def)
      ultimately show False using self_delimitingD[OF "1.prems"(1) k] by simp
    qed
    let ?n = "pos + length name"
    have "drop ?n r = drop ?n b @ name @ c" "take ?n r @ drop ?n b = b"
      using far "1.prems"(2) by simp_all
    then have "token_loop name (a @ take ?n r) (drop ?n r)"
      using "1.IH"[OF ne pos False, of "drop ?n b"] "1.prems"(1,3) by simp
    then show ?thesis using ne pos by (simp add: token_loop.simps[of name a r])
  qed
qed

lemma token_match_iff:
  assumes "self_delimiting name"
  shows "line_contains_node_token l name \<longleftrightarrow> (\<exists>b c. l = b @ name @ c \<and> unflanked b c)"
  using token_loop_sound[of name "[]" l] token_loop_complete[OF assms, of l _ _ "[]"]
  by (auto simp: line_contains_node_token_def)

section \<open>Lemmas on the null sink\<close>

definition is_unload :: "call \<Rightarrow> bool" where
  "is_unload c \<longleftrightarrow> take 1 (call_args c) = [''unload-module'']"

definition is_null_load :: "call \<Rightarrow> bool" where
  "is_null_load c \<longleftrightarrow> take 2 (call_args c) = [''load-module'', ''module-null-sink'']"

definition succeeded :: "call \<Rightarrow> bool" where
  "succeeded c = (case call_res c of Inr out \<Rightarrow> success out | Inl _ \<Rightarrow> False)"

text \<open>
  The caution about a live sink, as a protocol on the command log: a module may be unloaded or
  loaded only when the last listing of the sinks succeeded without the sink, or when no module
  of the sink was found in the first place.
\<close>

datatype sink_knowledge = Unknown | Absent | Maybe

definition sink_protocol :: "string \<Rightarrow> sink_knowledge \<Rightarrow> call \<Rightarrow> sink_knowledge option" where
  "sink_protocol sink_name k c =
     (if is_unload c \<or> is_null_load c then (if k = Absent then Some Absent else None)
      else if k = Unknown \<and> call_args c = [''list'', ''modules'']
      then Some (case call_res c of
          Inr out \<Rightarrow> if success out \<and> parse_null_sink_module_id (stdout out) sink_name \<noteq> None
                    then Maybe else Absent
        | Inl _ \<Rightarrow> Absent)
      else if k = Maybe \<and> call_args c = [''list'', ''short'', ''sinks'']
      then Some (case call_res c of
          Inr out \<Rightarrow> if success out \<and> \<not> contains (stdout out) sink_name then Absent else Maybe
        | Inl _ \<Rightarrow> Maybe)
      else Some k)"

lemma protocol_calls:
  "sink_protocol s Absent \<lparr>call_prog = p, call_args = a, call_res = res\<rparr> = Some Absent"
  by (simp add: sink_protocol_def)

lemma load_attempts_log:
  assumes "load_attempts (logged r) t args n att le w = (res, w')" "take 2 args = [''load-module'', ''module-null-sink'']"
    and "\<And>d w. fst (sleep t d w) = fst w"
    and "track (sink_protocol s) k0 (fst w) = Some Absent"
  shows "track (sink_protocol s) k0 (fst w') = Some Absent
    \<and> (\<exists>log. fst w' = fst w @ log \<and> length log \<le> n \<and> (\<forall>c \<in> set log. is_null_load c)
        \<and> (case res of Inr (by_us, i, e) \<Rightarrow> by_us = (\<exists>c \<in> set log. succeeded c)
                     | Inl _ \<Rightarrow> True))"
  using assms(1,4)
proof (induction n arbitrary: att le w)
  case 0
  then show ?case by (cases res) auto
next
  case (Suc n)
  obtain res1 w1 where r: "logged r w ''pactl'' args = (res1, w1)"
    by (cases "logged r w ''pactl'' args")
  let ?c = "\<lparr>call_prog = ''pactl'', call_args = args, call_res = res1\<rparr>"
  have w1: "fst w1 = fst w @ [?c]" using r by (auto simp: logged_def split: prod.splits)
  have c: "is_null_load ?c" using assms(2) by (simp add: is_null_load_def)
  have tr: "track (sink_protocol s) k0 (fst w1) = Some Absent"
    using w1 Suc.prems(2) by (simp add: protocol_calls)
  show ?case
  proof (cases "\<exists>out. res1 = Inr out \<and> \<not> success out")
    case False
    then show ?thesis using Suc.prems(1) r w1 c tr
      by (cases res1) (auto intro!: exI[of _ "[?c]"] simp: succeeded_def)
  next
    case True
    then obtain out where out: "res1 = Inr out" "\<not> success out" by blast
    let ?w = "if att < MAX_ATTEMPTS then sleep t (secs (min att 5)) w1 else w1"
    have fw: "fst ?w = fst w1" using assms(3) by simp
    have "load_attempts (logged r) t args n (Suc att) (trim (stderr out)) ?w = (res, w')"
      using Suc.prems(1) r out by simp
    from Suc.IH[OF this] obtain log where log: "track (sink_protocol s) k0 (fst w') = Some Absent"
      "fst w' = fst w1 @ log" "length log \<le> n" "\<forall>c \<in> set log. is_null_load c"
      "case res of Inr (by_us, i, e) \<Rightarrow> by_us = (\<exists>c \<in> set log. succeeded c) | Inl _ \<Rightarrow> True"
      using tr fw by auto
    have "\<not> succeeded ?c" using out by (simp add: succeeded_def)
    then have "fst w' = fst w @ (?c # log) \<and> length (?c # log) \<le> Suc n
        \<and> (\<forall>c \<in> set (?c # log). is_null_load c)
        \<and> (case res of Inr (by_us, i, e) \<Rightarrow> by_us = (\<exists>c \<in> set (?c # log). succeeded c) | Inl _ \<Rightarrow> True)"
      using log w1 c by (auto split: sum.splits)
    then show ?thesis using log(1) by blast
  qed
qed

lemma logged_eq:
  "logged r w p as = (res, w') \<Longrightarrow>
     fst w' = fst w @ [\<lparr>call_prog = p, call_args = as, call_res = res\<rparr>]"
  by (auto simp: logged_def split: prod.splits)

text \<open>What a command log shows of a creation: the loads, then listings only.\<close>

lemma create_null_sink_log:
  assumes c: "create_null_sink (logged r) t s d w = (res, w')"
    and sl: "\<And>d w. fst (sleep t d w) = fst w"
    and tr: "track (sink_protocol s) Unknown (fst w) = Some Absent"
  shows "\<exists>log. fst w' = fst w @ log \<and> track (sink_protocol s) Unknown (fst w') = Some Absent
    \<and> length (filter is_null_load log) \<le> MAX_ATTEMPTS
    \<and> (case res of Inr ns \<Rightarrow> ns_reused ns = (\<forall>c \<in> set log. is_null_load c \<longrightarrow> \<not> succeeded c)
        | Inl _ \<Rightarrow> True)"
proof -
  obtain lres w1 where l: "load_attempts (logged r) t (load_null_sink_args s d) MAX_ATTEMPTS 1 [] w
      = (lres, w1)" by (cases "load_attempts (logged r) t (load_null_sink_args s d) MAX_ATTEMPTS 1 [] w")
  have "take 2 (load_null_sink_args s d) = [''load-module'', ''module-null-sink'']"
    by (simp add: load_null_sink_args_def)
  from load_attempts_log[OF l this sl tr]
  obtain log where log: "track (sink_protocol s) Unknown (fst w1) = Some Absent"
    "fst w1 = fst w @ log" "length log \<le> MAX_ATTEMPTS" "\<forall>c \<in> set log. is_null_load c"
    "case lres of Inr (by_us, i, e) \<Rightarrow> by_us = (\<exists>c \<in> set log. succeeded c) | Inl _ \<Rightarrow> True"
    by blast
  have loads: "filter is_null_load log = log" using log(4) by (simp add: filter_id_conv)
  have quiet: "\<not> is_null_load \<lparr>call_prog = p, call_args = ''list'' # a, call_res = cr\<rparr>" for p a cr
    by (simp add: is_null_load_def)
  show ?thesis
  proof (cases lres)
    case (Inl e)
    then show ?thesis using c l log loads by (auto simp: create_null_sink_def)
  next
    case (Inr q)
    obtain by_us mid le where q: "q = (by_us, mid, le)" by (cases q)
    have by_us: "by_us = (\<exists>c \<in> set log. succeeded c)" using log(5) Inr q by simp
    obtain vres w2 where v: "logged r w1 ''pactl'' [''list'', ''short'', ''sinks''] = (vres, w2)"
      by (cases "logged r w1 ''pactl'' [''list'', ''short'', ''sinks'']")
    let ?c2 = "\<lparr>call_prog = ''pactl'', call_args = [''list'', ''short'', ''sinks''], call_res = vres\<rparr>"
    have w2: "fst w2 = fst w @ (log @ [?c2])" using logged_eq[OF v] log(2) by simp
    have t2: "track (sink_protocol s) Unknown (fst w2) = Some Absent"
      using log(1) logged_eq[OF v] by (simp add: protocol_calls)
    obtain fres w3 where f: "find_existing (logged r) s w2 = (fres, w3)"
      by (cases "find_existing (logged r) s w2")
    obtain mres where w3': "fst w3 = fst w2 @ [\<lparr>call_prog = ''pactl'',
        call_args = [''list'', ''modules''], call_res = mres\<rparr>]"
      using f by (auto simp: find_existing_def logged_def split: prod.splits sum.splits if_splits)
    then have w3: "fst w3 = fst w @ (log @ [?c2, \<lparr>call_prog = ''pactl'',
        call_args = [''list'', ''modules''], call_res = mres\<rparr>])"
      using w2 by simp
    have t3: "track (sink_protocol s) Unknown (fst w3) = Some Absent"
      using t2 w3' by (simp add: protocol_calls)
    have reuse: "(\<not> by_us) = (\<forall>c \<in> set (log @ more). is_null_load c \<longrightarrow> \<not> succeeded c)"
      if "\<forall>c \<in> set more. \<not> is_null_load c" for more
      using that by_us log(4) by auto
    have "w' = w2 \<or> w' = w3 \<and> (\<exists>i. res = Inr \<lparr>ns_module_id = i, ns_reused = (\<not> by_us)\<rparr>)"
      "\<And>ns. res = Inr ns \<Longrightarrow> ns_reused ns = (\<not> by_us)"
      using c l Inr q v f
      by (auto simp: create_null_sink_def split: sum.splits if_splits option.splits prod.splits)
    then show ?thesis
    proof (elim disjE conjE)
      assume "w' = w2" "\<And>ns. res = Inr ns \<Longrightarrow> ns_reused ns = (\<not> by_us)"
      then show ?thesis using w2 t2 reuse[of "[?c2]"] loads log(3) quiet
        by (intro exI[of _ "log @ [?c2]"]) (auto split: sum.splits)
    next
      assume "w' = w3" "\<And>ns. res = Inr ns \<Longrightarrow> ns_reused ns = (\<not> by_us)"
      then show ?thesis using w3 t3 reuse[of "[?c2, \<lparr>call_prog = ''pactl'',
          call_args = [''list'', ''modules''], call_res = mres\<rparr>]"] loads log(3) quiet
        by (intro exI[of _ "log @ [?c2, \<lparr>call_prog = ''pactl'',
          call_args = [''list'', ''modules''], call_res = mres\<rparr>]"]) (auto split: sum.splits)
    qed
  qed
qed

lemma unload_module_log:
  "\<exists>cres. fst (snd (unload_module (logged r) i w)) = fst w @ [\<lparr>call_prog = ''pactl'',
        call_args = [''unload-module'', show_nat i], call_res = cres\<rparr>]
     \<and> (\<exists>x. fst (unload_module (logged r) i w) = Inr x) = succeeded \<lparr>call_prog = ''pactl'',
        call_args = [''unload-module'', show_nat i], call_res = cres\<rparr>"
  by (cases "r (snd w) ''pactl'' [''unload-module'', show_nat i]")
    (auto simp: unload_module_def logged_def succeeded_def split: sum.splits)

definition logged_timer :: "'w timer \<Rightarrow> (call list \<times> 'w) timer" where
  "logged_timer t = \<lparr>now = (\<lambda>w. now t (snd w)), sleep = (\<lambda>d w. (fst w, sleep t d (snd w)))\<rparr>"

lemma logged_timer_sleep [simp]: "fst (sleep (logged_timer t) d w) = fst w"
  by (simp add: logged_timer_def)

definition ensure_ok :: "string \<Rightarrow> (string + null_sink) \<Rightarrow> call list \<Rightarrow> bool" where
  "ensure_ok s res lg \<longleftrightarrow> track (sink_protocol s) Unknown lg \<noteq> None
     \<and> length (filter is_null_load lg) \<le> MAX_ATTEMPTS
     \<and> (case res of Inr ns \<Rightarrow> ns_reused ns = (\<forall>c \<in> set lg. is_null_load c \<longrightarrow> \<not> succeeded c)
        | Inl _ \<Rightarrow> True)"

lemma ensure_ok_create:
  assumes "create_null_sink (logged r) (logged_timer t) s d w = (res, w')"
    and "track (sink_protocol s) Unknown (fst w) = Some Absent"
    and "\<forall>c \<in> set (fst w). \<not> is_null_load c"
  shows "ensure_ok s res (fst w')"
proof -
  obtain log where "fst w' = fst w @ log" "track (sink_protocol s) Unknown (fst w') = Some Absent"
    "length (filter is_null_load log) \<le> MAX_ATTEMPTS"
    "case res of Inr ns \<Rightarrow> ns_reused ns = (\<forall>c \<in> set log. is_null_load c \<longrightarrow> \<not> succeeded c)
        | Inl _ \<Rightarrow> True"
    using create_null_sink_log[OF assms(1) logged_timer_sleep assms(2)] by blast
  then show ?thesis using assms(3) by (auto simp: ensure_ok_def filter_empty_conv split: sum.splits)
qed

lemma ensure_ok_quiet:
  assumes "track (sink_protocol s) Unknown lg \<noteq> None" "\<forall>c \<in> set lg. \<not> is_null_load c"
    "\<And>ns. res = Inr ns \<Longrightarrow> ns_reused ns"
  shows "ensure_ok s res lg"
  using assms by (auto simp: ensure_ok_def split: sum.splits)

lemma ensure_null_sink_ok:
  assumes "ensure_null_sink (logged r) (logged_timer t) s d ([], w) = (res, w')"
  shows "ensure_ok s res (fst w')"
proof -
  obtain mres wa where a: "logged r ([], w) ''pactl'' [''list'', ''modules''] = (mres, wa)"
    by (cases "logged r ([], w) ''pactl'' [''list'', ''modules'']")
  let ?c1 = "\<lparr>call_prog = ''pactl'', call_args = [''list'', ''modules''], call_res = mres\<rparr>"
  have l1: "fst wa = [?c1]" using logged_eq[OF a] by simp
  define found where "found = (case mres of Inr out \<Rightarrow> if success out
      then parse_null_sink_module_id (stdout out) s else None | Inl _ \<Rightarrow> None)"
  have fe: "find_existing (logged r) s ([], w) = (found, wa)"
    using a by (auto simp: find_existing_def found_def split: sum.splits)
  have q1: "\<not> is_null_load ?c1" by (simp add: is_null_load_def)
  have t1: "track (sink_protocol s) Unknown [?c1] = Some (if found = None then Absent else Maybe)"
    by (auto simp: sink_protocol_def is_unload_def is_null_load_def found_def split: sum.splits)
  show ?thesis
  proof (cases found)
    case None
    then have "create_null_sink (logged r) (logged_timer t) s d wa = (res, w')"
      using assms fe by (simp add: ensure_null_sink_def)
    then show ?thesis using ensure_ok_create t1 l1 q1 None by fastforce
  next
    case (Some i)
    obtain vres wb where b: "logged r wa ''pactl'' [''list'', ''short'', ''sinks''] = (vres, wb)"
      by (cases "logged r wa ''pactl'' [''list'', ''short'', ''sinks'']")
    let ?c2 = "\<lparr>call_prog = ''pactl'', call_args = [''list'', ''short'', ''sinks''], call_res = vres\<rparr>"
    have l2: "fst wb = [?c1, ?c2]" using logged_eq[OF b] l1 by simp
    have q2: "\<not> is_null_load ?c2" by (simp add: is_null_load_def)
    define absent where "absent = (case vres of Inr out \<Rightarrow> success out \<and> \<not> contains (stdout out) s
      | Inl _ \<Rightarrow> False)"
    have t2: "track (sink_protocol s) Unknown [?c1, ?c2] = Some (if absent then Absent else Maybe)"
      using t1 Some by (auto simp: sink_protocol_def is_unload_def is_null_load_def absent_def
          split: sum.splits option.splits if_splits)
    show ?thesis
    proof (cases absent)
      case False
      then have "res = Inr \<lparr>ns_module_id = Some i, ns_reused = True\<rparr>" "w' = wb"
        using assms fe Some b by (auto simp: ensure_null_sink_def absent_def split: sum.splits if_splits)
      then show ?thesis using t2 l2 q1 q2 by (intro ensure_ok_quiet) auto
    next
      case True
      let ?wc = "snd (unload_module (logged r) i wb)"
      have cr: "create_null_sink (logged r) (logged_timer t) s d ?wc = (res, w')"
        using assms fe Some b True
        by (auto simp: ensure_null_sink_def absent_def split: sum.splits if_splits)
      obtain ures where l3: "fst ?wc = fst wb @ [\<lparr>call_prog = ''pactl'',
          call_args = [''unload-module'', show_nat i], call_res = ures\<rparr>]"
        using unload_module_log[of r i wb] by blast
      have "track (sink_protocol s) Unknown (fst ?wc) = Some Absent"
        using t2 l2 l3 True by (simp only: track_append) (simp add: protocol_calls)
      moreover have "\<forall>c \<in> set (fst ?wc). \<not> is_null_load c"
        using l2 l3 q1 q2 by (simp add: is_null_load_def)
      ultimately show ?thesis using ensure_ok_create[OF cr] by blast
    qed
  qed
qed

lemma unload_others_log:
  "unload_others (logged r) canonical is n w = (m, w') \<Longrightarrow>
     \<exists>log. fst w' = fst w @ log
       \<and> map call_args log = map (\<lambda>i. [''unload-module'', show_nat i]) (filter (\<lambda>i. i \<noteq> canonical) is)
       \<and> m = n + length (filter succeeded log)"
proof (induction "is" arbitrary: n w)
  case (Cons i "is")
  show ?case
  proof (cases "i = canonical")
    case False
    obtain ures w1 where u: "unload_module (logged r) i w = (ures, w1)"
      by (cases "unload_module (logged r) i w")
    obtain cres where c: "fst w1 = fst w @ [\<lparr>call_prog = ''pactl'',
        call_args = [''unload-module'', show_nat i], call_res = cres\<rparr>]"
      "(\<exists>x. ures = Inr x) = succeeded \<lparr>call_prog = ''pactl'',
        call_args = [''unload-module'', show_nat i], call_res = cres\<rparr>"
      using unload_module_log[of r i w] u by auto
    let ?n = "case ures of Inr _ \<Rightarrow> Suc n | Inl _ \<Rightarrow> n"
    have "unload_others (logged r) canonical is ?n w1 = (m, w')"
      using Cons.prems False u by (cases ures) auto
    from Cons.IH[OF this] obtain log where log: "fst w' = fst w1 @ log"
      "map call_args log = map (\<lambda>i. [''unload-module'', show_nat i]) (filter (\<lambda>i. i \<noteq> canonical) is)"
      "m = ?n + length (filter succeeded log)" by blast
    then show ?thesis using False c
      by (intro exI[of _ "\<lparr>call_prog = ''pactl'', call_args = [''unload-module'', show_nat i],
          call_res = cres\<rparr> # log"]) (cases ures; auto)
  qed (use Cons in simp)
qed simp

section \<open>Properties\<close>


text \<open>
  C20 (the sweep spares the canonical sink).  Apart from the listing, the sweep runs exactly one
  unload for each module of the sink other than the canonical one, in the order listed, and
  returns how many of them succeeded; a failing unload does not stop it.
\<close>

theorem sweep_spares_canonical:
  "case sweep_duplicate_null_sinks (logged r) s canonical ([], w) of (n, (calls, _)) \<Rightarrow>
     \<exists>listing unloads. calls = listing # unloads
       \<and> map call_args unloads = map (\<lambda>i. [''unload-module'', show_nat i])
           (filter (\<lambda>i. i \<noteq> canonical) (case call_res listing of
              Inr out \<Rightarrow> if success out then parse_all_null_sink_module_ids (stdout out) s else []
            | Inl _ \<Rightarrow> []))
       \<and> n = length (filter succeeded unloads)"
proof -
  obtain res w1 where l: "logged r ([], w) ''pactl'' [''list'', ''short'', ''modules''] = (res, w1)"
    by (cases "logged r ([], w) ''pactl'' [''list'', ''short'', ''modules'']")
  have w1: "fst w1 = [\<lparr>call_prog = ''pactl'', call_args = [''list'', ''short'', ''modules''], call_res = res\<rparr>]"
    using logged_eq[OF l] by simp
  show ?thesis
  proof (cases "\<exists>out. res = Inr out \<and> success out")
    case False
    then show ?thesis using l w1
      by (cases res) (auto simp: sweep_duplicate_null_sinks_def split: prod.splits)
  next
    case True
    then obtain out where out: "res = Inr out" "success out" by blast
    let ?ids = "parse_all_null_sink_module_ids (stdout out) s"
    obtain m w' where u: "unload_others (logged r) canonical ?ids 0 w1 = (m, w')"
      by (cases "unload_others (logged r) canonical ?ids 0 w1")
    from unload_others_log[OF u] show ?thesis using l w1 out u
      by (auto simp: sweep_duplicate_null_sinks_def split: prod.splits)
  qed
qed

text \<open>
  Node names match as whole tokens.  A line mentions a node exactly when the name occurs in
  it with no name character on either side, so a sink is never taken for its monitor.
\<close>

theorem node_token_iff:
  assumes "self_delimiting name"
  shows "line_contains_node_token l name \<longleftrightarrow>
    (\<exists>b c. l = b @ name @ c \<and> (b = [] \<or> \<not> is_name_char (last b)) \<and> (c = [] \<or> \<not> is_name_char (hd c)))"
  using token_match_iff[OF assms, of l] unfolding unflanked_def .

text \<open>
  The capture latency covers two periods.  Unless the cast to 32 bits truncates it, the
  latency is the least whole number of milliseconds that is at least 50 and at least two
  periods of the graph.
\<close>

theorem capture_latency_covers_two_periods:
  assumes "quantum pw < 2147483"
  shows "let rt = (if rate pw = 0 then DEFAULT_RATE else rate pw); ms = capture_latency_ms pw in
    50 \<le> ms \<and> 2 * quantum pw * 1000 \<le> ms * rt \<and> (ms = 50 \<or> (ms - 1) * rt < 2 * quantum pw * 1000)"
proof -
  define rt where "rt = (if rate pw = 0 then DEFAULT_RATE else rate pw)"
  define n where "n = 2 * quantum pw * 1000"
  define q where "q = (n + (rt - 1)) div rt"
  have rt: "0 < rt" by (simp add: rt_def DEFAULT_RATE_def)
  have up: "n \<le> q * rt"
  proof -
    have "q * rt + (n + (rt - 1)) mod rt = n + (rt - 1)" by (simp add: q_def)
    moreover have "(n + (rt - 1)) mod rt < rt" using rt by simp
    ultimately show ?thesis by linarith
  qed
  have lo: "q = 0 \<or> (q - 1) * rt < n"
  proof (cases q)
    case (Suc k)
    have "q * rt \<le> n + (rt - 1)" by (simp add: q_def)
    then show ?thesis using Suc rt by simp
  qed simp
  have "q \<le> n"
  proof (cases "q = 0")
    case False
    then have "(q - 1) * 1 \<le> (q - 1) * rt" "(q - 1) * rt < n" using rt lo by auto
    then show ?thesis by linarith
  qed simp
  then have "q < 2 ^ 32" using assms by (simp add: n_def)
  then have ms: "capture_latency_ms pw = max q 50"
    by (simp add: capture_latency_ms_def Let_def q_def n_def rt_def)
  have "n \<le> max q 50 * rt" using up by (metis le_trans max.cobounded1 mult_le_mono1)
  moreover have "max q 50 = 50 \<or> (max q 50 - 1) * rt < n" using lo by (auto simp: max_def)
  ultimately show ?thesis unfolding Let_def rt_def[symmetric] ms n_def[symmetric] by simp
qed

theorem capture_latency_truncates:
  "capture_latency_ms \<lparr>quantum = 2147484, rate = 1\<rparr> = 704"
  by (simp add: capture_latency_ms_def Let_def)

theorem node_token_iff_witness:
  "line_contains_node_token ''  *  45. soundsync-capture.monitor'' ''soundsync-capture'' \<longleftrightarrow>
    (\<exists>b c. ''  *  45. soundsync-capture.monitor'' = b @ ''soundsync-capture'' @ c
      \<and> (b = [] \<or> \<not> is_name_char (last b)) \<and> (c = [] \<or> \<not> is_name_char (hd c)))"
  by (rule node_token_iff)
    (simp add: self_delimiting_def is_name_char_def is_alnum_def is_digit_def upt_rec)

theorem capture_latency_covers_two_periods_witness:
  "let rt = (if rate \<lparr>quantum = 1024, rate = 48000\<rparr> = 0 then DEFAULT_RATE
             else rate \<lparr>quantum = 1024, rate = 48000\<rparr>);
       ms = capture_latency_ms \<lparr>quantum = 1024, rate = 48000\<rparr> in
    50 \<le> ms \<and> 2 * quantum \<lparr>quantum = 1024, rate = 48000\<rparr> * 1000 \<le> ms * rt
    \<and> (ms = 50 \<or> (ms - 1) * rt < 2 * quantum \<lparr>quantum = 1024, rate = 48000\<rparr> * 1000)"
  by (rule capture_latency_covers_two_periods) simp

end
