(* ===== verification/EqController.thy ===== *)
theory EqController
  imports State
begin

text \<open>
  The equaliser controller (src/src/audio/eq_controller.rs): it starts and stops the
  supervised filter chain, waits for its node, routes the default sink and sets gains.

  What the controller does to the rest of the program is recorded in \<open>eq_trace\<close>, in order:
  starting the supervisor, aborting it (and awaiting the abort), and sending the desired
  route.  The wait for the node is the loop of Equalizer; \<open>eq_stuck\<close> is set when it does not
  return.
\<close>

definition NULL_SINK_NAME :: string where "NULL_SINK_NAME = ''soundsync-capture''"
definition NULL_SINK_DESC :: string where "NULL_SINK_DESC = ''SoundSync-Capture''"
definition EQ_SINK_NAME :: string where "EQ_SINK_NAME = ''effect_input.soundsync-eq''"

record desired_route =
  default_sink :: string

definition default_desired_route :: desired_route where
  "default_desired_route = \<lparr>default_sink = NULL_SINK_NAME\<rparr>"

datatype eq_command = UpdateGains "flt list" | SetEnabled bool

datatype eq_action = SpawnSupervisor "eq_band list" filter_chain_tool | AbortSupervisor
  | SendRoute desired_route

record 'w eq_env =
  ee_run :: "'w runner"
  ee_timer :: "'w timer"
  ee_from_str :: json_parser

record 'w eqc =
  eq_gains :: "flt list"
  eq_sup :: bool
  eq_node :: "nat option"
  eq_tool :: filter_chain_tool
  eq_route :: desired_route
  eq_trace :: "eq_action list"
  eq_handle :: app_handle
  eq_world :: 'w
  eq_done :: bool
  eq_stuck :: bool

fun zip_gains :: "eq_band list \<Rightarrow> flt list \<Rightarrow> eq_band list" where
  "zip_gains (b # bs) (g # gs) = b\<lparr>gain_db := g\<rparr> # zip_gains bs gs"
| "zip_gains bs [] = bs"
| "zip_gains [] gs = []"

definition gains_to_bands :: "flt list \<Rightarrow> eq_band list" where
  "gains_to_bands gains = zip_gains default_bands gains"

definition clamp_eq_gain :: "flt \<Rightarrow> flt" where
  "clamp_eq_gain g = flt_clamp MIN_GAIN_DB MAX_GAIN_DB g"

text \<open>The loop that stores the clamped gains; both arrays have ten entries.\<close>

definition store_gains :: "flt list \<Rightarrow> flt list \<Rightarrow> flt list" where
  "store_gains gains new_gains =
     map (\<lambda>i. if i < length new_gains then clamp_eq_gain (new_gains ! i) else gains ! i)
       [0..<length gains]"

definition eqc_start :: "'w eq_env \<Rightarrow> desired_route \<Rightarrow> app_handle \<Rightarrow> 'w \<Rightarrow> 'w eqc" where
  "eqc_start E route h w =
     (case detect_filter_chain_tool (ee_run E) w of (tool, w1) \<Rightarrow>
       \<lparr>eq_gains = map gain_db default_bands, eq_sup = False, eq_node = None, eq_tool = tool,
        eq_route = route, eq_trace = [], eq_handle = h, eq_world = w1, eq_done = False,
        eq_stuck = False\<rparr>)"

definition act :: "eq_action \<Rightarrow> 'w eqc \<Rightarrow> 'w eqc" where
  "act a s = s\<lparr>eq_trace := eq_trace s @ [a]\<rparr>"

definition send_route :: "string \<Rightarrow> 'w eqc \<Rightarrow> 'w eqc" where
  "send_route sink s =
     act (SendRoute \<lparr>default_sink = sink\<rparr>) (s\<lparr>eq_route := \<lparr>default_sink = sink\<rparr>\<rparr>)"

definition abort_supervisor :: "'w eqc \<Rightarrow> 'w eqc" where
  "abort_supervisor s = (if eq_sup s then act AbortSupervisor (s\<lparr>eq_sup := False\<rparr>) else s)"

definition publish_eq :: "bool \<Rightarrow> 'w eqc \<Rightarrow> 'w eqc" where
  "publish_eq enabled s =
     s\<lparr>eq_handle := set_eq (eq_info_of enabled (gains_to_bands (eq_gains s))) (eq_handle s)\<rparr>"

text \<open>Apply the current gains to a node; a failure is only logged.\<close>

definition apply_gains :: "'w eq_env \<Rightarrow> nat option \<Rightarrow> 'w eqc \<Rightarrow> 'w eqc" where
  "apply_gains E node s =
     (case node of
        None \<Rightarrow> s
      | Some i \<Rightarrow> s\<lparr>eq_world := snd (set_eq_gains (ee_run E) i (eq_gains s) (eq_world s))\<rparr>)"

definition enable :: "'w eq_env \<Rightarrow> 'w eqc \<Rightarrow> 'w eqc" where
  "enable E s =
     (if eq_sup s then s
      else
        let s1 = act (SpawnSupervisor (gains_to_bands (eq_gains s)) (eq_tool s)) (s\<lparr>eq_sup := True\<rparr>)
        in case wait_for_eq_node (ee_from_str E) (ee_run E) (ee_timer E) (secs 2) (eq_world s1) of
             None \<Rightarrow> s1\<lparr>eq_stuck := True\<rparr>
           | Some (None, w) \<Rightarrow>
               publish_eq False (send_route NULL_SINK_NAME
                 ((abort_supervisor (s1\<lparr>eq_world := w\<rparr>))\<lparr>eq_node := None\<rparr>))
           | Some (Some i, w) \<Rightarrow>
               publish_eq True (apply_gains E (Some i)
                 (send_route EQ_SINK_NAME (s1\<lparr>eq_world := w, eq_node := Some i\<rparr>))))"

definition disable :: "'w eqc \<Rightarrow> 'w eqc" where
  "disable s =
     publish_eq False ((abort_supervisor (send_route NULL_SINK_NAME s))\<lparr>eq_node := None\<rparr>)"

definition update_gains :: "'w eq_env \<Rightarrow> flt list \<Rightarrow> 'w eqc \<Rightarrow> 'w eqc" where
  "update_gains E new_gains s =
     (let s1 = s\<lparr>eq_gains := store_gains (eq_gains s) new_gains\<rparr>;
          s2 = (if eq_sup s1
                then case probe_eq_node_id (ee_from_str E) (ee_run E) (eq_world s1) of
                    (node, w) \<Rightarrow> apply_gains E node (s1\<lparr>eq_node := node, eq_world := w\<rparr>)
                else s1)
      in publish_eq (eq_sup s2) s2)"

datatype eq_event = EqShutdown | EqClosed | EqCmd eq_command

fun eq_step :: "'w eq_env \<Rightarrow> 'w eqc \<Rightarrow> eq_event \<Rightarrow> 'w eqc" where
  "eq_step E s EqShutdown = (if eq_done s \<or> eq_stuck s then s else s\<lparr>eq_done := True\<rparr>)"
| "eq_step E s EqClosed = (if eq_done s \<or> eq_stuck s then s else s\<lparr>eq_done := True\<rparr>)"
| "eq_step E s (EqCmd (SetEnabled b)) =
     (if eq_done s \<or> eq_stuck s then s else if b then enable E s else disable s)"
| "eq_step E s (EqCmd (UpdateGains gs)) =
     (if eq_done s \<or> eq_stuck s then s else update_gains E gs s)"

section \<open>Lemmas\<close>

lemma publish_eq_simps [simp]:
  "eq_gains (publish_eq b s) = eq_gains s" "eq_sup (publish_eq b s) = eq_sup s"
  "eq_node (publish_eq b s) = eq_node s" "eq_route (publish_eq b s) = eq_route s"
  "eq_trace (publish_eq b s) = eq_trace s" "eq_stuck (publish_eq b s) = eq_stuck s"
  "eq_done (publish_eq b s) = eq_done s" "eq_world (publish_eq b s) = eq_world s"
  "st_eq (app (eq_handle (publish_eq b s))) = eq_info_of b (gains_to_bands (eq_gains s))"
  by (simp_all add: publish_eq_def eq_field.get_put)

lemma apply_gains_simps [simp]:
  "eq_gains (apply_gains E n s) = eq_gains s" "eq_sup (apply_gains E n s) = eq_sup s"
  "eq_node (apply_gains E n s) = eq_node s" "eq_route (apply_gains E n s) = eq_route s"
  "eq_trace (apply_gains E n s) = eq_trace s" "eq_stuck (apply_gains E n s) = eq_stuck s"
  "eq_done (apply_gains E n s) = eq_done s" "eq_handle (apply_gains E n s) = eq_handle s"
  by (simp_all add: apply_gains_def split: option.splits)

lemma sinks_distinct [simp]: "NULL_SINK_NAME \<noteq> EQ_SINK_NAME" "EQ_SINK_NAME \<noteq> NULL_SINK_NAME"
  by (simp_all add: NULL_SINK_NAME_def EQ_SINK_NAME_def)

lemma length_zip_gains [simp]: "length (zip_gains bs gs) = length bs"
  by (induction bs gs rule: zip_gains.induct) auto

lemma zip_gains_map: "length gs = length bs \<Longrightarrow> map gain_db (zip_gains bs gs) = gs"
  by (induction bs gs rule: zip_gains.induct) auto

lemma gains_to_bands_gains: "length gs = NUM_BANDS \<Longrightarrow> map gain_db (gains_to_bands gs) = gs"
  by (simp add: gains_to_bands_def zip_gains_map)

lemma clamp_eq_gain_idem [simp]: "clamp_eq_gain (clamp_eq_gain g) = clamp_eq_gain g"
  by (simp add: clamp_eq_gain_def MIN_GAIN_DB_def MAX_GAIN_DB_def)

lemma length_store_gains [simp]: "length (store_gains gs ns) = length gs"
  by (simp add: store_gains_def)

lemma store_gains_all: "length ns = length gs \<Longrightarrow> store_gains gs ns = map clamp_eq_gain ns"
  by (rule nth_equalityI) (auto simp: store_gains_def)

definition gains_ok :: "flt list \<Rightarrow> bool" where
  "gains_ok gs \<longleftrightarrow> length gs = NUM_BANDS \<and> map clamp_eq_gain gs = gs"

lemma map_clamp_nth: "map clamp_eq_gain gs = gs \<Longrightarrow> i < length gs \<Longrightarrow> clamp_eq_gain (gs ! i) = gs ! i"
  by (metis nth_map)

lemma gains_ok_store: "gains_ok gs \<Longrightarrow> gains_ok (store_gains gs ns)"
  unfolding gains_ok_def
  by (auto simp: store_gains_def map_clamp_nth)

text \<open>
  What holds between two commands: the three views of "enabled" agree, and the gains are
  within bounds and published.
\<close>

definition eq_inv :: "'w eqc \<Rightarrow> bool" where
  "eq_inv s \<longleftrightarrow> gains_ok (eq_gains s) \<and>
     (if eq_stuck s then True
      else eq_route s = \<lparr>default_sink = (if eq_sup s then EQ_SINK_NAME else NULL_SINK_NAME)\<rparr>
        \<and> st_eq (app (eq_handle s)) = eq_info_of (eq_sup s) (gains_to_bands (eq_gains s))
        \<and> (if eq_sup s then True else eq_node s = None))"

lemma enable_inv: "eq_inv s \<Longrightarrow> eq_inv (enable E s)"
  by (auto simp: enable_def eq_inv_def Let_def act_def send_route_def abort_supervisor_def
      split: option.splits prod.splits)

lemma disable_inv: "eq_inv s \<Longrightarrow> eq_inv (disable s)"
  by (auto simp: disable_def eq_inv_def act_def send_route_def abort_supervisor_def)

lemma update_gains_inv: "eq_inv s \<Longrightarrow> \<not> eq_stuck s \<Longrightarrow> eq_inv (update_gains E gs s)"
  by (auto simp: update_gains_def eq_inv_def Let_def gains_ok_store split: prod.splits)

lemma eq_step_inv: "eq_inv s \<Longrightarrow> eq_inv (eq_step E s ev)"
  by (induction E s ev rule: eq_step.induct)
    (auto simp: enable_inv disable_inv update_gains_inv, auto simp: eq_inv_def)

interpretation equaliser: halting_machine "eq_step E" eq_inv "\<lambda>s. eq_done s \<or> eq_stuck s" for E
proof unfold_locales
  fix s :: "'a eqc" and ev
  show "eq_inv s \<Longrightarrow> eq_inv (eq_step E s ev)" by (rule eq_step_inv)
  show "eq_done s \<or> eq_stuck s \<Longrightarrow> eq_step E s ev = s"
    by (induction E s ev rule: eq_step.induct) auto
qed

lemma eqc_start_inv:
  "st_eq (app h) = default_eq_info \<Longrightarrow> eq_inv (eqc_start E default_desired_route h w)"
  by (auto simp: eqc_start_def eq_inv_def default_desired_route_def gains_ok_def default_bands_def
      band_def NUM_BANDS_def clamp_eq_gain_def flt_clamp_def MIN_GAIN_DB_def MAX_GAIN_DB_def
      default_eq_info_def gains_to_bands_def eq_info_of_def split: prod.splits)

subsection \<open>The order of actions\<close>

text \<open>
  The protocol: the chain is started when it is not running; the default sink is sent to it
  only while it runs; it is aborted only after the route has left it.
\<close>

fun eq_protocol :: "bool \<times> bool \<Rightarrow> eq_action \<Rightarrow> (bool \<times> bool) option" where
  "eq_protocol (running, routed) (SpawnSupervisor bs t) =
     (if running \<or> routed then None else Some (True, False))"
| "eq_protocol (running, routed) AbortSupervisor =
     (if running \<and> \<not> routed then Some (False, False) else None)"
| "eq_protocol (running, routed) (SendRoute r) =
     (if default_sink r = EQ_SINK_NAME then (if running then Some (running, True) else None)
      else Some (running, False))"

definition eq_ordered :: "'w eqc \<Rightarrow> bool" where
  "eq_ordered s \<longleftrightarrow> track eq_protocol (False, False) (eq_trace s)
     = Some (eq_sup s, default_sink (eq_route s) = EQ_SINK_NAME)"

definition eq_inv2 :: "'w eqc \<Rightarrow> bool" where
  "eq_inv2 s \<longleftrightarrow> eq_inv s \<and> eq_ordered s"

lemma enable_ordered: "eq_inv2 s \<Longrightarrow> \<not> eq_stuck s \<Longrightarrow> eq_ordered (enable E s)"
  by (auto simp: enable_def eq_inv2_def eq_inv_def eq_ordered_def Let_def act_def send_route_def
      abort_supervisor_def track_append split: option.splits prod.splits)

lemma disable_ordered: "eq_ordered s \<Longrightarrow> eq_ordered (disable s)"
  by (auto simp: disable_def eq_ordered_def act_def send_route_def abort_supervisor_def track_append)

lemma update_gains_ordered: "eq_ordered s \<Longrightarrow> eq_ordered (update_gains E gs s)"
  by (auto simp: update_gains_def eq_ordered_def Let_def split: prod.splits)

lemma eq_step_inv2: "eq_inv2 s \<Longrightarrow> eq_inv2 (eq_step E s ev)"
  unfolding eq_inv2_def using eq_step_inv[of s E ev]
  by (induction E s ev rule: eq_step.induct)
    (auto simp: enable_ordered[unfolded eq_inv2_def] disable_ordered update_gains_ordered,
     auto simp: eq_ordered_def)

interpretation equaliser_order: machine "eq_step E" eq_inv2 for E
  by unfold_locales (rule eq_step_inv2)

lemma eqc_start_inv2:
  "st_eq (app h) = default_eq_info \<Longrightarrow> eq_inv2 (eqc_start E default_desired_route h w)"
  by (simp add: eq_inv2_def eqc_start_inv)
    (auto simp: eq_ordered_def eqc_start_def default_desired_route_def split: prod.splits)

subsection \<open>Returning\<close>

definition env_ok :: "'w eq_env \<Rightarrow> bool" where
  "env_ok E \<longleftrightarrow> timer_ok (ee_timer E) \<and>
     (\<forall>w p as. now (ee_timer E) w \<le> now (ee_timer E) (snd (ee_run E w p as)))"

lemma wait_returns:
  assumes "env_ok E"
  shows "wait_for_eq_node (ee_from_str E) (ee_run E) (ee_timer E) d w \<noteq> None"
proof -
  have "timer_ok (ee_timer E)"
    "\<And>w p as. now (ee_timer E) w \<le> now (ee_timer E) (snd (ee_run E w p as))"
    using assms by (auto simp: env_ok_def)
  from wait_for_eq_node_returns[of "ee_timer E" "ee_run E" "ee_from_str E" d w, OF this]
  obtain res w' where "wait_for_eq_node (ee_from_str E) (ee_run E) (ee_timer E) d w = Some (res, w')"
    by blast
  then show ?thesis by simp
qed

lemma enable_not_stuck: "env_ok E \<Longrightarrow> \<not> eq_stuck s \<Longrightarrow> \<not> eq_stuck (enable E s)"
  using wait_returns[of E "secs 2" "eq_world s"]
  by (auto simp: enable_def Let_def act_def send_route_def abort_supervisor_def
      split: option.splits prod.splits)

lemma disable_not_stuck: "\<not> eq_stuck s \<Longrightarrow> \<not> eq_stuck (disable s)"
  by (simp add: disable_def act_def send_route_def abort_supervisor_def)

lemma update_gains_not_stuck: "\<not> eq_stuck s \<Longrightarrow> \<not> eq_stuck (update_gains E gs s)"
  by (auto simp: update_gains_def Let_def split: prod.splits)

lemma eq_step_not_stuck: "env_ok E \<Longrightarrow> \<not> eq_stuck s \<Longrightarrow> \<not> eq_stuck (eq_step E s ev)"
  by (induction E s ev rule: eq_step.induct)
    (auto simp: enable_not_stuck disable_not_stuck update_gains_not_stuck)

interpretation equaliser_live: machine "eq_step E" "\<lambda>s. env_ok E \<longrightarrow> \<not> eq_stuck s" for E
  by unfold_locales (auto simp: eq_step_not_stuck)

lemma eqc_start_not_stuck: "\<not> eq_stuck (eqc_start E r h w)"
  by (simp add: eqc_start_def split: prod.splits)

lemma eq_run_not_stuck:
  assumes "env_ok E"
  shows "\<not> eq_stuck (run (eq_step E) (eqc_start E r h w) es)"
proof -
  have "env_ok E \<longrightarrow> \<not> eq_stuck (run (eq_step E) (eqc_start E r h w) es)"
    by (rule equaliser_live.run_inv) (simp add: eqc_start_not_stuck)
  then show ?thesis using assms by blast
qed

lemma update_gains_results:
  "eq_gains (update_gains E gs s) = store_gains (eq_gains s) gs"
  "eq_trace (update_gains E gs s) = eq_trace s"
  "st_eq (app (eq_handle (update_gains E gs s)))
     = eq_info_of (eq_sup s) (gains_to_bands (store_gains (eq_gains s) gs))"
  by (simp_all add: update_gains_def Let_def split: prod.splits)

section \<open>On the shared handle\<close>

lemma eq_step_frame:
  "eq_step E (s\<lparr>eq_handle := h\<rparr>) e
     = (eq_step E s e)\<lparr>eq_handle := fold commit (written (eq_handle s) (eq_handle (eq_step E s e))) h\<rparr>
   \<and> (\<forall>ev \<in> set (written (eq_handle s) (eq_handle (eq_step E s e))). writer_of ev = EqTask)"
proof -
  have p: "bus (set_eq x k) = bus k @ [EqChanged x]" for x k by (rule eq_field.bus_put)
  note defs = enable_def disable_def update_gains_def publish_eq_def apply_gains_def
    abort_supervisor_def send_route_def act_def written_def p
  show ?thesis
  proof (cases e)
    case (EqCmd c)
    then show ?thesis by (cases c) (auto simp: defs Let_def split: option.split prod.split)
  qed (simp_all add: written_def)
qed

definition eq_on :: "app_handle \<Rightarrow> 'w eqc \<Rightarrow> 'w eqc" where
  "eq_on h s = s\<lparr>eq_handle := h\<rparr>"

interpretation eq_user: handle_user "eq_step E" eq_handle eq_on st_eq EqTask for E
proof unfold_locales
  fix s :: "'a eqc" and e ev and h h' :: app_handle
  show "\<exists>evs. (\<forall>h. st_eq (app h) = st_eq (app (eq_handle s)) \<longrightarrow>
        eq_step E (eq_on h s) e = eq_on (fold commit evs h) (eq_step E s e))
      \<and> (\<forall>ev \<in> set evs. writer_of ev = EqTask)"
    unfolding eq_on_def using eq_step_frame by blast
  show "writer_of ev = EqTask \<Longrightarrow> st_eq (app (commit ev h)) = st_eq (app (commit ev h'))"
    "writer_of ev \<noteq> EqTask \<Longrightarrow> st_eq (app (commit ev h)) = st_eq (app h)"
    by (cases ev; simp add: setter_defs)+
qed (simp_all add: eq_on_def)

section \<open>Properties\<close>

text \<open>
  C18 (three views of the equaliser agree).  Starting from a fresh state, after any commands and
  whatever the external tools answer: the filter chain is supervised, the desired default sink
  is the equaliser and the published state says "enabled", or none of the three; the published
  gains are the stored ones; and the controller never sends the default sink to a chain that is
  not running, aborts a chain the route has not left, or starts a second one.
\<close>

theorem eq_views_agree:
  assumes "env_ok E" "st_eq (app h) = default_eq_info"
  shows "let s = run (eq_step E) (eqc_start E default_desired_route h w) es in
     eq_route s = \<lparr>default_sink = (if eq_sup s then EQ_SINK_NAME else NULL_SINK_NAME)\<rparr>
     \<and> st_eq (app (eq_handle s)) = eq_info_of (eq_sup s) (gains_to_bands (eq_gains s))
     \<and> track eq_protocol (False, False) (eq_trace s) = Some (eq_sup s, eq_sup s)"
proof -
  let ?s = "run (eq_step E) (eqc_start E default_desired_route h w) es"
  have "eq_inv2 ?s" by (rule equaliser_order.run_inv[OF eqc_start_inv2[OF assms(2)]])
  moreover have "\<not> eq_stuck ?s" by (rule eq_run_not_stuck[OF assms(1)])
  ultimately have r: "eq_route ?s = \<lparr>default_sink = (if eq_sup ?s then EQ_SINK_NAME else NULL_SINK_NAME)\<rparr>"
    "st_eq (app (eq_handle ?s)) = eq_info_of (eq_sup ?s) (gains_to_bands (eq_gains ?s))"
    "track eq_protocol (False, False) (eq_trace ?s)
       = Some (eq_sup ?s, default_sink (eq_route ?s) = EQ_SINK_NAME)"
    by (simp_all only: eq_inv2_def eq_inv_def eq_ordered_def if_False not_False_eq_True)
  have "(default_sink (eq_route ?s) = EQ_SINK_NAME) = eq_sup ?s" by (simp add: r(1))
  then have "track eq_protocol (False, False) (eq_trace ?s) = Some (eq_sup ?s, eq_sup ?s)"
    by (simp only: r(3))
  then show ?thesis unfolding Let_def by (intro conjI r(1,2))
qed

text \<open>
  Enabling never hangs the controller.  Under the laws of the clock, no run leaves the
  controller waiting for a node for ever.
\<close>

theorem eq_never_stuck:
  assumes "env_ok E"
  shows "\<not> eq_stuck (run (eq_step E) (eqc_start E r h w) es)"
  by (rule eq_run_not_stuck[OF assms])

text \<open>
  Gains are clamped and published.  After an update with ten gains the controller stores
  and publishes exactly the gains clamped to the range of the filters, whether or not the chain
  runs and whatever setting them on the node returned.
\<close>

theorem update_gains_published:
  assumes "length gs = NUM_BANDS" "length (eq_gains s) = NUM_BANDS" "\<not> eq_done s" "\<not> eq_stuck s"
  shows "let s' = eq_step E s (EqCmd (UpdateGains gs)) in
     map ebi_gain_db (eqi_bands (st_eq (app (eq_handle s')))) = map clamp_eq_gain gs
     \<and> eq_gains s' = map clamp_eq_gain gs \<and> eq_trace s' = eq_trace s"
proof -
  have "map ebi_gain_db (eqi_bands (eq_info_of b bs)) = map gain_db bs" for b bs
    by (simp add: eq_info_of_def)
  moreover have "store_gains (eq_gains s) gs = map clamp_eq_gain gs"
    using assms(1,2) by (simp add: store_gains_all)
  ultimately show ?thesis using assms
    by (simp add: update_gains_results gains_to_bands_gains Let_def)
qed

definition demo_eq_env :: "nat eq_env" where
  "demo_eq_env = \<lparr>ee_run = (\<lambda>w _ _. (Inr \<lparr>status = 0, stdout = [], stderr = []\<rparr>, w)),
     ee_timer = \<lparr>now = (\<lambda>w. w), sleep = (\<lambda>d w. w + d)\<rparr>, ee_from_str = (\<lambda>_. None)\<rparr>"

lemma demo_eq_env_ok: "env_ok demo_eq_env"
  by (simp add: env_ok_def demo_eq_env_def timer_ok_def)

theorem eq_views_agree_witness:
  "let s = run (eq_step demo_eq_env) (eqc_start demo_eq_env default_desired_route new_handle 0)
             [EqCmd (SetEnabled True), EqCmd (UpdateGains (replicate 10 (Fin 20)))] in
     eq_route s = \<lparr>default_sink = (if eq_sup s then EQ_SINK_NAME else NULL_SINK_NAME)\<rparr>
     \<and> st_eq (app (eq_handle s)) = eq_info_of (eq_sup s) (gains_to_bands (eq_gains s))
     \<and> track eq_protocol (False, False) (eq_trace s) = Some (eq_sup s, eq_sup s)"
  by (rule eq_views_agree[OF demo_eq_env_ok]) (simp add: new_handle_def default_app_state_def)

theorem eq_never_stuck_witness:
  "\<not> eq_stuck (run (eq_step demo_eq_env) (eqc_start demo_eq_env default_desired_route new_handle 0)
     [EqCmd (SetEnabled True)])"
  by (rule eq_never_stuck[OF demo_eq_env_ok])

theorem update_gains_published_witness:
  "let s' = eq_step demo_eq_env (eqc_start demo_eq_env default_desired_route new_handle 0)
              (EqCmd (UpdateGains (replicate 10 (Fin 20)))) in
     map ebi_gain_db (eqi_bands (st_eq (app (eq_handle s'))))
       = map clamp_eq_gain (replicate 10 (Fin 20))
     \<and> eq_gains s' = map clamp_eq_gain (replicate 10 (Fin 20))
     \<and> eq_trace s' = eq_trace (eqc_start demo_eq_env default_desired_route new_handle 0)"
  by (rule update_gains_published)
    (simp_all add: NUM_BANDS_def eqc_start_def default_bands_def split: prod.splits)

end
