(* ===== verification/Supervisor.thy ===== *)
theory Supervisor
  imports Effects Machine
begin

text \<open>
  The restart supervisor (src/src/sys/supervisor.rs): it runs a unit for ever, restarting it on
  any completion after a backoff that doubles up to a cap and is reset by a stable run, until
  shutdown.  The loop is a step function over what it waits for; \<open>sv_sleeps\<close> records the
  backoffs it began to sleep.
\<close>

record restart_policy =
  initial_backoff :: duration
  max_backoff :: duration
  stable_after :: duration

definition default_policy :: restart_policy where
  "default_policy = \<lparr>initial_backoff = millis 100, max_backoff = secs 5, stable_after = secs 10\<rparr>"

text \<open>\<open>saturating_mul\<close> stops at the largest duration.\<close>

definition next_backoff :: "duration \<Rightarrow> duration \<Rightarrow> duration" where
  "next_backoff cur mx = min (min (2 * cur) DURATION_MAX) mx"

datatype sv_phase = Running | Backoff | Stopped

record supervised =
  sv_restarts :: "32 word"
  sv_backoff :: duration
  sv_phase :: sv_phase
  sv_sleeps :: "duration list"

datatype sv_event =
    UnitEnded duration
  | BackoffElapsed
  | ShutdownSeen

definition supervise_start :: "restart_policy \<Rightarrow> bool \<Rightarrow> supervised" where
  "supervise_start p shutdown_now =
     \<lparr>sv_restarts = 0, sv_backoff = initial_backoff p,
      sv_phase = (if shutdown_now then Stopped else Running), sv_sleeps = []\<rparr>"

text \<open>
  A unit that ends ran for the given time.  Events of a branch the loop is not waiting for do
  not happen; they leave the state alone.
\<close>

fun supervise_step :: "restart_policy \<Rightarrow> supervised \<Rightarrow> sv_event \<Rightarrow> supervised" where
  "supervise_step p s (UnitEnded elapsed) =
     (if sv_phase s = Running
      then let b = (if stable_after p \<le> elapsed then initial_backoff p else sv_backoff s)
           in s\<lparr>sv_backoff := b, sv_phase := Backoff, sv_sleeps := sv_sleeps s @ [b]\<rparr>
      else s)"
| "supervise_step p s BackoffElapsed =
     (if sv_phase s = Backoff
      then s\<lparr>sv_restarts := sv_restarts s + 1, sv_phase := Running,
             sv_backoff := next_backoff (sv_backoff s) (max_backoff p)\<rparr>
      else s)"
| "supervise_step p s ShutdownSeen = s\<lparr>sv_phase := Stopped\<rparr>"

text \<open>
  \<open>wait_for_shutdown\<close> over the values a watch channel takes, oldest first: whether it
  resolves.  The sender dropping ends the list and counts as shutdown.
\<close>

datatype watch_item = Value bool | SenderDropped

fun wait_for_shutdown :: "watch_item list \<Rightarrow> bool" where
  "wait_for_shutdown [] = False"
| "wait_for_shutdown (Value b # vs) = (if b then True else wait_for_shutdown vs)"
| "wait_for_shutdown (SenderDropped # vs) = True"

section \<open>Lemmas\<close>

definition policy_ok :: "restart_policy \<Rightarrow> bool" where
  "policy_ok p \<longleftrightarrow> initial_backoff p \<le> max_backoff p \<and> max_backoff p \<le> DURATION_MAX"

definition backoff_bounded :: "restart_policy \<Rightarrow> supervised \<Rightarrow> bool" where
  "backoff_bounded p s \<longleftrightarrow> (\<forall>b \<in> insert (sv_backoff s) (set (sv_sleeps s)).
     initial_backoff p \<le> b \<and> b \<le> max_backoff p)"

lemma next_backoff_bounds:
  "policy_ok p \<Longrightarrow> initial_backoff p \<le> b \<Longrightarrow> b \<le> max_backoff p \<Longrightarrow>
     initial_backoff p \<le> next_backoff b (max_backoff p) \<and> next_backoff b (max_backoff p) \<le> max_backoff p"
  by (auto simp: next_backoff_def policy_ok_def)

lemma backoff_bounded_step:
  "policy_ok p \<Longrightarrow> backoff_bounded p s \<Longrightarrow> backoff_bounded p (supervise_step p s e)"
  by (cases e) (auto simp: backoff_bounded_def Let_def policy_ok_def[of p] next_backoff_bounds)

interpretation supervisor: halting_machine "supervise_step p"
    "\<lambda>s. policy_ok p \<longrightarrow> backoff_bounded p s" "\<lambda>s. sv_phase s = Stopped" for p
proof unfold_locales
  fix s e
  show "policy_ok p \<longrightarrow> backoff_bounded p s \<Longrightarrow> policy_ok p \<longrightarrow> backoff_bounded p (supervise_step p s e)"
    by (auto simp: backoff_bounded_step)
  show "sv_phase s = Stopped \<Longrightarrow> supervise_step p s e = s" by (cases e) auto
qed

text \<open>Crashes in a row: each run ends before it counts as stable.\<close>

definition crash_loop :: "duration list \<Rightarrow> sv_event list" where
  "crash_loop ds = concat (map (\<lambda>d. [UnitEnded d, BackoffElapsed]) ds)"

lemma crash_loop_snoc: "crash_loop (ds @ [d]) = crash_loop ds @ [UnitEnded d, BackoffElapsed]"
  by (simp add: crash_loop_def)

lemma crash_loop_state:
  assumes "policy_ok p" "\<forall>d \<in> set ds. d < stable_after p" "sv_phase s = Running"
    and "sv_backoff s = initial_backoff p"
  shows "let s' = run (supervise_step p) s (crash_loop ds) in
    sv_phase s' = Running \<and> sv_restarts s' = sv_restarts s + of_nat (length ds)
    \<and> sv_sleeps s' = sv_sleeps s @ map (\<lambda>k. min (initial_backoff p * 2 ^ k) (max_backoff p)) [0..<length ds]
    \<and> sv_backoff s' = min (initial_backoff p * 2 ^ length ds) (max_backoff p)"
  using assms(2)
proof (induction ds rule: rev_induct)
  case Nil
  then show ?case using assms by (simp add: crash_loop_def policy_ok_def)
next
  case (snoc d ds)
  have "next_backoff (min x (max_backoff p)) (max_backoff p) = min (2 * x) (max_backoff p)" for x
    using assms(1) by (auto simp: next_backoff_def policy_ok_def)
  then show ?case using snoc
    by (simp add: crash_loop_snoc Let_def algebra_simps)
qed

section \<open>Properties\<close>

text \<open>
  The backoff is bounded.  Whatever the unit does, no sleep between two runs is shorter than
  the initial backoff or longer than the cap.
\<close>

theorem backoff_within_bounds:
  assumes "policy_ok p" "b \<in> set (sv_sleeps (run (supervise_step p) (supervise_start p stop) es))"
  shows "initial_backoff p \<le> b \<and> b \<le> max_backoff p"
proof -
  have "policy_ok p \<longrightarrow> backoff_bounded p (run (supervise_step p) (supervise_start p stop) es)"
    by (rule supervisor.run_inv) (auto simp: backoff_bounded_def supervise_start_def policy_ok_def)
  then show ?thesis using assms by (simp add: backoff_bounded_def)
qed

text \<open>
  Exponential backoff with reset.  In a loop of crashes the sleeps are the initial backoff
  times the powers of two, capped; and after a run that was stable the next sleep is the initial
  backoff again.
\<close>

theorem crash_loop_backoffs:
  assumes "policy_ok p" "\<forall>d \<in> set ds. d < stable_after p" "stable_after p \<le> d'"
  shows "sv_sleeps (run (supervise_step p) (supervise_start p False) (crash_loop ds @ [UnitEnded d']))
    = map (\<lambda>k. min (initial_backoff p * 2 ^ k) (max_backoff p)) [0..<length ds] @ [initial_backoff p]"
proof -
  have "sv_phase (supervise_start p False) = Running"
    "sv_backoff (supervise_start p False) = initial_backoff p"
    "sv_sleeps (supervise_start p False) = []"
    by (simp_all add: supervise_start_def)
  with crash_loop_state[OF assms(1,2)] show ?thesis
    using assms(3) by (auto simp: Let_def)
qed

lemma default_policy_ok: "policy_ok default_policy"
  by (simp add: policy_ok_def default_policy_def millis_def secs_def DURATION_MAX_def)

theorem backoff_within_bounds_witness:
  "initial_backoff default_policy \<le> millis 100 \<and> millis 100 \<le> max_backoff default_policy"
  by (rule backoff_within_bounds[OF default_policy_ok, where stop = False and es = "[UnitEnded 0]"])
    (simp add: supervise_start_def default_policy_def Let_def)

theorem crash_loop_backoffs_witness:
  "sv_sleeps (run (supervise_step default_policy) (supervise_start default_policy False)
      (crash_loop [secs 1, secs 2, 0] @ [UnitEnded (secs 60)]))
    = map (\<lambda>k. min (initial_backoff default_policy * 2 ^ k) (max_backoff default_policy))
        [0..<length [secs 1, secs 2, 0]] @ [initial_backoff default_policy]"
  by (rule crash_loop_backoffs[OF default_policy_ok])
    (simp_all add: default_policy_def secs_def)

end
