(* ===== verification/Daemon.thy ===== *)
theory Daemon
  imports PwGraph EqController Supervisor
begin

text \<open>
  The daemon (src/src/daemon.rs): the one-shot bring-up of the capture graph, the startup
  sequence, the handler of commands from the web layer, and the reconcile loop that re-asserts
  the desired state after graph events.

  Racing the bring-up against shutdown is the argument \<open>interrupted\<close> of the startup; the
  supervised tasks are those of Supervisor.
\<close>

datatype daemon_command = ReassertRouting | Identify

definition RECONCILE_DEBOUNCE :: duration where "RECONCILE_DEBOUNCE = millis 200"

definition tool_present :: "'w runner \<Rightarrow> string \<Rightarrow> 'w \<Rightarrow> bool \<times> 'w" where
  "tool_present r prog w =
     (case r w ''which'' [prog] of
        (Inr out, w') \<Rightarrow> (success out, w')
      | (Inl _, w') \<Rightarrow> (False, w'))"

definition detect_capture_tool :: "'w runner \<Rightarrow> 'w \<Rightarrow> capture_tool option \<times> 'w" where
  "detect_capture_tool r w =
     (case tool_present r ''parec'' w of (p, w1) \<Rightarrow>
      if p then (Some Parec, w1)
      else (case tool_present r ''pw-cat'' w1 of (q, w2) \<Rightarrow>
              (if q then Some PwCat else None, w2)))"

definition bring_up :: "'w runner \<Rightarrow> 'w timer \<Rightarrow> desired_route \<Rightarrow> 'w \<Rightarrow> (string + unit) \<times> 'w" where
  "bring_up r t route w =
     (case ensure_null_sink r t NULL_SINK_NAME NULL_SINK_DESC w of
        (Inl e, w1) \<Rightarrow> (Inl e, w1)
      | (Inr _, w1) \<Rightarrow>
          (case set_default_sink r (default_sink route) w1 of
             (Inl e, w2) \<Rightarrow> (Inl e, w2)
           | (Inr _, w2) \<Rightarrow> (Inr (), w2)))"

text \<open>
  The startup up to the supervised tasks: an error, the return on shutdown (\<open>None\<close>), or the
  command the capture unit will run.
\<close>

definition daemon_setup ::
    "'w runner \<Rightarrow> 'w timer \<Rightarrow> desired_route \<Rightarrow> bool \<Rightarrow> 'w \<Rightarrow> (string + command_line option) \<times> 'w" where
  "daemon_setup r t route interrupted w =
     (case detect_capture_tool r w of
        (None, w1) \<Rightarrow> (Inl ''no capture tool found (need parec or pw-cat)'', w1)
      | (Some tool, w1) \<Rightarrow>
          (case probe_quantum r w1 of (pq, w2) \<Rightarrow>
           if interrupted then (Inr None, w2)
           else case ensure_null_sink r t NULL_SINK_NAME NULL_SINK_DESC w2 of
               (Inl e, w3) \<Rightarrow> (Inl e, w3)
             | (Inr ns, w3) \<Rightarrow>
                 (case set_default_sink r (default_sink route)
                    (case ns_module_id ns of
                       Some canonical \<Rightarrow> snd (sweep_duplicate_null_sinks r NULL_SINK_NAME canonical w3)
                     | None \<Rightarrow> w3) of
                    (Inl e, w4) \<Rightarrow> (Inl e, w4)
                  | (Inr _, w4) \<Rightarrow>
                      (Inr (Some (build_capture_command tool (NullSinkMonitor NULL_SINK_NAME)
                              (capture_latency_ms pq))), w4))))"

section \<open>The reconcile loop\<close>

text \<open>
  The loop waits for an event, then drains events until the debounce window has elapsed or the
  source is gone, then reads the route the watch channel holds at that moment and brings the graph up
  with it.  A bring-up awaits between its tries to create the sink, and what the route becomes
  meanwhile it does not see: it is an await point of its own, \<open>BringingUp\<close>, that remembers the route,
  and acts on the graph when it is done, at \<open>BroughtUp\<close>; one that the shutdown cuts short is taken
  as not having acted.  The events that arrive meanwhile stay in the channel, \<open>rc_queue\<close>; the source
  waits while it is full.  \<open>rc_routes\<close> records the routes of the bring-ups; their errors are only
  logged.
\<close>

datatype rc_phase = Waiting | Debouncing | BringingUp desired_route | Returned

record 'w rc =
  rc_phase :: rc_phase
  rc_queue :: "graph_event list"
  rc_gone :: bool
  rc_route :: desired_route
  rc_routes :: "desired_route list"
  rc_world :: 'w

datatype rc_event =
    GraphEv graph_event
  | WindowElapsed
  | SourceGone
  | BroughtUp
  | RouteSent desired_route
  | RcShutdown

definition GRAPH_CHANNEL :: nat where "GRAPH_CHANNEL = 64"

definition read_route :: "'w rc \<Rightarrow> 'w rc" where
  "read_route s = s\<lparr>rc_phase := BringingUp (rc_route s)\<rparr>"

definition assert_route :: "'w runner \<Rightarrow> 'w timer \<Rightarrow> desired_route \<Rightarrow> 'w rc \<Rightarrow> 'w rc" where
  "assert_route r t route s =
     s\<lparr>rc_routes := rc_routes s @ [route], rc_world := snd (bring_up r t route (rc_world s))\<rparr>"

text \<open>The next round of the loop: a queued event starts it at once, and the window drains the others.\<close>

definition next_round :: "'w rc \<Rightarrow> 'w rc" where
  "next_round s =
     (if rc_queue s = [] then s\<lparr>rc_phase := (if rc_gone s then Returned else Waiting)\<rparr>
      else if rc_gone s then read_route (s\<lparr>rc_queue := []\<rparr>)
      else s\<lparr>rc_phase := Debouncing, rc_queue := []\<rparr>)"

fun rc_step :: "'w runner \<Rightarrow> 'w timer \<Rightarrow> 'w rc \<Rightarrow> rc_event \<Rightarrow> 'w rc" where
  "rc_step r t s (GraphEv e) =
     (case rc_phase s of
        Waiting \<Rightarrow> s\<lparr>rc_phase := Debouncing\<rparr>
      | BringingUp _ \<Rightarrow>
          if rc_gone s \<or> GRAPH_CHANNEL \<le> length (rc_queue s) then s else s\<lparr>rc_queue := rc_queue s @ [e]\<rparr>
      | _ \<Rightarrow> s)"
| "rc_step r t s WindowElapsed = (if rc_phase s = Debouncing then read_route s else s)"
| "rc_step r t s SourceGone =
     (case rc_phase s of
        Waiting \<Rightarrow> s\<lparr>rc_phase := Returned, rc_gone := True\<rparr>
      | Debouncing \<Rightarrow> read_route (s\<lparr>rc_gone := True\<rparr>)
      | BringingUp _ \<Rightarrow> s\<lparr>rc_gone := True\<rparr>
      | Returned \<Rightarrow> s)"
| "rc_step r t s BroughtUp =
     (case rc_phase s of BringingUp route \<Rightarrow> next_round (assert_route r t route s) | _ \<Rightarrow> s)"
| "rc_step r t s (RouteSent route) = s\<lparr>rc_route := route\<rparr>"
| "rc_step r t s RcShutdown = s\<lparr>rc_phase := Returned\<rparr>"

definition rc_start :: "desired_route \<Rightarrow> 'w \<Rightarrow> 'w rc" where
  "rc_start route w = \<lparr>rc_phase = Waiting, rc_queue = [], rc_gone = False, rc_route = route,
                       rc_routes = [], rc_world = w\<rparr>"

text \<open>The test tone, which is started and left to itself.\<close>

definition IDENTIFY_SCRIPT :: string where
  "IDENTIFY_SCRIPT =
     ''ffmpeg -f lavfi -i sine=frequency=880:duration=1 -ac 2 -ar 48000 -f s16le - 2>/dev/null | ''
     @ ''pw-cat --playback --rate=48000 --channels=2 --format=s16le --target=soundsync-capture ''
     @ ''- 2>/dev/null''"

definition identify :: "('w, 'c) spawner \<Rightarrow> 'w \<Rightarrow> 'w" where
  "identify sp w = snd (spawn sp w ''sh'' [''-c'', IDENTIFY_SCRIPT])"

section \<open>Lemmas\<close>

definition concerns_graph :: "rc_event \<Rightarrow> bool" where
  "concerns_graph e \<longleftrightarrow> (\<exists>g. e = GraphEv g)"

definition quiet_event :: "rc_event \<Rightarrow> bool" where
  "quiet_event e \<longleftrightarrow> (\<exists>rt. e = RouteSent rt) \<or> e = WindowElapsed \<or> e = BroughtUp"

definition burst_event :: "rc_event \<Rightarrow> bool" where
  "burst_event e \<longleftrightarrow> (\<exists>rt. e = RouteSent rt) \<or> (\<exists>g. e = GraphEv g)"

definition last_route :: "desired_route \<Rightarrow> rc_event list \<Rightarrow> desired_route" where
  "last_route r0 es = foldl (\<lambda>r e. case e of RouteSent rt \<Rightarrow> rt | _ \<Rightarrow> r) r0 es"

lemma rc_quiet:
  assumes "\<forall>e \<in> set es. quiet_event e" "rc_phase s = Waiting"
  shows "rc_routes (run (rc_step r t) s es) = rc_routes s
    \<and> rc_world (run (rc_step r t) s es) = rc_world s
    \<and> rc_phase (run (rc_step r t) s es) = Waiting"
  using assms
proof (induction es arbitrary: s)
  case (Cons e es)
  have "rc_phase (rc_step r t s e) = Waiting" "rc_routes (rc_step r t s e) = rc_routes s"
    "rc_world (rc_step r t s e) = rc_world s"
    using Cons.prems by (auto simp: quiet_event_def)
  then show ?case using Cons.IH[of "rc_step r t s e"] Cons.prems(1) by simp
qed simp

text \<open>In a window, and in a bring-up, a burst only moves the route on; the bring-up queues its events.\<close>

lemma last_route_Cons: "last_route r0 (e # es) = last_route (case e of RouteSent rt \<Rightarrow> rt | _ \<Rightarrow> r0) es"
  by (simp add: last_route_def)

lemma rc_burst:
  assumes "list_all burst_event es" "rc_phase s = Debouncing"
  shows "run (rc_step r t) s es = s\<lparr>rc_route := last_route (rc_route s) es\<rparr>"
  using assms
proof (induction es arbitrary: s)
  case (Cons e es)
  have "rc_step r t s e = s\<lparr>rc_route := (case e of RouteSent rt \<Rightarrow> rt | _ \<Rightarrow> rc_route s)\<rparr>"
    using Cons.prems by (auto simp: burst_event_def)
  then show ?case using Cons.IH[of "rc_step r t s e"] Cons.prems by (simp add: last_route_Cons)
qed (simp add: last_route_def)

lemma rc_in_flight:
  assumes "list_all burst_event es" "rc_phase s = BringingUp route" "\<not> rc_gone s"
  shows "\<exists>q. run (rc_step r t) s es = s\<lparr>rc_route := last_route (rc_route s) es, rc_queue := q\<rparr>
    \<and> (q = [] \<longleftrightarrow> rc_queue s = [] \<and> \<not> list_ex concerns_graph es)"
  using assms
proof (induction es arbitrary: s)
  case Nil
  then show ?case by (intro exI[of _ "rc_queue s"]) (simp add: last_route_def)
next
  case (Cons e es)
  let ?s = "rc_step r t s e"
  define q where "q = (case e of GraphEv g \<Rightarrow>
      if GRAPH_CHANNEL \<le> length (rc_queue s) then rc_queue s else rc_queue s @ [g] | _ \<Rightarrow> rc_queue s)"
  have s: "?s = s\<lparr>rc_route := (case e of RouteSent rt \<Rightarrow> rt | _ \<Rightarrow> rc_route s), rc_queue := q\<rparr>"
    and q: "q = [] \<longleftrightarrow> rc_queue s = [] \<and> \<not> concerns_graph e"
    using Cons.prems by (auto simp: q_def burst_event_def concerns_graph_def GRAPH_CHANNEL_def split: if_splits)
  have "\<exists>q'. run (rc_step r t) ?s es = ?s\<lparr>rc_route := last_route (rc_route ?s) es, rc_queue := q'\<rparr>
      \<and> (q' = [] \<longleftrightarrow> rc_queue ?s = [] \<and> \<not> list_ex concerns_graph es)"
    by (rule Cons.IH) (use Cons.prems s in simp_all)
  then show ?case using s q by (auto simp: last_route_Cons)
qed

text \<open>
  Between two steps: no event waits in the channel unless a bring-up is under way, the channel keeps
  its bound, and the loop goes on without its source only to end the bring-up.
\<close>

definition rc_inv :: "'w rc \<Rightarrow> bool" where
  "rc_inv s \<longleftrightarrow> length (rc_queue s) \<le> GRAPH_CHANNEL
     \<and> (case rc_phase s of
          BringingUp _ \<Rightarrow> True
        | Returned \<Rightarrow> True
        | _ \<Rightarrow> rc_queue s = [] \<and> \<not> rc_gone s)"

interpretation reconciler: machine "rc_step r t" rc_inv for r t
proof unfold_locales
  fix s :: "'a rc" and e
  show "rc_inv s \<Longrightarrow> rc_inv (rc_step r t s e)"
    by (cases e; cases "rc_phase s")
      (auto simp: rc_inv_def next_round_def read_route_def assert_route_def)
qed

lemma latency_at_least_50: "50 \<le> capture_latency_ms pq"
  by (simp add: capture_latency_ms_def Let_def)

lemma daemon_setup_command:
  "daemon_setup r t route stop w = (Inr (Some cmd), w') \<Longrightarrow>
     \<exists>tool pq. cmd = build_capture_command tool (NullSinkMonitor NULL_SINK_NAME) (capture_latency_ms pq)
       \<and> 50 \<le> capture_latency_ms pq"
  unfolding daemon_setup_def
  by (auto simp del: build_capture_command.simps intro!: latency_at_least_50
      split: prod.splits option.splits sum.splits if_splits)

section \<open>Properties\<close>

text \<open>
  C25 (a burst of graph events is reconciled once).  From the waiting state, an event followed by
  any burst of further events and route changes causes, when the window has elapsed, exactly one
  bring-up, with the route sent last.  A route sent while it is under way it does not see; but if a graph
  event came meanwhile the next window is open, and otherwise the loop waits.  A route change that no
  graph event accompanies causes no bring-up, however long the loop waits.
\<close>

theorem reconcile_once_per_burst:
  assumes "rc_phase s = Waiting" "rc_inv s" "list_all burst_event es" "list_all burst_event ms"
    "\<forall>e \<in> set qs. quiet_event e"
  shows "(let s' = run (rc_step r t) s (GraphEv g # es @ WindowElapsed # ms @ [BroughtUp]) in
      rc_routes s' = rc_routes s @ [last_route (rc_route s) es]
      \<and> rc_route s' = last_route (rc_route s) (es @ ms)
      \<and> rc_phase s' = (if list_ex concerns_graph ms then Debouncing else Waiting))
    \<and> rc_routes (run (rc_step r t) s qs) = rc_routes s
    \<and> rc_world (run (rc_step r t) s qs) = rc_world s"
proof -
  let ?r = "last_route (rc_route s) es"
  let ?s = "s\<lparr>rc_phase := BringingUp ?r, rc_route := ?r\<rparr>"
  have open_source: "\<not> rc_gone s" "rc_queue s = []" using assms(1,2) by (simp_all add: rc_inv_def)
  have "run (rc_step r t) s (GraphEv g # es @ [WindowElapsed]) = ?s"
    using assms(1) rc_burst[OF assms(3), of "s\<lparr>rc_phase := Debouncing\<rparr>" r t]
    by (simp add: read_route_def)
  moreover obtain q where q: "run (rc_step r t) ?s ms = ?s\<lparr>rc_route := last_route ?r ms, rc_queue := q\<rparr>"
    "q = [] \<longleftrightarrow> \<not> list_ex concerns_graph ms"
    using rc_in_flight[OF assms(4), of ?s ?r r t] open_source by auto
  ultimately have "run (rc_step r t) s (GraphEv g # es @ WindowElapsed # ms @ [BroughtUp])
      = next_round (assert_route r t ?r (?s\<lparr>rc_route := last_route ?r ms, rc_queue := q\<rparr>))"
    by simp
  then show ?thesis using rc_quiet[OF assms(5,1), of r t] q(2) open_source
    by (simp add: Let_def next_round_def assert_route_def last_route_def)
qed

definition demo_rc :: "nat rc" where
  "demo_rc = rc_start default_desired_route 0"

theorem reconcile_once_per_burst_witness:
  "(let s' = run (rc_step (ee_run demo_eq_env) (ee_timer demo_eq_env)) demo_rc
        (GraphEv Sink # [GraphEv Server, RouteSent \<lparr>default_sink = EQ_SINK_NAME\<rparr>]
          @ WindowElapsed # [RouteSent default_desired_route, GraphEv Sink] @ [BroughtUp]) in
      rc_routes s' = rc_routes demo_rc
        @ [last_route (rc_route demo_rc) [GraphEv Server, RouteSent \<lparr>default_sink = EQ_SINK_NAME\<rparr>]]
      \<and> rc_route s' = last_route (rc_route demo_rc)
          ([GraphEv Server, RouteSent \<lparr>default_sink = EQ_SINK_NAME\<rparr>]
            @ [RouteSent default_desired_route, GraphEv Sink])
      \<and> rc_phase s' = (if list_ex concerns_graph [RouteSent default_desired_route, GraphEv Sink]
                       then Debouncing else Waiting))
    \<and> rc_routes (run (rc_step (ee_run demo_eq_env) (ee_timer demo_eq_env)) demo_rc
        [RouteSent \<lparr>default_sink = EQ_SINK_NAME\<rparr>]) = rc_routes demo_rc
    \<and> rc_world (run (rc_step (ee_run demo_eq_env) (ee_timer demo_eq_env)) demo_rc
        [RouteSent \<lparr>default_sink = EQ_SINK_NAME\<rparr>]) = rc_world demo_rc"
  by (rule reconcile_once_per_burst)
    (simp_all add: demo_rc_def rc_start_def rc_inv_def burst_event_def quiet_event_def)

end
