(* ===== verification/OrderedMap.thy ===== *)
theory OrderedMap
  imports Prelude
begin

text \<open>
  The ordered maps of the sources (\<open>BTreeMap\<close>): the interface as the locale \<open>ordered_map\<close>,
  and association lists in strictly increasing key order as the model of it.
\<close>

locale ordered_map =
  fixes empty :: 'm
    and get :: "'m \<Rightarrow> 'k::linorder \<Rightarrow> 'v option"
    and ins :: "'k \<Rightarrow> 'v \<Rightarrow> 'm \<Rightarrow> 'm"
    and del :: "'k \<Rightarrow> 'm \<Rightarrow> 'm"
    and entries :: "'m \<Rightarrow> ('k \<times> 'v) list"
    and wf :: "'m \<Rightarrow> bool"
  assumes wf_empty: "wf empty"
    and get_empty: "get empty k = None"
    and wf_ins: "wf m \<Longrightarrow> wf (ins k v m)"
    and get_ins: "wf m \<Longrightarrow> get (ins k v m) j = (if j = k then Some v else get m j)"
    and wf_del: "wf m \<Longrightarrow> wf (del k m)"
    and get_del: "wf m \<Longrightarrow> get (del k m) j = (if j = k then None else get m j)"
    and entries_sorted: "wf m \<Longrightarrow> sorted_wrt (<) (map fst (entries m))"
    and entries_get: "wf m \<Longrightarrow> map_of (entries m) = get m"
begin

text \<open>What is iterated depends only on the contents, not on the order of the operations.\<close>

lemma sorted_entries_unique:
  fixes xs ys :: "('k \<times> 'v) list"
  shows "sorted_wrt (<) (map fst xs) \<Longrightarrow> sorted_wrt (<) (map fst ys) \<Longrightarrow> map_of xs = map_of ys \<Longrightarrow> xs = ys"
proof (induction xs arbitrary: ys)
  case Nil
  then show ?case by (cases ys) (auto simp: fun_eq_iff split: if_splits)
next
  case (Cons x xs)
  obtain k v where x: "x = (k, v)" by (cases x)
  have kxs: "map_of xs k = None"
    using Cons.prems(1) x by (auto simp: map_of_eq_None_iff)
  have "map_of ys k = Some v" using fun_cong[OF Cons.prems(3), of k] x by simp
  then obtain y ys' where ys: "ys = y # ys'" by (cases ys) auto
  obtain k' v' where y: "y = (k', v')" by (cases y)
  have "k' = k"
  proof (rule ccontr)
    assume ne: "k' \<noteq> k"
    have "k \<in> set (map fst ys')" using \<open>map_of ys k = Some v\<close> ys y ne
      by (auto dest: map_of_SomeD split: if_splits intro: rev_image_eqI)
    then have "k' < k" using Cons.prems(2) ys y by auto
    have "map_of (x # xs) k' = Some v'" using fun_cong[OF Cons.prems(3), of k'] ys y by simp
    then have "k' \<in> set (map fst xs)" using x ne
      by (auto dest: map_of_SomeD split: if_splits intro: rev_image_eqI)
    then have "k < k'" using Cons.prems(1) x by auto
    with \<open>k' < k\<close> show False by simp
  qed
  moreover from this have "v' = v" using \<open>map_of ys k = Some v\<close> ys y by simp
  moreover have "xs = ys'"
  proof (rule Cons.IH)
    show "map_of xs = map_of ys'"
    proof
      fix j
      show "map_of xs j = map_of ys' j"
      proof (cases "j = k")
        case True
        have "map_of ys' k = None"
          using Cons.prems(2) ys y \<open>k' = k\<close> by (auto simp: map_of_eq_None_iff)
        then show ?thesis using True kxs by simp
      next
        case False
        then show ?thesis using fun_cong[OF Cons.prems(3), of j] x ys y \<open>k' = k\<close> by simp
      qed
    qed
  qed (use Cons.prems x ys y in auto)
  ultimately show ?case using x ys y by simp
qed

lemma entries_extensional:
  "wf m \<Longrightarrow> wf m' \<Longrightarrow> (\<And>k. get m k = get m' k) \<Longrightarrow> entries m = entries m'"
  by (rule sorted_entries_unique) (auto simp: entries_sorted entries_get fun_eq_iff)

lemma ins_commute: "wf m \<Longrightarrow> j \<noteq> k \<Longrightarrow> entries (ins j u (ins k v m)) = entries (ins k v (ins j u m))"
  by (rule entries_extensional) (auto simp: wf_ins get_ins)

end

section \<open>Sorted association lists\<close>

type_synonym ('k, 'v) btree_map = "('k \<times> 'v) list"

fun bt_insert :: "'k::linorder \<Rightarrow> 'v \<Rightarrow> ('k, 'v) btree_map \<Rightarrow> ('k, 'v) btree_map" where
  "bt_insert k v [] = [(k, v)]"
| "bt_insert k v ((k', v') # m) =
     (if k < k' then (k, v) # (k', v') # m
      else if k = k' then (k, v) # m
      else (k', v') # bt_insert k v m)"

fun bt_remove :: "'k \<Rightarrow> ('k, 'v) btree_map \<Rightarrow> ('k, 'v) btree_map" where
  "bt_remove k [] = []"
| "bt_remove k ((k', v') # m) = (if k = k' then m else (k', v') # bt_remove k m)"

definition bt_wf :: "('k::linorder, 'v) btree_map \<Rightarrow> bool" where
  "bt_wf m \<longleftrightarrow> sorted_wrt (<) (map fst m)"

lemma keys_bt_insert: "fst ` set (bt_insert k v m) = insert k (fst ` set m)"
  by (induction k v m rule: bt_insert.induct) auto

lemma bt_wf_insert: "bt_wf m \<Longrightarrow> bt_wf (bt_insert k v m)"
proof (induction k v m rule: bt_insert.induct)
  case (2 k v k' v' m)
  have "\<forall>x \<in> fst ` set (bt_insert k v m). k' < x" if "\<not> k < k'" "k \<noteq> k'"
    using 2 that by (auto simp: keys_bt_insert bt_wf_def)
  then show ?case using 2 by (fastforce simp: bt_wf_def)
qed (simp add: bt_wf_def)

lemma map_of_bt_insert: "map_of (bt_insert k v m) j = (if j = k then Some v else map_of m j)"
  by (induction k v m rule: bt_insert.induct) auto

lemma keys_bt_remove: "fst ` set (bt_remove k m) \<subseteq> fst ` set m"
  by (induction k m rule: bt_remove.induct) auto

lemma bt_wf_remove: "bt_wf m \<Longrightarrow> bt_wf (bt_remove k m)"
proof (induction k m rule: bt_remove.induct)
  case (2 k k' v' m)
  then show ?case using keys_bt_remove[of k m] by (fastforce simp: bt_wf_def)
qed (simp add: bt_wf_def)

lemma map_of_bt_remove:
  "bt_wf m \<Longrightarrow> map_of (bt_remove k m) j = (if j = k then None else map_of m j)"
proof (induction k m rule: bt_remove.induct)
  case (2 k k' v' m)
  have "map_of m k' = None" using "2.prems" by (auto simp: bt_wf_def map_of_eq_None_iff)
  then show ?case using 2 by (auto simp: bt_wf_def)
qed simp

interpretation bt: ordered_map "[]" map_of bt_insert bt_remove "\<lambda>m. m" bt_wf
  by unfold_locales
    (auto simp: bt_wf_insert map_of_bt_insert bt_wf_remove map_of_bt_remove, auto simp: bt_wf_def)

end
