(* ===== verification/Bluetooth.thy ===== *)
theory Bluetooth
  imports OrderedMap State
begin

text \<open>
  The Bluetooth core: addresses (src/src/bluetooth/addr.rs), the device life cycle (device.rs,
  events.rs), the audio-node probe (audio_node.rs), the adapter commands (adapter.rs), the
  manager that tracks the devices (manager.rs), and the bridge to the shared state and the
  command loop (service.rs).  D-Bus itself (bluer) is the environment.
\<close>

section \<open>Addresses\<close>

definition address_from_path :: "string \<Rightarrow> string option" where
  "address_from_path path =
     map_option (replace_char CHR ''_'' CHR '':'')
       (Option.bind (find (\<lambda>seg. starts_with seg ''dev_'') (split_on CHR ''/'' path))
          (strip_prefix ''dev_''))"

definition path_from_address :: "string \<Rightarrow> string \<Rightarrow> string" where
  "path_from_address adapter_path address =
     adapter_path @ ''/dev_'' @ replace_char CHR '':'' CHR ''_'' address"

section \<open>The device life cycle\<close>

datatype device_state = Disconnected | Discovered | Connecting | Connected | AudioActive

fun device_state_as_str :: "device_state \<Rightarrow> string" where
  "device_state_as_str Disconnected = ''disconnected''"
| "device_state_as_str Discovered = ''discovered''"
| "device_state_as_str Connecting = ''connecting''"
| "device_state_as_str Connected = ''connected''"
| "device_state_as_str AudioActive = ''audio_active''"

definition can_transition_to :: "device_state \<Rightarrow> device_state \<Rightarrow> bool" where
  "can_transition_to s next =
     (if next = Disconnected then s \<noteq> Disconnected
      else (s, next) \<in> {(Disconnected, Discovered), (Discovered, Connecting),
        (Connecting, Connected), (Connected, AudioActive), (AudioActive, Connected)})"

datatype device_event = EvDiscovered | EvConnecting | EvConnected | AudioNodeAppeared
  | AudioNodeDisappeared | EvDisconnected

fun event_target :: "device_event \<Rightarrow> device_state" where
  "event_target EvDiscovered = Discovered"
| "event_target EvConnecting = Connecting"
| "event_target EvConnected = Connected"
| "event_target AudioNodeDisappeared = Connected"
| "event_target AudioNodeAppeared = AudioActive"
| "event_target EvDisconnected = Disconnected"

definition apply_event :: "device_state \<Rightarrow> device_event \<Rightarrow> device_state" where
  "apply_event state ev =
     (let target = event_target ev
      in if target = state \<or> can_transition_to state target then target else state)"

section \<open>The audio-node probe\<close>

definition BLUEZ_INPUT_PREFIX :: string where "BLUEZ_INPUT_PREFIX = ''bluez_input.''"

definition mac_of_token :: "string \<Rightarrow> string option" where
  "mac_of_token token =
     (case strip_prefix BLUEZ_INPUT_PREFIX token of
        None \<Rightarrow> None
      | Some rest \<Rightarrow>
          (let mac = replace_char CHR ''_'' CHR '':'' (hd (split_on CHR ''.'' rest))
           in if mac \<noteq> [] then Some mac else None))"

definition bluez_input_addresses :: "string \<Rightarrow> string list" where
  "bluez_input_addresses sources_output =
     concat (map (\<lambda>line. List.map_filter mac_of_token (split_whitespace line)) (lines sources_output))"

text \<open>What the probe makes of the answer of the command.\<close>

definition probe_answer :: "(string \<Rightarrow> 'a) \<Rightarrow> io_error + command_output \<Rightarrow> string + 'a" where
  "probe_answer parse res =
     (case res of
        Inl e \<Rightarrow> Inl (''failed to run pactl: '' @ err_msg e)
      | Inr out \<Rightarrow>
          if success out then Inr (parse (stdout out))
          else Inl (''pactl list short sources failed: '' @ trim (stderr out)))"

definition probe_bluez_input_addresses ::
    "'w runner \<Rightarrow> 'w \<Rightarrow> (string + string list) \<times> 'w" where
  "probe_bluez_input_addresses r w =
     (case r w ''pactl'' [''list'', ''short'', ''sources''] of
        (res, w') \<Rightarrow> (probe_answer bluez_input_addresses res, w'))"

definition has_bluez_input_node :: "string \<Rightarrow> bool" where
  "has_bluez_input_node sources_output =
     list_ex (\<lambda>line. contains line BLUEZ_INPUT_PREFIX) (lines sources_output)"

definition probe_bluez_input :: "'w runner \<Rightarrow> 'w \<Rightarrow> (string + bool) \<times> 'w" where
  "probe_bluez_input r w =
     (case r w ''pactl'' [''list'', ''short'', ''sources''] of
        (res, w') \<Rightarrow> (probe_answer has_bluez_input_node res, w'))"

section \<open>Adapter commands\<close>

definition ADAPTER_COD :: string where "ADAPTER_COD = ''0x240414''"

text \<open>The debug print of the arguments in the error text is the argument \<open>dbg\<close>.\<close>

definition run_hciconfig ::
    "(string list \<Rightarrow> string) \<Rightarrow> 'w runner \<Rightarrow> string list \<Rightarrow> 'w \<Rightarrow> (string + unit) \<times> 'w" where
  "run_hciconfig dbg r args w =
     (case r w ''hciconfig'' args of
        (Inl e, w') \<Rightarrow> (Inl (''failed to run hciconfig: '' @ err_msg e), w')
      | (Inr out, w') \<Rightarrow>
          (if success out then Inr ()
           else Inl (''hciconfig '' @ dbg args @ '' failed: '' @ trim (stderr out)), w'))"

definition set_class_of_device ::
    "(string list \<Rightarrow> string) \<Rightarrow> 'w runner \<Rightarrow> string \<Rightarrow> 'w \<Rightarrow> (string + unit) \<times> 'w" where
  "set_class_of_device dbg r hci w = run_hciconfig dbg r [hci, ''class'', ADAPTER_COD] w"

definition set_hci_name ::
    "(string list \<Rightarrow> string) \<Rightarrow> 'w runner \<Rightarrow> string \<Rightarrow> string \<Rightarrow> 'w \<Rightarrow> (string + unit) \<times> 'w" where
  "set_hci_name dbg r hci name w = run_hciconfig dbg r [hci, ''name'', name] w"

section \<open>The manager\<close>

datatype bluez_event =
    DeviceAdded string "string option" "string option"
  | DeviceRemoved string
  | BzConnected string
  | BzDisconnected string

record device_snapshot =
  ds_addr :: string
  ds_name :: "string option"
  ds_state :: device_state
  ds_icon :: "string option"

type_synonym bt_manager = "(string, device_snapshot) btree_map"

definition set_state :: "string \<Rightarrow> device_state \<Rightarrow> bt_manager \<Rightarrow> bt_manager" where
  "set_state addr state m =
     bt_insert addr
       (case map_of m addr of
          Some s \<Rightarrow> s\<lparr>ds_state := state\<rparr>
        | None \<Rightarrow> \<lparr>ds_addr = addr, ds_name = None, ds_state = state, ds_icon = None\<rparr>) m"

text \<open>An addition updates what it carries and lifts a disconnected device.\<close>

definition touch :: "string option \<Rightarrow> string option \<Rightarrow> device_snapshot \<Rightarrow> device_snapshot" where
  "touch name icon s =
     s\<lparr>ds_name := (if name \<noteq> None then name else ds_name s),
       ds_icon := (if icon \<noteq> None then icon else ds_icon s),
       ds_state := (if ds_state s = Disconnected then Discovered else ds_state s)\<rparr>"

fun on_event :: "bluez_event \<Rightarrow> bt_manager \<Rightarrow> bt_manager" where
  "on_event (DeviceAdded addr name icon) m =
     bt_insert addr
       (touch name icon
          (case map_of m addr of
             Some s \<Rightarrow> s
           | None \<Rightarrow> \<lparr>ds_addr = addr, ds_name = name, ds_state = Disconnected, ds_icon = icon\<rparr>)) m"
| "on_event (BzConnected addr) m = set_state addr Connected m"
| "on_event (BzDisconnected addr) m = set_state addr Disconnected m"
| "on_event (DeviceRemoved addr) m = bt_remove addr m"

definition reconcile_audio :: "string list \<Rightarrow> bt_manager \<Rightarrow> bt_manager" where
  "reconcile_audio active m =
     map (\<lambda>(k, s). (k, s\<lparr>ds_state := apply_event (ds_state s)
        (if ds_addr s \<in> set active then AudioNodeAppeared else AudioNodeDisappeared)\<rparr>)) m"

definition bt_snapshot :: "bt_manager \<Rightarrow> device_snapshot list" where
  "bt_snapshot m = map snd m"

definition state_of :: "string \<Rightarrow> bt_manager \<Rightarrow> device_state option" where
  "state_of addr m = map_option ds_state (map_of m addr)"

text \<open>
  The manager task: it reacts to BlueZ events and to the answers of the periodic probe, and
  sends every new snapshot.
\<close>

record bt_task =
  bt_mgr :: bt_manager
  bt_sent :: "device_snapshot list list"
  bt_done :: bool

datatype bt_event =
    BtEvent bluez_event
  | BtLagged
  | BtClosed
  | BtProbe "io_error + command_output"
  | BtShutdown

definition bt_send :: "bt_manager \<Rightarrow> bt_task \<Rightarrow> bt_task" where
  "bt_send m s = s\<lparr>bt_mgr := m, bt_sent := bt_sent s @ [bt_snapshot m]\<rparr>"

fun bt_step :: "bt_task \<Rightarrow> bt_event \<Rightarrow> bt_task" where
  "bt_step s (BtEvent ev) = (if bt_done s then s else bt_send (on_event ev (bt_mgr s)) s)"
| "bt_step s BtLagged = s"
| "bt_step s BtClosed = s\<lparr>bt_done := True\<rparr>"
| "bt_step s (BtProbe res) =
     (if bt_done s then s
      else case probe_answer bluez_input_addresses res of
          Inl _ \<Rightarrow> s
        | Inr active \<Rightarrow> bt_send (reconcile_audio active (bt_mgr s)) s)"
| "bt_step s BtShutdown = s\<lparr>bt_done := True\<rparr>"

definition bt_start :: bt_task where
  "bt_start = \<lparr>bt_mgr = [], bt_sent = [], bt_done = False\<rparr>"

section \<open>The bridge and the command loop\<close>

definition device_infos_from :: "device_snapshot list \<Rightarrow> device_info list" where
  "device_infos_from snaps =
     map (\<lambda>s. \<lparr>di_addr = ds_addr s, di_name = ds_name s,
               di_state = device_state_as_str (ds_state s), di_icon = ds_icon s\<rparr>) snaps"

datatype bridge_event = SnapChanged "device_snapshot list" | ProducerGone | BridgeShutdown

fun bridge_step :: "app_handle \<times> bool \<Rightarrow> bridge_event \<Rightarrow> app_handle \<times> bool" where
  "bridge_step (h, stopped) (SnapChanged snaps) =
     (if stopped then (h, stopped) else (set_bluetooth_devices (device_infos_from snaps) h, stopped))"
| "bridge_step (h, stopped) ProducerGone = (h, True)"
| "bridge_step (h, stopped) BridgeShutdown = (h, True)"

datatype bt_command = BtConnect string | BtDisconnect string | BtForget string | BtSetName string

text \<open>
  The D-Bus operations the commands need; their results are only logged.
\<close>

record 'w dbus =
  db_connect :: "string \<Rightarrow> 'w \<Rightarrow> 'w"
  db_disconnect :: "string \<Rightarrow> 'w \<Rightarrow> 'w"
  db_remove :: "string \<Rightarrow> 'w \<Rightarrow> 'w"
  db_set_alias :: "string \<Rightarrow> 'w \<Rightarrow> 'w"

fun handle_bt_command ::
    "'w dbus \<Rightarrow> (string list \<Rightarrow> string) \<Rightarrow> 'w runner \<Rightarrow> (string \<Rightarrow> 'w \<Rightarrow> 'w) \<Rightarrow> string
      \<Rightarrow> bt_command \<Rightarrow> app_handle \<times> 'w \<Rightarrow> app_handle \<times> 'w" where
  "handle_bt_command db dbg r save hci (BtConnect addr) (h, w) = (h, db_connect db addr w)"
| "handle_bt_command db dbg r save hci (BtDisconnect addr) (h, w) = (h, db_disconnect db addr w)"
| "handle_bt_command db dbg r save hci (BtForget addr) (h, w) = (h, db_remove db addr w)"
| "handle_bt_command db dbg r save hci (BtSetName n) (h, w) =
     (set_device_name n h, save n (snd (set_hci_name dbg r hci n (db_set_alias db n w))))"

section \<open>Lemmas\<close>

definition entry_ok :: "string \<times> device_snapshot \<Rightarrow> bool" where
  "entry_ok e \<longleftrightarrow> ds_addr (snd e) = fst e \<and> ds_state (snd e) \<noteq> Connecting"

definition mgr_ok :: "bt_manager \<Rightarrow> bool" where
  "mgr_ok m \<longleftrightarrow> bt_wf m \<and> list_all entry_ok m"

lemma list_all_bt_insert: "list_all P m \<Longrightarrow> P (k, v) \<Longrightarrow> list_all P (bt_insert k v m)"
  by (induction k v m rule: bt_insert.induct) auto

lemma list_all_bt_remove: "list_all P m \<Longrightarrow> list_all P (bt_remove k m)"
  by (induction k m rule: bt_remove.induct) auto

lemma mgr_ok_get: "mgr_ok m \<Longrightarrow> map_of m k = Some s \<Longrightarrow> ds_addr s = k \<and> ds_state s \<noteq> Connecting"
  by (fastforce simp: mgr_ok_def list_all_iff entry_ok_def dest!: map_of_SomeD)

lemma mgr_ok_insert:
  "mgr_ok m \<Longrightarrow> ds_addr v = k \<Longrightarrow> ds_state v \<noteq> Connecting \<Longrightarrow> mgr_ok (bt_insert k v m)"
  by (simp add: mgr_ok_def bt_wf_insert list_all_bt_insert entry_ok_def)

lemma mgr_ok_on_event: "mgr_ok m \<Longrightarrow> mgr_ok (on_event ev m)"
proof (cases ev)
  case (DeviceAdded a n i)
  then show "mgr_ok m \<Longrightarrow> ?thesis"
    by (auto simp: touch_def dest: mgr_ok_get intro!: mgr_ok_insert split: option.splits)
next
  case (DeviceRemoved a)
  then show "mgr_ok m \<Longrightarrow> ?thesis"
    by (simp add: mgr_ok_def bt_wf_remove list_all_bt_remove)
qed (auto simp: set_state_def dest: mgr_ok_get intro!: mgr_ok_insert split: option.splits)

lemma apply_event_audio:
  "s \<noteq> Connecting \<Longrightarrow> apply_event s AudioNodeAppeared = (if s = Connected then AudioActive else s)"
  "s \<noteq> Connecting \<Longrightarrow> apply_event s AudioNodeDisappeared = (if s = AudioActive then Connected else s)"
  by (cases s; simp add: apply_event_def can_transition_to_def)+

lemma mgr_ok_reconcile: "mgr_ok m \<Longrightarrow> mgr_ok (reconcile_audio active m)"
  by (auto simp: mgr_ok_def bt_wf_def reconcile_audio_def list_all_iff entry_ok_def
      apply_event_audio o_def case_prod_unfold sorted_wrt_map split: if_splits)

definition bt_inv :: "bt_task \<Rightarrow> bool" where
  "bt_inv s \<longleftrightarrow> mgr_ok (bt_mgr s)
     \<and> (if bt_sent s = [] then bt_mgr s = [] else last (bt_sent s) = bt_snapshot (bt_mgr s))"

lemma bt_inv_step: "bt_inv s \<Longrightarrow> bt_inv (bt_step s e)"
  by (cases e) (auto simp: bt_inv_def bt_send_def mgr_ok_on_event mgr_ok_reconcile split: sum.splits)

interpretation manager: machine bt_step bt_inv
  by unfold_locales (rule bt_inv_step)

lemma bt_start_inv: "bt_inv bt_start"
  by (simp add: bt_inv_def bt_start_def mgr_ok_def bt_wf_def)

subsection \<open>One device at a time\<close>

text \<open>
  The specification of the manager: what each event means for a single device, whatever the
  other devices do.
\<close>

fun device_spec :: "string \<Rightarrow> device_state option \<Rightarrow> bt_event \<Rightarrow> device_state option" where
  "device_spec a st (BtEvent (DeviceAdded b _ _)) =
     (if a \<noteq> b then st else if st = None \<or> st = Some Disconnected then Some Discovered else st)"
| "device_spec a st (BtEvent (DeviceRemoved b)) = (if a = b then None else st)"
| "device_spec a st (BtEvent (BzConnected b)) = (if a = b then Some Connected else st)"
| "device_spec a st (BtEvent (BzDisconnected b)) = (if a = b then Some Disconnected else st)"
| "device_spec a st (BtProbe res) =
     (case probe_answer bluez_input_addresses res of
        Inl _ \<Rightarrow> st
      | Inr active \<Rightarrow>
          if a \<in> set active then (if st = Some Connected then Some AudioActive else st)
          else (if st = Some AudioActive then Some Connected else st))"
| "device_spec a st _ = st"

lemma state_of_reconcile:
  assumes "mgr_ok m"
  shows "state_of a (reconcile_audio active m) =
    (if a \<in> set active then (if state_of a m = Some Connected then Some AudioActive else state_of a m)
     else (if state_of a m = Some AudioActive then Some Connected else state_of a m))"
proof (cases "map_of m a")
  case None
  then show ?thesis by (simp add: state_of_def reconcile_audio_def map_of_map)
next
  case (Some s)
  then show ?thesis using mgr_ok_get[OF assms Some]
    by (simp add: state_of_def reconcile_audio_def map_of_map apply_event_audio)
qed

lemma state_of_on_event:
  "mgr_ok m \<Longrightarrow> state_of a (on_event ev m) = device_spec a (state_of a m) (BtEvent ev)"
  by (cases ev) (auto simp: state_of_def set_state_def touch_def map_of_bt_insert map_of_bt_remove
      mgr_ok_def split: option.splits)

lemma state_of_step:
  "bt_inv s \<Longrightarrow> \<not> bt_done s \<Longrightarrow> state_of a (bt_mgr (bt_step s e)) = device_spec a (state_of a (bt_mgr s)) e"
  by (cases e) (auto simp: bt_inv_def bt_send_def state_of_on_event state_of_reconcile split: sum.splits)

definition ends_task :: "bt_event \<Rightarrow> bool" where
  "ends_task e \<longleftrightarrow> e = BtClosed \<or> e = BtShutdown"

lemma bt_done_run: "bt_done s \<Longrightarrow> bt_mgr (run bt_step s es) = bt_mgr s"
proof (induction es arbitrary: s)
  case (Cons e es)
  have "bt_done (bt_step s e)" "bt_mgr (bt_step s e) = bt_mgr s" using Cons.prems by (cases e; simp)+
  then show ?case using Cons.IH[of "bt_step s e"] by simp
qed simp

lemma bt_done_step: "\<not> bt_done s \<Longrightarrow> bt_done (bt_step s e) = ends_task e"
  by (cases e) (auto simp: ends_task_def bt_send_def split: sum.splits)

lemma state_of_run:
  "bt_inv s \<Longrightarrow> \<not> bt_done s \<Longrightarrow> state_of a (bt_mgr (run bt_step s es)) =
     foldl (device_spec a) (state_of a (bt_mgr s)) (takeWhile (\<lambda>e. \<not> ends_task e) es)"
proof (induction es arbitrary: s)
  case (Cons e es)
  show ?case
  proof (cases "ends_task e")
    case True
    then show ?thesis using Cons.prems bt_done_run[of "bt_step s e" es] bt_done_step[of s e]
      by (auto simp: ends_task_def)
  next
    case False
    then show ?thesis
      using Cons.IH[OF bt_inv_step[OF Cons.prems(1), of e]] Cons.prems bt_done_step[of s e]
      by (simp add: state_of_step)
  qed
qed simp

lemma split_on_append: "split_on d (a @ d # b) = split_on d a @ split_on d b"
proof (induction a)
  case (Cons x a)
  then show ?case
    by (cases "split_on d a") (auto simp: split_by_ne)
qed simp

lemma replace_char_back: "a \<notin> set s \<Longrightarrow> replace_char a b (replace_char b a s) = s"
  by (induction s) (auto simp: replace_char_def)

section \<open>Properties\<close>

text \<open>
  C17 (the manager refines one small machine per device).  After any events, the state of a
  device is the one its own history determines, up to the end of the task: events of other
  devices, lost events and failed probes do not enter into it.
\<close>

theorem manager_refines_device_spec:
  "state_of a (bt_mgr (run bt_step bt_start es)) =
     foldl (device_spec a) None (takeWhile (\<lambda>e. \<not> ends_task e) es)"
  using state_of_run[OF bt_start_inv, of a es] by (simp add: bt_start_def state_of_def)

text \<open>
  What the manager publishes.  The last snapshot sent is the state of the manager; it is
  strictly sorted by address, so it names no device twice, and shows no device as connecting.
\<close>

theorem manager_snapshots_sorted:
  "let s = run bt_step bt_start es in
     (if bt_sent s = [] then bt_mgr s = [] else last (bt_sent s) = bt_snapshot (bt_mgr s))
     \<and> sorted_wrt (<) (map ds_addr (bt_snapshot (bt_mgr s)))
     \<and> Connecting \<notin> ds_state ` set (bt_snapshot (bt_mgr s))"
proof -
  let ?s = "run bt_step bt_start es"
  have inv: "bt_inv ?s" by (rule manager.run_inv[OF bt_start_inv])
  have "map ds_addr (bt_snapshot (bt_mgr ?s)) = map fst (bt_mgr ?s)"
    using inv by (auto simp: bt_inv_def mgr_ok_def bt_snapshot_def list_all_iff entry_ok_def)
  moreover have "sorted_wrt (<) (map fst (bt_mgr ?s))"
    "Connecting \<notin> ds_state ` set (bt_snapshot (bt_mgr ?s))"
    using inv by (auto simp: bt_inv_def mgr_ok_def bt_wf_def bt_snapshot_def list_all_iff entry_ok_def)
  ultimately show ?thesis using inv by (simp add: Let_def bt_inv_def)
qed

text \<open>
  Addresses survive the object path.  The path built from an address gives the address back,
  also with the transport segments BlueZ appends, when the adapter path has no device segment.
\<close>

theorem address_path_roundtrip:
  assumes "list_all (\<lambda>seg. \<not> starts_with seg ''dev_'') (split_on CHR ''/'' adapter)"
    and "CHR ''/'' \<notin> set addr" "CHR ''_'' \<notin> set addr" "ext = [] \<or> hd ext = CHR ''/''"
  shows "address_from_path (path_from_address adapter addr @ ext) = Some addr"
proof -
  let ?us = "replace_char CHR '':'' CHR ''_'' addr"
  have undo: "replace_char CHR ''_'' CHR '':'' ?us = addr" by (rule replace_char_back[OF assms(3)])
  have us: "\<forall>c \<in> set (''dev_'' @ ?us). c \<noteq> CHR ''/''"
    using assms(2) by (auto simp: replace_char_def)
  have "\<exists>rest. split_on CHR ''/'' (''dev_'' @ ?us @ ext) = (''dev_'' @ ?us) # rest"
  proof (cases ext)
    case Nil
    then show ?thesis using split_by_no_sep[OF us] by (simp del: split_by.simps)
  next
    case (Cons c cs)
    then have "c = CHR ''/''" using assms(4) by simp
    then show ?thesis using split_by_append_sep[OF us refl, of cs] Cons by (simp del: split_by.simps)
  qed
  then obtain rest where rest: "split_on CHR ''/'' (''dev_'' @ ?us @ ext) = (''dev_'' @ ?us) # rest"
    by blast
  have "split_on CHR ''/'' (path_from_address adapter addr @ ext)
      = split_on CHR ''/'' adapter @ (''dev_'' @ ?us) # rest"
    using split_on_append[of "CHR ''/''" adapter "''dev_'' @ ?us @ ext"] rest
    by (simp add: path_from_address_def del: split_by.simps)
  moreover have "find (\<lambda>seg. starts_with seg ''dev_'') (split_on CHR ''/'' adapter) = None"
    using assms(1) by (simp add: find_None_iff list_all_iff)
  ultimately have "find (\<lambda>seg. starts_with seg ''dev_'')
      (split_on CHR ''/'' (path_from_address adapter addr @ ext)) = Some (''dev_'' @ ?us)"
    by (simp add: find_append)
  then show ?thesis by (simp add: address_from_path_def undo strip_prefix_def)
qed

theorem address_path_roundtrip_witness:
  "address_from_path (path_from_address ''/org/bluez/hci0'' ''AA:BB:CC:DD:EE:FF'' @ ''/sep1/fd0'')
    = Some ''AA:BB:CC:DD:EE:FF''"
  by (rule address_path_roundtrip) simp_all

end
