(* ===== verification/Pairing.thy ===== *)
theory Pairing
  imports Effects Machine
begin

text \<open>
  The pairing window (src/src/bluetooth/pairing.rs): while open the adapter is discoverable and
  pairable; it closes after its duration, on command, and on shutdown.

  The task is a step function over the branches of its two loops.  The adapter keeps the two
  settings; whether the \<open>n\<close>-th request to it succeeds is the argument \<open>okc\<close>, because the task
  ignores the results.  The timer event carries the clock; it does nothing before the deadline.
\<close>

datatype pairing_command = OpenWindow duration | CloseWindow

datatype pw_phase = PwClosed | PwOpen | PwReturned

record pairing =
  pw_phase :: pw_phase
  pw_deadline :: duration
  pw_discoverable :: bool
  pw_pairable :: bool
  pw_requests :: nat
  pw_open_state :: bool
  pw_sender_gone :: bool

definition set_discoverable :: "(nat \<Rightarrow> bool) \<Rightarrow> bool \<Rightarrow> pairing \<Rightarrow> pairing" where
  "set_discoverable okc b s =
     s\<lparr>pw_discoverable := (if okc (pw_requests s) then b else pw_discoverable s),
       pw_requests := Suc (pw_requests s)\<rparr>"

definition set_pairable :: "(nat \<Rightarrow> bool) \<Rightarrow> bool \<Rightarrow> pairing \<Rightarrow> pairing" where
  "set_pairable okc b s =
     s\<lparr>pw_pairable := (if okc (pw_requests s) then b else pw_pairable s),
       pw_requests := Suc (pw_requests s)\<rparr>"

definition close_adapter :: "(nat \<Rightarrow> bool) \<Rightarrow> pairing \<Rightarrow> pairing" where
  "close_adapter okc s =
     (set_pairable okc False (set_discoverable okc False s))\<lparr>pw_open_state := False\<rparr>"

definition open_adapter :: "(nat \<Rightarrow> bool) \<Rightarrow> pairing \<Rightarrow> pairing" where
  "open_adapter okc s = set_pairable okc True (set_discoverable okc True s)"

text \<open>Entering the closed state; with the command sender gone the task then returns.\<close>

definition enter_closed :: "(nat \<Rightarrow> bool) \<Rightarrow> pairing \<Rightarrow> pairing" where
  "enter_closed okc s =
     (close_adapter okc s)\<lparr>pw_phase := (if pw_sender_gone s then PwReturned else PwClosed)\<rparr>"

definition pairing_start :: "(nat \<Rightarrow> bool) \<Rightarrow> bool \<Rightarrow> bool \<Rightarrow> pairing" where
  "pairing_start okc discoverable pairable =
     enter_closed okc
       \<lparr>pw_phase = PwClosed, pw_deadline = 0, pw_discoverable = discoverable,
        pw_pairable = pairable, pw_requests = 0, pw_open_state = False, pw_sender_gone = False\<rparr>"

datatype pairing_event =
    PwCommand pairing_command duration
  | PwTimer duration
  | PwSenderGone
  | PwShutdown

fun pairing_step :: "(nat \<Rightarrow> bool) \<Rightarrow> pairing \<Rightarrow> pairing_event \<Rightarrow> pairing" where
  "pairing_step okc s (PwCommand c t) =
     (case pw_phase s of
        PwReturned \<Rightarrow> s
      | PwClosed \<Rightarrow>
          (case c of
             OpenWindow d \<Rightarrow>
               (open_adapter okc s)\<lparr>pw_phase := PwOpen, pw_open_state := True, pw_deadline := t + d\<rparr>
           | CloseWindow \<Rightarrow> s)
      | PwOpen \<Rightarrow>
          (case c of
             OpenWindow d \<Rightarrow> (open_adapter okc s)\<lparr>pw_deadline := t + d\<rparr>
           | CloseWindow \<Rightarrow> enter_closed okc s))"
| "pairing_step okc s (PwTimer t) =
     (if pw_phase s = PwOpen \<and> pw_deadline s \<le> t then enter_closed okc s else s)"
| "pairing_step okc s PwSenderGone =
     (case pw_phase s of
        PwReturned \<Rightarrow> s
      | PwClosed \<Rightarrow> s\<lparr>pw_phase := PwReturned, pw_sender_gone := True\<rparr>
      | PwOpen \<Rightarrow> enter_closed okc (s\<lparr>pw_sender_gone := True\<rparr>))"
| "pairing_step okc s PwShutdown =
     (case pw_phase s of
        PwReturned \<Rightarrow> s
      | PwClosed \<Rightarrow> s\<lparr>pw_phase := PwReturned\<rparr>
      | PwOpen \<Rightarrow> (close_adapter okc s)\<lparr>pw_phase := PwReturned\<rparr>)"

section \<open>Lemmas\<close>

lemmas adapter_defs = set_discoverable_def set_pairable_def close_adapter_def open_adapter_def
  enter_closed_def

text \<open>What the agent is told is the phase; the adapter follows while its requests succeed.\<close>

definition window_ok :: "(nat \<Rightarrow> bool) \<Rightarrow> pairing \<Rightarrow> bool" where
  "window_ok okc s \<longleftrightarrow> pw_open_state s = (pw_phase s = PwOpen)
     \<and> ((\<forall>n. okc n) \<longrightarrow> pw_discoverable s = (pw_phase s = PwOpen)
          \<and> pw_pairable s = (pw_phase s = PwOpen))"

lemma window_ok_step: "window_ok okc s \<Longrightarrow> window_ok okc (pairing_step okc s e)"
  by (cases e)
    (auto simp: window_ok_def adapter_defs split: pw_phase.splits pairing_command.splits)

lemma pairing_returned: "pw_phase s = PwReturned \<Longrightarrow> pairing_step okc s e = s"
  by (cases e) auto

interpretation window: halting_machine "pairing_step okc" "window_ok okc"
    "\<lambda>s. pw_phase s = PwReturned" for okc
  by unfold_locales (auto simp: window_ok_step pairing_returned)

lemma pairing_start_ok: "window_ok okc (pairing_start okc d p)"
  by (simp add: pairing_start_def window_ok_def adapter_defs)

text \<open>The last time the window was (re)opened decides when it closes.\<close>

definition opened_until :: "pairing_event \<Rightarrow> duration" where
  "opened_until e = (case e of PwCommand (OpenWindow d) t \<Rightarrow> t + d | _ \<Rightarrow> 0)"

lemma deadline_bound:
  assumes "\<forall>e \<in> set es. opened_until e \<le> T" "pw_phase s = PwOpen \<longrightarrow> pw_deadline s \<le> T"
  shows "pw_phase (run (pairing_step okc) s es) = PwOpen \<longrightarrow> pw_deadline (run (pairing_step okc) s es) \<le> T"
  using assms
proof (induction es arbitrary: s)
  case (Cons e es)
  have "pw_phase (pairing_step okc s e) = PwOpen \<longrightarrow> pw_deadline (pairing_step okc s e) \<le> T"
    using Cons.prems by (cases e)
      (auto simp: adapter_defs opened_until_def split: pw_phase.splits pairing_command.splits)
  then show ?case using Cons.IH[of "pairing_step okc s e"] Cons.prems(1) by simp
qed simp

section \<open>Properties\<close>

text \<open>
  C9 (the window and the adapter agree).  After any commands, timer events and shutdown, the
  agent is told "open" exactly while the window is open; and while the requests to the adapter
  succeed, the adapter is discoverable and pairable exactly while the window is open, also when
  it was found otherwise at the start.
\<close>

theorem pairing_window_agrees:
  "let s = run (pairing_step okc) (pairing_start okc d p) es in
     pw_open_state s = (pw_phase s = PwOpen)
     \<and> (if \<forall>n. okc n then pw_discoverable s = (pw_phase s = PwOpen) \<and> pw_pairable s = (pw_phase s = PwOpen)
        else True)"
proof -
  have "window_ok okc (run (pairing_step okc) (pairing_start okc d p) es)"
    by (rule window.run_inv[OF pairing_start_ok])
  then show ?thesis by (simp add: window_ok_def Let_def)
qed

text \<open>
  C24 (the window expires).  If every opening asked for the window to end by the time \<open>T\<close>, then a
  timer event at \<open>T\<close> or later finds the window closed or closes it: no series of re-openings
  keeps it open beyond the last end it was given.
\<close>

theorem pairing_window_expires:
  assumes "\<forall>e \<in> set es. opened_until e \<le> T" "T \<le> t"
  shows "pw_phase (run (pairing_step okc) (pairing_start okc d p) (es @ [PwTimer t])) \<noteq> PwOpen"
proof -
  have "pw_phase (pairing_start okc d p) = PwOpen \<longrightarrow> pw_deadline (pairing_start okc d p) \<le> T"
    by (simp add: pairing_start_def adapter_defs)
  from deadline_bound[OF assms(1) this, of okc] show ?thesis
    using assms(2) by (auto simp: adapter_defs)
qed

theorem pairing_window_expires_witness:
  "pw_phase (run (pairing_step (\<lambda>_. True)) (pairing_start (\<lambda>_. True) True False)
     ([PwCommand (OpenWindow (secs 60)) 0, PwCommand (OpenWindow (secs 60)) (secs 30)]
      @ [PwTimer (secs 90)])) \<noteq> PwOpen"
  by (rule pairing_window_expires[where T = "secs 90"])
    (simp_all add: opened_until_def secs_def)

text \<open>
  The results of the requests are ignored: when the requests that close the adapter fail, the
  window counts as closed while the adapter stays discoverable and pairable.
\<close>

theorem ignored_failures_leave_adapter_open:
  "let s = run (pairing_step (\<lambda>n. n < 4)) (pairing_start (\<lambda>n. n < 4) False False)
       [PwCommand (OpenWindow (secs 60)) 0, PwTimer (secs 60)]
   in pw_phase s = PwClosed \<and> pw_discoverable s \<and> pw_pairable s"
  by (simp add: pairing_start_def adapter_defs)

end
