(* ===== verification/Artwork.thy ===== *)
theory Artwork
  imports Values
begin

text \<open>
  Finding cover art (src/src/artwork.rs): the query address with its percent-encoding, reading
  the answer, and enlarging the picture.  A string is the sequence of its UTF-8 bytes.  The HTTP
  client and the JSON parser are arguments.
\<close>

definition is_unreserved :: "char \<Rightarrow> bool" where
  "is_unreserved c \<longleftrightarrow>
     CHR ''A'' \<le> c \<and> c \<le> CHR ''Z'' \<or> CHR ''a'' \<le> c \<and> c \<le> CHR ''z''
     \<or> CHR ''0'' \<le> c \<and> c \<le> CHR ''9'' \<or> c \<in> {CHR ''-'', CHR ''_'', CHR ''.'', CHR ''~''}"

text \<open>\<open>char::from_digit(n, 16)\<close> in upper case.\<close>

definition hex_digit :: "nat \<Rightarrow> char" where
  "hex_digit n = ''0123456789ABCDEF'' ! n"

definition encode_char :: "char \<Rightarrow> string" where
  "encode_char c =
     (if is_unreserved c then [c]
      else if c = CHR '' '' then ''+''
      else [CHR ''%'', hex_digit (of_char c div 16), hex_digit (of_char c mod 16)])"

definition percent_encode :: "string \<Rightarrow> string" where
  "percent_encode s = concat (map encode_char s)"

definition itunes_term :: "string \<Rightarrow> string \<Rightarrow> string \<Rightarrow> string option" where
  "itunes_term art alb tit =
     (if alb \<noteq> [] then Some (if art = [] then alb else art @ '' '' @ alb)
      else if tit \<noteq> [] then Some (if art = [] then tit else art @ '' '' @ tit)
      else if art \<noteq> [] then Some art
      else None)"

definition itunes_query_url :: "string \<Rightarrow> string \<Rightarrow> string \<Rightarrow> string option" where
  "itunes_query_url art alb tit =
     map_option (\<lambda>t. ''https://itunes.apple.com/search?term='' @ percent_encode t
                      @ ''&entity=album&limit=1'')
       (itunes_term (trim art) (trim alb) (trim tit))"

definition parse_itunes_artwork :: "json_parser \<Rightarrow> string \<Rightarrow> string option" where
  "parse_itunes_artwork from_str s =
     (case from_str s of
        None \<Rightarrow> None
      | Some v \<Rightarrow>
          (case Option.bind (json_get v ''results'') json_as_array of
             Some (result # _) \<Rightarrow>
               (case (case json_get result ''artworkUrl100'' of
                        Some u \<Rightarrow> Some u
                      | None \<Rightarrow> json_get result ''artworkUrl60'') of
                  None \<Rightarrow> None
                | Some u \<Rightarrow>
                    (case json_as_str u of
                       None \<Rightarrow> None
                     | Some url \<Rightarrow> if url = [] then None else Some url))
           | _ \<Rightarrow> None))"

fun upscale_with :: "string list \<Rightarrow> string \<Rightarrow> string" where
  "upscale_with [] url = url"
| "upscale_with (t # ts) url =
     (if contains url t then replace_first t ''600x600bb'' url else upscale_with ts url)"

definition upscale_artwork_url :: "string \<Rightarrow> string" where
  "upscale_artwork_url url = upscale_with [''100x100bb'', ''100x100'', ''60x60bb'', ''60x60''] url"

text \<open>\<open>http\<close>: the body the request gives, or \<open>None\<close> on any failure.\<close>

definition fetch_artwork ::
    "string option \<Rightarrow> ('w \<Rightarrow> string \<Rightarrow> string option \<times> 'w) \<Rightarrow> json_parser \<Rightarrow>
     string \<Rightarrow> string \<Rightarrow> string \<Rightarrow> 'w \<Rightarrow> string option \<times> 'w" where
  "fetch_artwork env http from_str art alb tit w =
     (if env = Some ''off'' then (None, w)
      else case itunes_query_url art alb tit of
          None \<Rightarrow> (None, w)
        | Some url \<Rightarrow>
            (case http w url of
               (None, w') \<Rightarrow> (None, w')
             | (Some body, w') \<Rightarrow>
                 (map_option upscale_artwork_url (parse_itunes_artwork from_str body), w')))"

section \<open>Reading the encoding back\<close>

definition hex_value :: "char \<Rightarrow> nat" where
  "hex_value c = (if is_digit c then digit_val c else of_char c - 55)"

text \<open>What a server makes of a query value.\<close>

fun percent_decode :: "string \<Rightarrow> string" where
  "percent_decode [] = []"
| "percent_decode [c] = [if c = CHR ''+'' then CHR '' '' else c]"
| "percent_decode [c, d] = (if c = CHR ''+'' then CHR '' '' else c) # percent_decode [d]"
| "percent_decode (c # x # y # cs) =
     (if c = CHR ''%'' then char_of (16 * hex_value x + hex_value y) # percent_decode cs
      else (if c = CHR ''+'' then CHR '' '' else c) # percent_decode (x # y # cs))"

lemma percent_decode_plain:
  "c \<noteq> CHR ''%'' \<Longrightarrow> percent_decode (c # cs) = (if c = CHR ''+'' then CHR '' '' else c) # percent_decode cs"
  by (cases cs rule: percent_decode.cases) auto

lemma hex_value_digit: "n < 16 \<Longrightarrow> hex_value (hex_digit n) = n"
proof -
  have "\<forall>n < 16. hex_value (hex_digit n) = n"
    by (simp add: hex_value_def hex_digit_def is_digit_def digit_val_def numeral_eq_Suc
        less_Suc_eq all_conj_distrib)
  then show "n < 16 \<Longrightarrow> hex_value (hex_digit n) = n" by blast
qed

lemma percent_decode_encode_char: "percent_decode (encode_char c @ s) = c # percent_decode s"
proof (cases "is_unreserved c \<or> c = CHR '' ''")
  case True
  have "c \<noteq> CHR ''%''" "is_unreserved c \<Longrightarrow> c \<noteq> CHR ''+''"
    using True by (auto simp: is_unreserved_def)
  then show ?thesis using True by (auto simp: encode_char_def percent_decode_plain)
next
  case False
  have lt: "(of_char c :: nat) div 16 < 16" by (simp add: less_mult_imp_div_less)
  have "char_of (16 * (of_char c div 16) + of_char c mod (16 :: nat)) = c" by simp
  then show ?thesis using False lt by (simp add: encode_char_def hex_value_digit)
qed

lemma percent_encode_Cons: "percent_encode (c # s) = encode_char c @ percent_encode s"
  by (simp add: percent_encode_def)

lemma hex_digit_unreserved: "n < 16 \<Longrightarrow> is_unreserved (hex_digit n)"
proof -
  have "\<forall>n < 16. is_unreserved (hex_digit n)"
    by (simp add: hex_digit_def is_unreserved_def numeral_eq_Suc less_Suc_eq all_conj_distrib)
  then show "n < 16 \<Longrightarrow> is_unreserved (hex_digit n)" by blast
qed

lemma encode_char_safe: "x \<in> set (encode_char c) \<Longrightarrow> is_unreserved x \<or> x \<in> {CHR ''%'', CHR ''+''}"
proof -
  have "(of_char c :: nat) div 16 < 16" by (simp add: less_mult_imp_div_less)
  then show "x \<in> set (encode_char c) \<Longrightarrow> is_unreserved x \<or> x \<in> {CHR ''%'', CHR ''+''}"
    by (auto simp: encode_char_def hex_digit_unreserved split: if_splits)
qed

section \<open>Properties\<close>

text \<open>
  C34 (the query term survives the address).  Whatever bytes a title, artist or album has, the
  term put into the query address is the one the server decodes, and it is made of unreserved
  characters, \<open>%\<close> and \<open>+\<close> only, so it cannot end the value or the query.
\<close>

theorem query_term_roundtrip:
  "percent_decode (percent_encode s) = s
   \<and> list_all (\<lambda>x. is_unreserved x \<or> x = CHR ''%'' \<or> x = CHR ''+'') (percent_encode s)"
proof (induction s)
  case Nil
  then show ?case by (simp add: percent_encode_def)
next
  case (Cons c s)
  have "list_all (\<lambda>x. is_unreserved x \<or> x = CHR ''%'' \<or> x = CHR ''+'') (encode_char c)"
    using encode_char_safe[of _ c] by (auto simp: list_all_iff)
  then show ?case using Cons
    by (simp add: percent_encode_Cons percent_decode_encode_char)
qed

end
