(* ===== verification/Media.thy ===== *)
theory Media
  imports State Machine Artwork
begin

text \<open>
  Now playing: the playback model (src/src/bluetooth/avrcp.rs) and the manager that reads it
  from BlueZ (src/src/bluetooth/media.rs): which player it follows, what it publishes, the
  artwork look-up and the reconnect rule.

  D-Bus is the environment: what a call answers comes with the event.  BlueZ objects come in the
  order of a hash map, which is arbitrary: a list in any order.  An artwork task is a list of
  steps (fetch, cache check, read of the state, write of the state) that other steps interleave.
\<close>

section \<open>Playback\<close>

datatype playback_status = PbStopped | PbPlaying | PbPaused

fun playback_as_str :: "playback_status \<Rightarrow> string" where
  "playback_as_str PbStopped = ''stopped''"
| "playback_as_str PbPlaying = ''playing''"
| "playback_as_str PbPaused = ''paused''"

definition from_bluez :: "string \<Rightarrow> playback_status" where
  "from_bluez s =
     (if s = ''playing'' then PbPlaying else if s = ''paused'' then PbPaused else PbStopped)"

record track_metadata =
  tm_title :: "string option"
  tm_artist :: "string option"
  tm_album :: "string option"
  tm_duration_ms :: "nat option"

definition no_track :: track_metadata where
  "no_track = \<lparr>tm_title = None, tm_artist = None, tm_album = None, tm_duration_ms = None\<rparr>"

definition sanitize_duration_ms :: "nat \<Rightarrow> nat option" where
  "sanitize_duration_ms raw = (if raw = 0 \<or> raw = 2 ^ 32 - 1 then None else Some raw)"

definition sanitize_text :: "string \<Rightarrow> string option" where
  "sanitize_text s = (if trim s = [] then None else Some (trim s))"

datatype transport_command = Play | Pause | Next | Previous | StopPlaying

fun bluez_method :: "transport_command \<Rightarrow> string" where
  "bluez_method Play = ''Play''"
| "bluez_method Pause = ''Pause''"
| "bluez_method Next = ''Next''"
| "bluez_method Previous = ''Previous''"
| "bluez_method StopPlaying = ''Stop''"

definition from_action :: "string \<Rightarrow> transport_command option" where
  "from_action a =
     (if a = ''play'' then Some Play else if a = ''pause'' then Some Pause
      else if a = ''next'' then Some Next else if a = ''previous'' then Some Previous
      else if a = ''stop'' then Some StopPlaying else None)"

definition DBUS_FAILURE_THRESHOLD :: nat where "DBUS_FAILURE_THRESHOLD = 5"

text \<open>The failure streak; recording a failure says whether to reconnect.\<close>

type_synonym dbus_health = nat

definition record_success :: "dbus_health \<Rightarrow> dbus_health" where
  "record_success h = 0"

definition record_failure :: "dbus_health \<Rightarrow> bool \<times> dbus_health" where
  "record_failure h =
     (if DBUS_FAILURE_THRESHOLD \<le> Suc h then (True, 0) else (False, Suc h))"

definition media_info_from :: "playback_status \<Rightarrow> track_metadata \<Rightarrow> nat option \<Rightarrow> media_info" where
  "media_info_from st t pos =
     \<lparr>media_status = playback_as_str st, title = tm_title t, artist = tm_artist t,
      album = tm_album t, duration_ms = tm_duration_ms t, position_ms = pos, artwork_url = None\<rparr>"

section \<open>Choosing a player\<close>

text \<open>\<open>device_prefix\<close>: the path up to and including its first \<open>dev_\<close> segment.\<close>

fun prefix_end :: "string list \<Rightarrow> nat \<Rightarrow> nat option" where
  "prefix_end [] e = None"
| "prefix_end (seg # segs) e =
     (if starts_with seg ''dev_'' then Some (e + length seg)
      else prefix_end segs (e + length seg + 1))"

definition device_prefix :: "string \<Rightarrow> string option" where
  "device_prefix path = map_option (\<lambda>e. take e path) (prefix_end (split_on CHR ''/'' path) 0)"

record player_candidate =
  pc_path :: string
  pc_device_active :: bool
  pc_playing :: bool

definition candidate_pool :: "player_candidate list \<Rightarrow> player_candidate list" where
  "candidate_pool cs =
     (let tier1 = filter pc_device_active cs; tier2 = filter pc_playing cs
       in if tier1 \<noteq> [] then tier1 else if tier2 \<noteq> [] then tier2 else cs)"

definition select_player :: "player_candidate list \<Rightarrow> string option \<Rightarrow> string option" where
  "select_player cs bound =
     (let pool = candidate_pool (sort_key pc_path cs);
          first = (case pool of [] \<Rightarrow> None | c # _ \<Rightarrow> Some (pc_path c))
       in case bound of
            Some cur \<Rightarrow> if \<exists>c \<in> set pool. pc_path c = cur then Some cur else first
          | None \<Rightarrow> first)"

text \<open>Property values as the manager reads them, and what BlueZ manages: path, interface, properties.\<close>

datatype variant = VStr string | VU32 nat | VNum nat | VOther

type_synonym prop_map = "(string \<times> variant) list"
type_synonym managed_objects = "(string \<times> (string \<times> prop_map) list) list"

definition MEDIAPLAYER1_IFACE :: string where "MEDIAPLAYER1_IFACE = ''org.bluez.MediaPlayer1''"
definition MEDIATRANSPORT1_IFACE :: string where
  "MEDIATRANSPORT1_IFACE = ''org.bluez.MediaTransport1''"

definition prop_str :: "prop_map \<Rightarrow> string \<Rightarrow> string option" where
  "prop_str m k = (case map_of m k of Some (VStr s) \<Rightarrow> Some s | _ \<Rightarrow> None)"

definition active_transport :: "(string \<times> prop_map) list \<Rightarrow> bool" where
  "active_transport ifaces =
     (case map_of ifaces MEDIATRANSPORT1_IFACE of
        None \<Rightarrow> False
      | Some props \<Rightarrow> prop_str props ''State'' = Some ''active'')"

definition active_prefixes :: "managed_objects \<Rightarrow> string list" where
  "active_prefixes objs =
     List.map_filter (\<lambda>(path, ifaces). if active_transport ifaces then device_prefix path else None) objs"

definition player_candidate_of ::
    "string list \<Rightarrow> string \<times> (string \<times> prop_map) list \<Rightarrow> player_candidate option" where
  "player_candidate_of active obj =
     (case obj of (path, ifaces) \<Rightarrow>
        (case map_of ifaces MEDIAPLAYER1_IFACE of
           None \<Rightarrow> None
         | Some props \<Rightarrow>
             Some \<lparr>pc_path = path,
                   pc_device_active = (case device_prefix path of None \<Rightarrow> False | Some p \<Rightarrow> p \<in> set active),
                   pc_playing = (prop_str props ''Status'' \<in> {Some ''playing'', Some ''paused''})\<rparr>))"

text \<open>\<open>objs\<close> is \<open>None\<close> if the call failed.\<close>

definition find_active_player :: "managed_objects option \<Rightarrow> string option \<Rightarrow> string option" where
  "find_active_player objs bound =
     (case objs of
        None \<Rightarrow> None
      | Some os \<Rightarrow>
          select_player (List.map_filter (player_candidate_of (active_prefixes os)) os) bound)"

definition track_from_propmap :: "prop_map \<Rightarrow> track_metadata" where
  "track_from_propmap m =
     \<lparr>tm_title = Option.bind (prop_str m ''Title'') sanitize_text,
      tm_artist = Option.bind (prop_str m ''Artist'') sanitize_text,
      tm_album = Option.bind (prop_str m ''Album'') sanitize_text,
      tm_duration_ms =
        Option.bind
          (case map_of m ''Duration'' of
             Some (VU32 n) \<Rightarrow> Some n
           | Some (VNum n) \<Rightarrow> Some (if n < 2 ^ 32 then n else 2 ^ 32 - 1)
           | _ \<Rightarrow> None)
          sanitize_duration_ms\<rparr>"

text \<open>The three property reads: the status decides, the other two may fail.\<close>

type_synonym player_read = "string option \<times> nat option \<times> prop_map option"

definition read_media :: "player_read \<Rightarrow> media_info option" where
  "read_media r =
     (case r of (status_str, pos, trk) \<Rightarrow>
        (case status_str of
           None \<Rightarrow> None
         | Some st \<Rightarrow>
             Some (media_info_from (from_bluez st)
                    (case trk of None \<Rightarrow> no_track | Some m \<Rightarrow> track_from_propmap m) pos)))"

section \<open>Publishing and artwork\<close>

type_synonym track_key = "string \<times> string"

definition or_empty :: "string option \<Rightarrow> string" where
  "or_empty s = (case s of None \<Rightarrow> [] | Some x \<Rightarrow> x)"

definition track_key_of :: "media_info \<Rightarrow> track_key" where
  "track_key_of i = (or_empty (title i), or_empty (artist i))"

datatype art_phase =
    Fetching
  | Found string
  | Checked string
  | Stamping media_info
  | Finished

record art_task =
  at_key :: track_key
  at_album :: string
  at_phase :: art_phase

datatype mm_phase =
    MmConnecting
  | MmBackoff
  | MmSearching
  | MmSearchWait
  | MmBinding string
  | MmReading string
  | MmSession string
  | MmReturned

record media =
  mm_phase :: mm_phase
  mm_shutdown :: bool
  mm_health :: dbus_health
  mm_handle :: app_handle
  mm_cache :: "(track_key \<times> string option) option"
  mm_tasks :: "art_task list"
  mm_calls :: "(string \<times> transport_command) list"
  mm_found :: "(track_key \<times> string) list"

definition mm_set_media :: "media_info option \<Rightarrow> media \<Rightarrow> media" where
  "mm_set_media m s = s\<lparr>mm_handle := set_media m (mm_handle s)\<rparr>"

definition publish_and_lookup_art :: "media_info \<Rightarrow> media \<Rightarrow> media" where
  "publish_and_lookup_art info s =
     (let key = track_key_of info;
          same = (\<lambda>url. mm_set_media (Some (info\<lparr>artwork_url := url\<rparr>)) s)
       in if key = ([], []) then same None
          else case mm_cache s of
              Some (k, url) \<Rightarrow>
                if k = key then same url
                else mm_set_media (Some info)
                       (s\<lparr>mm_cache := Some (key, None),
                          mm_tasks := mm_tasks s
                            @ [\<lparr>at_key = key, at_album = or_empty (album info), at_phase = Fetching\<rparr>]\<rparr>)
            | None \<Rightarrow>
                mm_set_media (Some info)
                  (s\<lparr>mm_cache := Some (key, None),
                     mm_tasks := mm_tasks s
                       @ [\<lparr>at_key = key, at_album = or_empty (album info), at_phase = Fetching\<rparr>]\<rparr>))"

text \<open>One step of the \<open>i\<close>-th artwork task; \<open>url\<close> is the result if it is waiting for the fetch.\<close>

definition set_phase :: "nat \<Rightarrow> art_phase \<Rightarrow> media \<Rightarrow> media" where
  "set_phase i p s = s\<lparr>mm_tasks := (mm_tasks s)[i := (mm_tasks s ! i)\<lparr>at_phase := p\<rparr>]\<rparr>"

definition art_step :: "nat \<Rightarrow> string option \<Rightarrow> media \<Rightarrow> media" where
  "art_step i url s =
     (if i < length (mm_tasks s)
      then let key = at_key (mm_tasks s ! i)
            in case at_phase (mm_tasks s ! i) of
                 Fetching \<Rightarrow>
                   (case url of
                      None \<Rightarrow> set_phase i Finished s
                    | Some u \<Rightarrow> set_phase i (Found u) (s\<lparr>mm_found := mm_found s @ [(key, u)]\<rparr>))
               | Found u \<Rightarrow>
                   (case mm_cache s of
                      Some (k, _) \<Rightarrow>
                        if k = key then set_phase i (Checked u) (s\<lparr>mm_cache := Some (k, Some u)\<rparr>)
                        else set_phase i Finished s
                    | None \<Rightarrow> set_phase i Finished s)
               | Checked u \<Rightarrow>
                   (case st_media (app (mm_handle s)) of
                      Some m \<Rightarrow>
                        if track_key_of m \<noteq> key then set_phase i Finished s
                        else set_phase i (Stamping (m\<lparr>artwork_url := Some u\<rparr>)) s
                    | None \<Rightarrow> set_phase i Finished s)
               | Stamping m \<Rightarrow> set_phase i Finished (mm_set_media (Some m) s)
               | Finished \<Rightarrow> s
      else s)"

section \<open>The manager\<close>

text \<open>
  The shutdown flag is looked at by the top of the reconnect loop and of the search, and ends
  every wait, whether it is set before or during it.  The top of the loop clears the media.
\<close>

definition mm_wait :: "mm_phase \<Rightarrow> media \<Rightarrow> media" where
  "mm_wait p s = s\<lparr>mm_phase := (if mm_shutdown s then MmReturned else p)\<rparr>"

definition mm_reconnect :: "media \<Rightarrow> media" where
  "mm_reconnect s =
     (if mm_shutdown s then s\<lparr>mm_phase := MmReturned\<rparr>
      else mm_set_media None (s\<lparr>mm_phase := MmConnecting\<rparr>))"

definition mm_failure :: "(media \<Rightarrow> media) \<Rightarrow> media \<Rightarrow> media" where
  "mm_failure clear s =
     (case record_failure (mm_health s) of
        (True, h) \<Rightarrow> mm_reconnect (clear (s\<lparr>mm_health := h\<rparr>))
      | (False, h) \<Rightarrow> s\<lparr>mm_health := h\<rparr>)"

definition mm_read :: "player_read \<Rightarrow> media \<Rightarrow> media" where
  "mm_read r s =
     (case read_media r of
        Some info \<Rightarrow> publish_and_lookup_art info (s\<lparr>mm_health := record_success (mm_health s)\<rparr>)
      | None \<Rightarrow> mm_failure (mm_set_media None) s)"

datatype mm_event =
    MmShutdown
  | MmTimer
  | MmConnect bool
  | MmSearch "managed_objects option"
  | MmAddMatch bool
  | MmInitialRead player_read
  | MmCommand transport_command bool
  | MmSendersGone
  | MmSignal string player_read
  | MmStreamEnded
  | MmPoll "managed_objects option" player_read
  | MmArt nat "string option"

definition mm_waiting :: "mm_phase \<Rightarrow> bool" where
  "mm_waiting p \<longleftrightarrow> (case p of MmBackoff \<Rightarrow> True | MmSearchWait \<Rightarrow> True | MmSession _ \<Rightarrow> True | _ \<Rightarrow> False)"

fun mm_session_event :: "string \<Rightarrow> mm_event \<Rightarrow> media \<Rightarrow> media" where
  "mm_session_event p MmSendersGone s = s\<lparr>mm_phase := MmReturned\<rparr>"
| "mm_session_event p (MmCommand c ok) s =
     (let s' = s\<lparr>mm_calls := mm_calls s @ [(p, c)]\<rparr>
       in if ok then s'\<lparr>mm_health := record_success (mm_health s')\<rparr>
          else mm_failure (mm_set_media None) s')"
| "mm_session_event p (MmSignal iface r) s =
     (if iface \<noteq> MEDIAPLAYER1_IFACE then s else mm_read r s)"
| "mm_session_event p MmStreamEnded s = mm_reconnect s"
| "mm_session_event p (MmPoll objs r) s =
     (case find_active_player objs (Some p) of
        Some best \<Rightarrow> if best \<noteq> p then mm_reconnect (mm_set_media None s) else mm_read r s
      | None \<Rightarrow> mm_read r s)"
| "mm_session_event p e s = s"

text \<open>
  A failed initial read starts the session all the same unless the threshold is reached, which
  a fresh streak never does.
\<close>

fun mm_step :: "media \<Rightarrow> mm_event \<Rightarrow> media" where
  "mm_step s (MmArt i url) = art_step i url s"
| "mm_step s MmShutdown =
     (let s' = s\<lparr>mm_shutdown := True\<rparr>
       in if mm_waiting (mm_phase s) then s'\<lparr>mm_phase := MmReturned\<rparr> else s')"
| "mm_step s e =
     (case (mm_phase s, e) of
        (MmConnecting, MmConnect ok) \<Rightarrow>
          if ok then mm_wait MmSearching s else mm_wait MmBackoff s
      | (MmBackoff, MmTimer) \<Rightarrow> mm_reconnect s
      | (MmSearching, MmSearch objs) \<Rightarrow>
          (case find_active_player objs None of
             None \<Rightarrow> mm_wait MmSearchWait (mm_set_media None s)
           | Some p \<Rightarrow> s\<lparr>mm_phase := MmBinding p\<rparr>)
      | (MmSearchWait, MmTimer) \<Rightarrow> s\<lparr>mm_phase := MmSearching\<rparr>
      | (MmBinding p, MmAddMatch ok) \<Rightarrow>
          if ok then s\<lparr>mm_phase := MmReading p, mm_health := 0\<rparr> else mm_wait MmBackoff s
      | (MmReading p, MmInitialRead r) \<Rightarrow>
          (case read_media r of
             Some info \<Rightarrow>
               mm_wait (MmSession p)
                 (publish_and_lookup_art info (s\<lparr>mm_health := record_success (mm_health s)\<rparr>))
           | None \<Rightarrow>
               (case record_failure (mm_health s) of
                  (True, h) \<Rightarrow> mm_reconnect (s\<lparr>mm_health := h\<rparr>)
                | (False, h) \<Rightarrow> mm_wait (MmSession p) (s\<lparr>mm_health := h\<rparr>)))
      | (MmSession p, _) \<Rightarrow> mm_session_event p e s
      | _ \<Rightarrow> s)"

definition mm_start :: "app_handle \<Rightarrow> media" where
  "mm_start h =
     mm_reconnect
       \<lparr>mm_phase = MmConnecting, mm_shutdown = False, mm_health = 0, mm_handle = h,
        mm_cache = None, mm_tasks = [], mm_calls = [], mm_found = []\<rparr>"

section \<open>The choice depends on the set of objects only\<close>

lemma set_sort_filter [simp]: "set (filter P (sort_key f cs)) = set (filter P cs)"
  by simp

lemma hd_sorted_Min:
  fixes cs :: "player_candidate list"
  assumes "sorted (map pc_path cs)" "cs \<noteq> []"
  shows "pc_path (hd cs) = Min (pc_path ` set cs)"
proof -
  obtain c ds where cs: "cs = c # ds" using assms(2) by (cases cs) auto
  have "Min (insert (pc_path c) (pc_path ` set ds)) = pc_path c"
    by (rule Min_eqI) (use assms(1) cs in auto)
  then show ?thesis using cs by simp
qed

lemma sorted_filter_path: "sorted (map pc_path (filter P (sort_key pc_path cs)))"
  by (rule sorted_filter) simp

lemma candidate_pool_sort:
  "set (candidate_pool (sort_key pc_path cs)) = set (candidate_pool cs)"
  "sorted (map pc_path (candidate_pool (sort_key pc_path cs)))"
  by (auto simp: candidate_pool_def Let_def sorted_filter_path filter_empty_conv)

lemma select_player_set:
  "select_player cs b =
     (let paths = pc_path ` set (candidate_pool cs)
       in if b \<noteq> None \<and> the b \<in> paths then b
          else if paths = {} then None else Some (Min paths))"
proof -
  let ?pool = "candidate_pool (sort_key pc_path cs)"
  have first: "(case ?pool of [] \<Rightarrow> None | c # _ \<Rightarrow> Some (pc_path c))
      = (if pc_path ` set (candidate_pool cs) = {} then None
         else Some (Min (pc_path ` set (candidate_pool cs))))"
    using hd_sorted_Min[OF candidate_pool_sort(2)[of cs]]
    unfolding candidate_pool_sort(1)[of cs, symmetric] by (cases ?pool) auto
  show ?thesis
    unfolding select_player_def Let_def first candidate_pool_sort(1)
    by (auto simp: image_iff split: option.splits)
qed

lemma candidate_pool_set:
  "set cs = set cs' \<Longrightarrow> set (candidate_pool cs) = set (candidate_pool cs')"
  by (auto simp: candidate_pool_def Let_def filter_empty_conv)

lemma select_player_order: "set cs = set cs' \<Longrightarrow> select_player cs b = select_player cs' b"
  using candidate_pool_set[of cs cs'] by (simp add: select_player_set)

lemma set_map_filter_eq: "set (List.map_filter f xs) = {y. \<exists>x \<in> set xs. f x = Some y}"
  by (auto simp: List.map_filter_def image_iff)
    (metis option.sel)+

lemma player_candidate_of_set:
  "set active = set active' \<Longrightarrow> player_candidate_of active = player_candidate_of active'"
  by (auto simp: player_candidate_of_def fun_eq_iff split: option.splits)

section \<open>Artwork belongs to its track\<close>

definition stamped_by :: "(track_key \<times> string) list \<Rightarrow> media_info option \<Rightarrow> bool" where
  "stamped_by found m =
     (case m of
        None \<Rightarrow> True
      | Some i \<Rightarrow> (case artwork_url i of None \<Rightarrow> True | Some u \<Rightarrow> (track_key_of i, u) \<in> set found))"

definition event_stamped :: "(track_key \<times> string) list \<Rightarrow> system_event \<Rightarrow> bool" where
  "event_stamped found ev = (case ev of MediaState m \<Rightarrow> stamped_by found m | _ \<Rightarrow> True)"

fun task_stamped :: "(track_key \<times> string) list \<Rightarrow> track_key \<Rightarrow> art_phase \<Rightarrow> bool" where
  "task_stamped found k (Found u) = ((k, u) \<in> set found)"
| "task_stamped found k (Checked u) = ((k, u) \<in> set found)"
| "task_stamped found k (Stamping m) = stamped_by found (Some m)"
| "task_stamped found k _ = True"

fun cache_stamped :: "(track_key \<times> string) list \<Rightarrow> (track_key \<times> string option) option \<Rightarrow> bool" where
  "cache_stamped found (Some (k, Some u)) = ((k, u) \<in> set found)"
| "cache_stamped found _ = True"

definition art_inv :: "media \<Rightarrow> bool" where
  "art_inv s \<longleftrightarrow> list_all (event_stamped (mm_found s)) (bus (mm_handle s))
     \<and> stamped_by (mm_found s) (st_media (app (mm_handle s)))
     \<and> cache_stamped (mm_found s) (mm_cache s)
     \<and> list_all (\<lambda>t. task_stamped (mm_found s) (at_key t) (at_phase t)) (mm_tasks s)"

lemma mm_set_media_simps [simp]:
  "mm_found (mm_set_media m s) = mm_found s" "mm_cache (mm_set_media m s) = mm_cache s"
  "mm_tasks (mm_set_media m s) = mm_tasks s" "mm_phase (mm_set_media m s) = mm_phase s"
  "mm_health (mm_set_media m s) = mm_health s" "mm_shutdown (mm_set_media m s) = mm_shutdown s"
  "bus (mm_handle (mm_set_media m s)) = bus (mm_handle s) @ [MediaState m]"
  "st_media (app (mm_handle (mm_set_media m s))) = m"
  by (simp_all add: mm_set_media_def set_media_def publish_def)

lemma art_inv_set_media: "art_inv s \<Longrightarrow> stamped_by (mm_found s) m \<Longrightarrow> art_inv (mm_set_media m s)"
  by (simp add: art_inv_def event_stamped_def)

lemma art_inv_none: "art_inv s \<Longrightarrow> art_inv (mm_set_media None s)"
  by (rule art_inv_set_media) (simp_all add: stamped_by_def)

lemma art_inv_cong:
  "mm_found s' = mm_found s \<Longrightarrow> mm_cache s' = mm_cache s \<Longrightarrow> mm_tasks s' = mm_tasks s \<Longrightarrow>
   mm_handle s' = mm_handle s \<Longrightarrow> art_inv s \<Longrightarrow> art_inv s'"
  by (simp add: art_inv_def)

lemma art_inv_new_track:
  "art_inv s \<Longrightarrow> artwork_url i = None \<Longrightarrow>
   art_inv (mm_set_media (Some i)
     (s\<lparr>mm_cache := Some (k, None),
        mm_tasks := mm_tasks s @ [\<lparr>at_key = k, at_album = a, at_phase = Fetching\<rparr>]\<rparr>))"
  by (rule art_inv_set_media) (simp_all add: art_inv_def stamped_by_def)

lemma track_key_of_update [simp]: "track_key_of (i\<lparr>artwork_url := u\<rparr>) = track_key_of i"
  by (simp add: track_key_of_def)

lemma art_inv_publish:
  assumes "art_inv s" "artwork_url i = None"
  shows "art_inv (publish_and_lookup_art i s)"
proof -
  have same: "stamped_by (mm_found s) (Some (i\<lparr>artwork_url := u\<rparr>))"
    if "mm_cache s = Some (track_key_of i, u) \<or> u = None" for u
    using assms(1) that by (cases u) (auto simp: stamped_by_def art_inv_def)
  let ?new = "mm_set_media (Some i)
    (s\<lparr>mm_cache := Some (track_key_of i, None),
       mm_tasks := mm_tasks s
         @ [\<lparr>at_key = track_key_of i, at_album = or_empty (album i), at_phase = Fetching\<rparr>]\<rparr>)"
  have new: "art_inv ?new" by (rule art_inv_new_track) (use assms in auto)
  have keep: "art_inv (mm_set_media (Some (i\<lparr>artwork_url := u\<rparr>)) s)"
    if "mm_cache s = Some (track_key_of i, u) \<or> u = None" for u
    by (rule art_inv_set_media[OF assms(1) same[OF that]])
  show ?thesis
  proof (cases "track_key_of i = ([], [])")
    case True
    then show ?thesis using keep[of None] by (simp add: publish_and_lookup_art_def Let_def)
  next
    case False
    show ?thesis
    proof (cases "mm_cache s")
      case None
      then show ?thesis using False new by (simp add: publish_and_lookup_art_def Let_def)
    next
      case (Some c)
      then show ?thesis using False new keep[of "snd c"]
        by (cases c) (simp add: publish_and_lookup_art_def Let_def)
    qed
  qed
qed

lemma stamped_by_more: "stamped_by found m \<Longrightarrow> stamped_by (found @ xs) m"
  by (auto simp: stamped_by_def split: option.splits)

lemma task_stamped_more: "task_stamped found k p \<Longrightarrow> task_stamped (found @ xs) k p"
  by (cases p) (auto intro: stamped_by_more)

lemma art_inv_found: "art_inv s \<Longrightarrow> art_inv (s\<lparr>mm_found := mm_found s @ xs\<rparr>)"
proof -
  assume inv: "art_inv s"
  have "event_stamped (mm_found s) e \<Longrightarrow> event_stamped (mm_found s @ xs) e" for e
    by (cases e) (auto simp: event_stamped_def intro: stamped_by_more)
  moreover have "cache_stamped (mm_found s @ xs) (mm_cache s)"
    using inv by (cases "(mm_found s, mm_cache s)" rule: cache_stamped.cases) (auto simp: art_inv_def)
  ultimately show ?thesis using inv
    by (auto simp: art_inv_def list_all_iff intro: stamped_by_more task_stamped_more)
qed

lemma art_inv_set_phase:
  assumes "art_inv s" "i < length (mm_tasks s)"
    and "task_stamped (mm_found s) (at_key (mm_tasks s ! i)) p"
  shows "art_inv (set_phase i p s)"
  using assms by (auto simp: art_inv_def set_phase_def list_all_length nth_list_update)

lemma art_inv_step:
  assumes inv: "art_inv s"
  shows "art_inv (art_step i url s)"
proof (cases "i < length (mm_tasks s)")
  case True
  let ?t = "mm_tasks s ! i"
  have t: "task_stamped (mm_found s) (at_key ?t) (at_phase ?t)"
    using inv True by (simp add: art_inv_def list_all_length)
  have fin: "art_inv (set_phase i Finished s)" by (rule art_inv_set_phase) (use inv True in auto)
  show ?thesis
  proof (cases "at_phase ?t")
    case Fetching
    have "art_inv (set_phase i (Found u) (s\<lparr>mm_found := mm_found s @ [(at_key ?t, u)]\<rparr>))" for u
      by (rule art_inv_set_phase) (use art_inv_found[OF inv] True in auto)
    then show ?thesis using True Fetching fin by (simp add: art_step_def Let_def split: option.splits)
  next
    case (Found u)
    have "art_inv (s\<lparr>mm_cache := Some (at_key ?t, Some u)\<rparr>)"
      using inv t Found by (simp add: art_inv_def)
    then have "art_inv (set_phase i (Checked u) (s\<lparr>mm_cache := Some (at_key ?t, Some u)\<rparr>))"
      by (rule art_inv_set_phase) (use True t Found in auto)
    then show ?thesis using True Found fin by (auto simp: art_step_def Let_def split: option.splits)
  next
    case (Checked u)
    have "art_inv (set_phase i (Stamping (m\<lparr>artwork_url := Some u\<rparr>)) s)"
      if "track_key_of m = at_key ?t" for m
      by (rule art_inv_set_phase) (use inv True t Checked that in \<open>auto simp: stamped_by_def\<close>)
    then show ?thesis using True Checked fin by (auto simp: art_step_def Let_def split: option.splits)
  next
    case (Stamping m)
    have "art_inv (mm_set_media (Some m) s)"
      by (rule art_inv_set_media[OF inv]) (use t Stamping in simp)
    then have "art_inv (set_phase i Finished (mm_set_media (Some m) s))"
      by (rule art_inv_set_phase) (use True in auto)
    then show ?thesis using True Stamping by (simp add: art_step_def Let_def)
  next
    case Finished
    then show ?thesis using True inv by (simp add: art_step_def Let_def)
  qed
qed (simp add: art_step_def inv)

lemma read_media_no_art: "read_media r = Some i \<Longrightarrow> artwork_url i = None"
  by (auto simp: read_media_def media_info_from_def split: prod.splits option.splits)

lemma art_inv_fields [simp]:
  "art_inv (s\<lparr>mm_phase := p\<rparr>) = art_inv s" "art_inv (s\<lparr>mm_health := h\<rparr>) = art_inv s"
  "art_inv (s\<lparr>mm_shutdown := b\<rparr>) = art_inv s" "art_inv (s\<lparr>mm_calls := cs\<rparr>) = art_inv s"
  by (simp_all add: art_inv_def)

lemma art_inv_wait [simp]: "art_inv (mm_wait p s) = art_inv s"
  by (simp add: mm_wait_def)

lemma art_inv_reconnect: "art_inv s \<Longrightarrow> art_inv (mm_reconnect s)"
  by (simp add: mm_reconnect_def art_inv_none)

lemma art_inv_failure:
  "art_inv s \<Longrightarrow> (\<And>x. art_inv x \<Longrightarrow> art_inv (clear x)) \<Longrightarrow> art_inv (mm_failure clear s)"
  by (auto simp: mm_failure_def record_failure_def intro: art_inv_reconnect)

lemma art_inv_read: "art_inv s \<Longrightarrow> art_inv (mm_read r s)"
  by (auto simp: mm_read_def intro!: art_inv_publish art_inv_failure art_inv_none
      dest: read_media_no_art split: option.splits)

lemma art_inv_session: "art_inv s \<Longrightarrow> art_inv (mm_session_event p e s)"
  by (cases e) (auto simp: Let_def intro!: art_inv_read art_inv_reconnect art_inv_failure art_inv_none
      split: option.splits)

lemma art_inv_mm_step: "art_inv s \<Longrightarrow> art_inv (mm_step s e)"
proof -
  assume inv: "art_inv s"
  note steps = inv art_inv_none art_inv_reconnect art_inv_read art_inv_failure art_inv_publish
    art_inv_step
  show ?thesis
    by (cases e; cases "mm_phase s")
      (auto simp: Let_def inv record_failure_def intro!: steps dest: read_media_no_art
        split: option.splits)
qed

interpretation artwork: machine mm_step art_inv
  by unfold_locales (rule art_inv_mm_step)

lemma mm_start_art: "art_inv (mm_start new_handle)"
  by (simp add: mm_start_def mm_reconnect_def art_inv_def new_handle_def default_app_state_def
      mm_set_media_def set_media_def publish_def event_stamped_def stamped_by_def)

section \<open>The failure streak\<close>

fun after_outcome :: "dbus_health \<Rightarrow> bool \<Rightarrow> dbus_health" where
  "after_outcome h True = record_success h"
| "after_outcome h False = snd (record_failure h)"

text \<open>How many calls in a row failed at the end of the outcomes.\<close>

definition failures_in_a_row :: "bool list \<Rightarrow> nat" where
  "failures_in_a_row os = length (takeWhile (\<lambda>ok. \<not> ok) (rev os))"

lemma health_streak: "run after_outcome 0 os = failures_in_a_row os mod DBUS_FAILURE_THRESHOLD"
proof (induction os rule: rev_induct)
  case Nil
  then show ?case by (simp add: failures_in_a_row_def)
next
  case (snoc ok os)
  have "snd (record_failure (n mod 5)) = Suc n mod 5" for n :: nat
    by (auto simp: record_failure_def DBUS_FAILURE_THRESHOLD_def mod_Suc)
  then show ?case using snoc
    by (cases ok) (simp_all add: failures_in_a_row_def record_success_def DBUS_FAILURE_THRESHOLD_def)
qed

section \<open>The initial read\<close>

definition reading_fresh :: "media \<Rightarrow> bool" where
  "reading_fresh s \<longleftrightarrow> (\<forall>p. mm_phase s = MmReading p \<longrightarrow> mm_health s = 0)"

lemma publish_phase [simp]:
  "mm_phase (publish_and_lookup_art i s) = mm_phase s"
  "mm_health (publish_and_lookup_art i s) = mm_health s"
  by (simp_all add: publish_and_lookup_art_def Let_def split: option.splits prod.splits)

lemma set_phase_phase [simp]: "mm_phase (set_phase i p s) = mm_phase s"
  "mm_health (set_phase i p s) = mm_health s"
  by (simp_all add: set_phase_def)

lemma art_step_phase [simp]: "mm_phase (art_step i url s) = mm_phase s"
  "mm_health (art_step i url s) = mm_health s"
  by (simp_all add: art_step_def Let_def split: art_phase.splits option.splits prod.splits)

lemma fresh_wait: "(\<And>q. p \<noteq> MmReading q) \<Longrightarrow> reading_fresh (mm_wait p s)"
  by (cases p) (auto simp: reading_fresh_def mm_wait_def)

lemma fresh_reconnect: "reading_fresh (mm_reconnect s)"
  by (simp add: reading_fresh_def mm_reconnect_def)

lemma fresh_failure:
  "mm_phase s = MmSession p \<Longrightarrow> reading_fresh (mm_failure clear s)"
  using fresh_reconnect by (auto simp: mm_failure_def record_failure_def reading_fresh_def)

lemma fresh_read: "mm_phase s = MmSession p \<Longrightarrow> reading_fresh (mm_read r s)"
  using fresh_failure[of s p "mm_set_media None"]
  by (cases "read_media r") (simp_all add: mm_read_def reading_fresh_def)

lemma fresh_session: "mm_phase s = MmSession p \<Longrightarrow> reading_fresh (mm_session_event p e s)"
  by (cases e) (auto simp: Let_def fresh_failure fresh_read fresh_reconnect reading_fresh_def[of s]
      reading_fresh_def[of "s\<lparr>mm_phase := MmReturned\<rparr>"]
      reading_fresh_def[of "s\<lparr>mm_calls := x, mm_health := y\<rparr>" for x y] split: option.splits)

lemma fresh_mm_step:
  assumes "reading_fresh s"
  shows "reading_fresh (mm_step s e)"
proof (cases "\<exists>p. mm_phase s = MmSession p")
  case True
  then obtain p where p: "mm_phase s = MmSession p" by blast
  show ?thesis using p fresh_session[OF p, of e]
    by (cases e) (auto simp: reading_fresh_def mm_waiting_def Let_def)
next
  case False
  have "reading_fresh (art_step i url s)" for i url
    using assms by (simp add: reading_fresh_def)
  then show ?thesis using assms False
    by (cases e; cases "mm_phase s")
      (auto simp: Let_def record_failure_def fresh_wait fresh_reconnect mm_waiting_def
        reading_fresh_def[of s] reading_fresh_def[of "s\<lparr>mm_phase := x\<rparr>" for x]
        reading_fresh_def[of "s\<lparr>mm_shutdown := y\<rparr>" for y]
        reading_fresh_def[of "s\<lparr>mm_shutdown := y, mm_phase := x\<rparr>" for x y]
        reading_fresh_def[of "s\<lparr>mm_phase := x, mm_health := y\<rparr>" for x y] split: option.splits)
qed

interpretation initial_read: machine mm_step reading_fresh
  by unfold_locales (rule fresh_mm_step)

section \<open>On the shared handle\<close>

definition mm_on :: "app_handle \<Rightarrow> media \<Rightarrow> media" where
  "mm_on h s = s\<lparr>mm_handle := h\<rparr>"

lemma mm_on_simps [simp]:
  "mm_phase (mm_on h s) = mm_phase s" "mm_shutdown (mm_on h s) = mm_shutdown s"
  "mm_health (mm_on h s) = mm_health s" "mm_cache (mm_on h s) = mm_cache s"
  "mm_tasks (mm_on h s) = mm_tasks s" "mm_calls (mm_on h s) = mm_calls s"
  "mm_found (mm_on h s) = mm_found s" "mm_handle (mm_on h s) = h"
  "mm_on h (mm_on h' s) = mm_on h s" "mm_on (mm_handle s) s = s"
  "(mm_on h s)\<lparr>mm_phase := p\<rparr> = mm_on h (s\<lparr>mm_phase := p\<rparr>)"
  "(mm_on h s)\<lparr>mm_shutdown := b\<rparr> = mm_on h (s\<lparr>mm_shutdown := b\<rparr>)"
  "(mm_on h s)\<lparr>mm_health := n\<rparr> = mm_on h (s\<lparr>mm_health := n\<rparr>)"
  "(mm_on h s)\<lparr>mm_cache := c\<rparr> = mm_on h (s\<lparr>mm_cache := c\<rparr>)"
  "(mm_on h s)\<lparr>mm_tasks := ts\<rparr> = mm_on h (s\<lparr>mm_tasks := ts\<rparr>)"
  "(mm_on h s)\<lparr>mm_calls := cs\<rparr> = mm_on h (s\<lparr>mm_calls := cs\<rparr>)"
  "(mm_on h s)\<lparr>mm_found := fs'\<rparr> = mm_on h (s\<lparr>mm_found := fs'\<rparr>)"
  by (simp_all add: mm_on_def)

text \<open>What an operation writes on any handle; most of them never read it.\<close>

definition writes_on :: "(app_handle \<Rightarrow> bool) \<Rightarrow> (media \<Rightarrow> media) \<Rightarrow> media \<Rightarrow> bool" where
  "writes_on P f s \<longleftrightarrow> (\<exists>evs. (\<forall>h. P h \<longrightarrow> f (mm_on h s) = mm_on (fold commit evs h) (f s))
     \<and> (\<forall>ev \<in> set evs. writer_of ev = MediaTask))"

abbreviation "mm_writes \<equiv> writes_on (\<lambda>_. True)"

lemma writes_any: "mm_writes f s \<Longrightarrow> writes_on P f s"
  by (auto simp: writes_on_def)

lemma writes_nothing: "(\<And>h. P h \<Longrightarrow> f (mm_on h s) = mm_on h (f s)) \<Longrightarrow> writes_on P f s"
  unfolding writes_on_def by (intro exI[of _ "[]"]) simp

lemma writes_then: "mm_writes f s \<Longrightarrow> mm_writes g (f s) \<Longrightarrow> mm_writes (\<lambda>s. g (f s)) s"
  unfolding writes_on_def
proof (elim exE conjE)
  fix as bs
  assume "\<forall>h. True \<longrightarrow> f (mm_on h s) = mm_on (fold commit as h) (f s)"
    "\<forall>h. True \<longrightarrow> g (mm_on h (f s)) = mm_on (fold commit bs h) (g (f s))"
    "\<forall>ev \<in> set as. writer_of ev = MediaTask" "\<forall>ev \<in> set bs. writer_of ev = MediaTask"
  then show "\<exists>evs. (\<forall>h. True \<longrightarrow> g (f (mm_on h s)) = mm_on (fold commit evs h) (g (f s)))
      \<and> (\<forall>ev \<in> set evs. writer_of ev = MediaTask)"
    by (intro exI[of _ "as @ bs"]) auto
qed

lemma writes_as: "mm_writes f s \<Longrightarrow> (\<And>h. g (mm_on h s) = f (mm_on h s)) \<Longrightarrow> mm_writes g s"
proof -
  assume w: "mm_writes f s" and g: "\<And>h. g (mm_on h s) = f (mm_on h s)"
  have "g s = f s" using g[of "mm_handle s"] by simp
  then show ?thesis using w g by (simp add: writes_on_def)
qed

lemma set_media_writes: "mm_writes (mm_set_media m) s"
  unfolding writes_on_def
  by (intro exI[of _ "[MediaState m]"]) (simp add: mm_set_media_def mm_on_def)

lemma reconnect_writes: "mm_writes mm_reconnect s"
proof (cases "mm_shutdown s")
  case True
  then show ?thesis by (intro writes_nothing) (simp add: mm_reconnect_def)
next
  case False
  have "mm_writes (\<lambda>s. mm_set_media None (s\<lparr>mm_phase := MmConnecting\<rparr>)) s"
    by (rule writes_then[OF writes_nothing set_media_writes]) simp
  then show ?thesis by (rule writes_as) (simp add: mm_reconnect_def False)
qed

lemma lookup_writes: "mm_writes (publish_and_lookup_art info) s"
proof -
  have "\<exists>m t. (\<forall>h. publish_and_lookup_art info (mm_on h s) = mm_set_media m (mm_on h t))
      \<and> publish_and_lookup_art info s = mm_set_media m t"
    by (auto simp: publish_and_lookup_art_def Let_def split: option.split prod.split)
  then obtain m t where t: "\<And>h. publish_and_lookup_art info (mm_on h s) = mm_set_media m (mm_on h t)"
    "publish_and_lookup_art info s = mm_set_media m t" by blast
  show ?thesis using set_media_writes[of m t] by (simp add: writes_on_def t)
qed

lemma wait_writes: "mm_writes (mm_wait p) s"
  by (rule writes_nothing) (simp add: mm_wait_def)

lemma failure_writes:
  assumes "\<And>t. mm_writes clear t"
  shows "mm_writes (mm_failure clear) s"
proof (cases "record_failure (mm_health s)")
  case (Pair b n)
  have "mm_writes (\<lambda>s. mm_reconnect (clear (s\<lparr>mm_health := n\<rparr>))) s"
    by (rule writes_then[OF writes_then[OF writes_nothing assms] reconnect_writes]) simp
  moreover have "mm_writes (\<lambda>s. s\<lparr>mm_health := n\<rparr>) s" by (rule writes_nothing) simp
  ultimately show ?thesis
    by (cases b) (rule writes_as, assumption, simp add: mm_failure_def Pair)+
qed

lemma read_writes: "mm_writes (mm_read r) s"
proof (cases "read_media r")
  case None
  have "mm_writes (mm_failure (mm_set_media None)) s" by (rule failure_writes) (rule set_media_writes)
  then show ?thesis by (rule writes_as) (simp add: mm_read_def None)
next
  case (Some info)
  have "mm_writes (\<lambda>s. publish_and_lookup_art info (s\<lparr>mm_health := record_success (mm_health s)\<rparr>)) s"
    by (rule writes_then[OF writes_nothing lookup_writes]) simp
  then show ?thesis by (rule writes_as) (simp add: mm_read_def Some)
qed

lemma session_writes: "mm_writes (mm_session_event p e) s"
proof (cases e)
  case (MmCommand c ok)
  let ?f = "\<lambda>s. s\<lparr>mm_calls := mm_calls s @ [(p, c)]\<rparr>"
  have f: "mm_writes ?f s" by (rule writes_nothing) simp
  have "mm_writes (\<lambda>s. (?f s)\<lparr>mm_health := record_success (mm_health (?f s))\<rparr>) s"
    by (rule writes_nothing) simp
  moreover have "mm_writes (\<lambda>s. mm_failure (mm_set_media None) (?f s)) s"
    by (rule writes_then[OF f]) (rule failure_writes, rule set_media_writes)
  ultimately show ?thesis using MmCommand
    by (cases ok) (rule writes_as, assumption, simp add: Let_def)+
next
  case (MmPoll objs r)
  have "mm_writes (\<lambda>s. mm_reconnect (mm_set_media None s)) s"
    by (rule writes_then[OF set_media_writes reconnect_writes])
  then have "mm_writes (if find_active_player objs (Some p) \<noteq> None
        \<and> find_active_player objs (Some p) \<noteq> Some p
      then \<lambda>s. mm_reconnect (mm_set_media None s) else mm_read r) s" by (simp add: read_writes)
  then show ?thesis by (rule writes_as) (simp add: MmPoll split: option.split)
next
  case (MmSignal iface r)
  have "mm_writes (if iface \<noteq> MEDIAPLAYER1_IFACE then \<lambda>s. s else mm_read r) s"
    by (simp add: read_writes writes_nothing)
  then show ?thesis by (rule writes_as) (simp add: MmSignal)
next
  case MmStreamEnded
  then show ?thesis by (intro writes_as[OF reconnect_writes]) simp
qed (rule writes_nothing, simp)+

text \<open>The artwork task reads the media before it stores its copy.\<close>

lemma art_writes: "writes_on (\<lambda>h. st_media (app h) = st_media (app (mm_handle s))) (art_step i url) s"
proof (cases "i < length (mm_tasks s) \<and> (\<exists>m. at_phase (mm_tasks s ! i) = Stamping m)")
  case True
  then obtain m where m: "at_phase (mm_tasks s ! i) = Stamping m" by blast
  have "mm_writes (\<lambda>s. set_phase i Finished (mm_set_media (Some m) s)) s"
    by (rule writes_then[OF set_media_writes writes_nothing]) (simp add: set_phase_def)
  then have "mm_writes (art_step i url) s" by (rule writes_as) (simp add: art_step_def True m)
  then show ?thesis by (rule writes_any)
next
  case False
  then show ?thesis
    by (intro writes_nothing)
      (auto simp: art_step_def set_phase_def Let_def split: art_phase.split option.split)
qed

lemma mm_step_writes: "writes_on (\<lambda>h. st_media (app h) = st_media (app (mm_handle s))) (\<lambda>s. mm_step s e) s"
proof (cases "\<exists>i url. e = MmArt i url")
  case True
  then show ?thesis using art_writes by auto
next
  case False
  note here = writes_any[OF writes_as]
  show ?thesis
  proof (cases "mm_phase s")
    case MmConnecting
    then show ?thesis using False
      by (cases e) (auto intro!: writes_nothing simp: mm_waiting_def mm_wait_def Let_def)
  next
    case MmBackoff
    show ?thesis
    proof (cases e)
      case MmTimer
      then show ?thesis using MmBackoff by (intro here[OF reconnect_writes]) simp
    qed (use False MmBackoff in \<open>auto intro!: writes_nothing simp: mm_waiting_def Let_def\<close>)
  next
    case MmSearching
    show ?thesis
    proof (cases e)
      case (MmSearch objs)
      have "mm_writes (\<lambda>s. mm_wait MmSearchWait (mm_set_media None s)) s"
        by (rule writes_then[OF set_media_writes wait_writes])
      then have "mm_writes (case find_active_player objs None of None \<Rightarrow>
          \<lambda>s. mm_wait MmSearchWait (mm_set_media None s) | Some p \<Rightarrow> \<lambda>s. s\<lparr>mm_phase := MmBinding p\<rparr>) s"
        by (auto intro!: writes_nothing split: option.split)
      then show ?thesis by (rule here) (simp add: MmSearch MmSearching split: option.split)
    qed (use False MmSearching in \<open>auto intro!: writes_nothing simp: mm_waiting_def Let_def\<close>)
  next
    case MmSearchWait
    then show ?thesis using False
      by (cases e) (auto intro!: writes_nothing simp: mm_waiting_def Let_def)
  next
    case (MmBinding p)
    then show ?thesis using False
      by (cases e) (auto intro!: writes_nothing simp: mm_waiting_def mm_wait_def Let_def)
  next
    case (MmReading p)
    show ?thesis
    proof (cases e)
      case (MmInitialRead r)
      show ?thesis
      proof (cases "read_media r")
        case None
        obtain b n where rf: "record_failure (mm_health s) = (b, n)" by force
        have "mm_writes (\<lambda>s. mm_reconnect (s\<lparr>mm_health := n\<rparr>)) s"
          "mm_writes (\<lambda>s. mm_wait (MmSession p) (s\<lparr>mm_health := n\<rparr>)) s"
          by (rule writes_then[OF writes_nothing reconnect_writes] writes_then[OF writes_nothing wait_writes], simp)+
        then show ?thesis
          by (cases b) (rule here, assumption, simp add: MmInitialRead MmReading None rf)+
      next
        case (Some info)
        have "mm_writes (\<lambda>s. mm_wait (MmSession p) (publish_and_lookup_art info
            (s\<lparr>mm_health := record_success (mm_health s)\<rparr>))) s"
          by (rule writes_then[OF writes_then[OF writes_nothing lookup_writes] wait_writes]) simp
        then show ?thesis by (rule here) (simp add: MmInitialRead MmReading Some)
      qed
    qed (use False MmReading in \<open>auto intro!: writes_nothing simp: mm_waiting_def Let_def\<close>)
  next
    case (MmSession p)
    show ?thesis
    proof (cases "e = MmShutdown")
      case True
      then show ?thesis using MmSession by (auto intro!: writes_nothing simp: mm_waiting_def Let_def)
    next
      case noshut: False
      have "mm_step t e = mm_session_event p e t" if "mm_phase t = MmSession p" for t
        using that False noshut by (cases e) (simp_all del: mm_session_event.simps)
      then show ?thesis by (intro here[OF session_writes]) (simp add: MmSession)
    qed
  next
    case MmReturned
    then show ?thesis using False
      by (cases e) (auto intro!: writes_nothing simp: mm_waiting_def Let_def)
  qed
qed

interpretation media_user: handle_user mm_step mm_handle mm_on st_media MediaTask
proof unfold_locales
  fix s e ev and h h' :: app_handle
  show "\<exists>evs. (\<forall>h. st_media (app h) = st_media (app (mm_handle s)) \<longrightarrow>
        mm_step (mm_on h s) e = mm_on (fold commit evs h) (mm_step s e))
      \<and> (\<forall>ev \<in> set evs. writer_of ev = MediaTask)"
    using mm_step_writes[of s e] unfolding writes_on_def .
  show "writer_of ev = MediaTask \<Longrightarrow> st_media (app (commit ev h)) = st_media (app (commit ev h'))"
    "writer_of ev \<noteq> MediaTask \<Longrightarrow> st_media (app (commit ev h)) = st_media (app h)"
    by (cases ev; simp add: setter_defs)+
qed simp_all

section \<open>Properties\<close>

text \<open>
  C10 (artwork belongs to its track).  Over every run of the manager and its artwork tasks, in
  every interleaving and across reconnects, a picture that was ever published with a track had
  been fetched for exactly that title and artist.
\<close>

theorem artwork_belongs_to_track:
  "let s = run mm_step (mm_start new_handle) es
    in list_all (event_stamped (mm_found s)) (bus (mm_handle s))
     \<and> stamped_by (mm_found s) (st_media (app (mm_handle s)))"
  using artwork.run_inv[OF mm_start_art, of es] by (simp add: art_inv_def Let_def)

text \<open>
  The player does not flap.  Which player is followed does not depend on the order in which
  BlueZ lists its objects: it is the one already followed if it is among the best, else the best
  one with the least path.
\<close>

theorem player_choice_ignores_order:
  assumes "set os = set os'"
  shows "find_active_player (Some os) b = find_active_player (Some os') b
    \<and> select_player cs b =
        (let paths = pc_path ` set (candidate_pool cs)
          in if b \<noteq> None \<and> the b \<in> paths then b
             else if paths = {} then None else Some (Min paths))"
proof -
  have "set (active_prefixes os) = set (active_prefixes os')"
    using assms by (simp add: active_prefixes_def set_map_filter_eq)
  then have "player_candidate_of (active_prefixes os) = player_candidate_of (active_prefixes os')"
    by (rule player_candidate_of_set)
  then have "find_active_player (Some os) b = find_active_player (Some os') b"
    unfolding find_active_player_def option.case
    by (intro select_player_order) (simp add: set_map_filter_eq assms)
  then show ?thesis using select_player_set by blast
qed

text \<open>
  Every fifth failure in a row reconnects.  A failed call asks for a reconnect exactly when
  the number of calls that failed in a row, it included, is a multiple of five; a success starts
  the count again.
\<close>

theorem fifth_failure_reconnects:
  "fst (record_failure (run after_outcome 0 os)) = (5 dvd Suc (failures_in_a_row os))"
  unfolding health_streak
  by (auto simp: record_failure_def DBUS_FAILURE_THRESHOLD_def dvd_eq_mod_eq_0 mod_Suc)

text \<open>
  A failed initial read is never acted on.  Whenever the manager reads a newly bound player
  and the read fails, it starts the session (or returns on shutdown): the failure streak is
  fresh, so the branch of the code that reconnects there is never taken.
\<close>

theorem failed_initial_read_starts_session:
  assumes "mm_phase (run mm_step (mm_start h) es) = MmReading p" and "read_media r = None"
  shows "let s = run mm_step (mm_start h) es
    in mm_step s (MmInitialRead r) = mm_wait (MmSession p) (s\<lparr>mm_health := 1\<rparr>)"
proof -
  have "reading_fresh (run mm_step (mm_start h) es)"
    by (rule initial_read.run_inv) (simp add: mm_start_def fresh_reconnect)
  then show ?thesis using assms
    by (simp add: reading_fresh_def record_failure_def DBUS_FAILURE_THRESHOLD_def Let_def)
qed

definition demo_objects :: managed_objects where
  "demo_objects =
     [(''/hci0/dev_A/player0'', [(MEDIAPLAYER1_IFACE, [])]),
      (''/hci0/dev_B/player0'', [(MEDIAPLAYER1_IFACE, [(''Status'', VStr ''playing'')])])]"

definition demo_read :: "string \<Rightarrow> player_read" where
  "demo_read t = (Some ''playing'', None, Some [(''Title'', VStr t)])"

lemma demo_player:
  "find_active_player (Some demo_objects) None = Some ''/hci0/dev_B/player0''"
  by (simp add: find_active_player_def select_player_set demo_objects_def active_prefixes_def
      active_transport_def player_candidate_of_def prop_str_def candidate_pool_def Let_def
      MEDIAPLAYER1_IFACE_def MEDIATRANSPORT1_IFACE_def List.map_filter_simps
      option.case_eq_if)

text \<open>
  Late artwork can bring back the old track.  The artwork task copies the media, lets go of
  the state and then writes the copy: a track change in between is overwritten, and clients see
  the old track, with its picture, until the next read.
\<close>

theorem late_artwork_restores_old_track:
  "let s = run mm_step (mm_start new_handle)
       [MmConnect True, MmSearch (Some demo_objects), MmAddMatch True,
        MmInitialRead (demo_read ''One''), MmArt 0 (Some ''url''), MmArt 0 None, MmArt 0 None,
        MmSignal MEDIAPLAYER1_IFACE (demo_read ''Two''), MmArt 0 None]
    in map_option title (st_media (app (mm_handle s))) = Some (Some ''One'')
     \<and> mm_cache s = Some ((''Two'', []), None)"
proof -
  have reads: "read_media (demo_read ''One'')
      = Some (media_info_from PbPlaying (no_track\<lparr>tm_title := Some ''One''\<rparr>) None)"
    "read_media (demo_read ''Two'')
      = Some (media_info_from PbPlaying (no_track\<lparr>tm_title := Some ''Two''\<rparr>) None)"
    by (simp_all add: read_media_def demo_read_def from_bluez_def track_from_propmap_def no_track_def
        prop_str_def sanitize_text_def trim_def trim_start_def trim_end_def is_ws_def)
  show ?thesis
    by (simp add: mm_start_def mm_reconnect_def mm_wait_def demo_player reads media_info_from_def
        no_track_def publish_and_lookup_art_def track_key_of_def or_empty_def art_step_def
        set_phase_def mm_read_def record_success_def new_handle_def mm_set_media_def set_media_def
        publish_def Let_def)
qed

theorem player_choice_ignores_order_witness:
  "find_active_player (Some demo_objects) None = find_active_player (Some (rev demo_objects)) None"
  by (rule player_choice_ignores_order[THEN conjunct1]) simp

theorem failed_initial_read_starts_session_witness:
  "let s = run mm_step (mm_start new_handle)
       [MmConnect True, MmSearch (Some demo_objects), MmAddMatch True]
    in mm_step s (MmInitialRead (None, None, None))
         = mm_wait (MmSession ''/hci0/dev_B/player0'') (s\<lparr>mm_health := 1\<rparr>)"
  by (rule failed_initial_read_starts_session)
    (simp_all add: mm_start_def mm_reconnect_def mm_wait_def demo_player read_media_def)

end
