(* ===== verification/Web.thy ===== *)
theory Web
  imports OutputController Daemon Bluetooth Pairing Media
begin

text \<open>
  The HTTP surface (src/src/web): every POST handler parses its request and tries to put a
  command into the bounded channel of the task that serves it, without waiting.  Also the
  concurrency limit of the HTTP audio streams (src/src/web/stream.rs) and binding the listener
  with retries (src/src/web/server.rs).
\<close>

section \<open>Channels\<close>

text \<open>A bounded \<open>mpsc\<close> channel; \<open>None\<close> in the context where the task is not wired.\<close>

record 'c chan =
  ch_queue :: "'c list"
  ch_capacity :: nat
  ch_closed :: bool

definition try_send :: "'c \<Rightarrow> 'c chan \<Rightarrow> bool \<times> 'c chan" where
  "try_send c ch =
     (if ch_closed ch \<or> ch_capacity ch \<le> length (ch_queue ch) then (False, ch)
      else (True, ch\<lparr>ch_queue := ch_queue ch @ [c]\<rparr>))"

record web_context =
  cx_handle :: app_handle
  cx_pairing :: "pairing_command chan"
  cx_media :: "transport_command chan"
  cx_eq :: "eq_command chan option"
  cx_bt :: "bt_command chan"
  cx_daemon :: "daemon_command chan"
  cx_output :: "output_command chan option"

definition ACCEPTED :: nat where "ACCEPTED = 202"
definition BAD_REQUEST :: nat where "BAD_REQUEST = 400"
definition SERVICE_UNAVAILABLE :: nat where "SERVICE_UNAVAILABLE = 503"

definition status_of :: "bool \<Rightarrow> nat" where
  "status_of queued = (if queued then ACCEPTED else SERVICE_UNAVAILABLE)"

section \<open>Parsing\<close>

definition parse_output_request :: "string \<Rightarrow> string option \<Rightarrow> string + output_command" where
  "parse_output_request kind ident =
     (if kind = ''none'' then Inr ClearOutput
      else if kind \<in> {''soundcard'', ''airplay'', ''chromecast''}
      then (case ident of
              Some i \<Rightarrow>
                if i \<noteq> []
                then Inr (Select (if kind = ''soundcard'' then Soundcard
                                  else if kind = ''airplay'' then Airplay else Chromecast) i)
                else Inl ''id is required for non-none output type''
            | None \<Rightarrow> Inl ''id is required for non-none output type'')
      else Inl ''unknown output type'')"

definition parse_gains :: "flt list \<Rightarrow> string + flt list" where
  "parse_gains gains =
     (if length gains \<noteq> NUM_BANDS then Inl ''gains must have exactly 10 elements''
      else Inr (map (flt_clamp MIN_GAIN_DB MAX_GAIN_DB) gains))"

definition DEFAULT_PAIRING_SECS :: nat where "DEFAULT_PAIRING_SECS = 300"
definition MIN_PAIRING_SECS :: nat where "MIN_PAIRING_SECS = 30"
definition MAX_PAIRING_SECS :: nat where "MAX_PAIRING_SECS = 3600"

definition open_command :: "nat option \<Rightarrow> pairing_command" where
  "open_command seconds =
     OpenWindow (secs (case seconds of
                         None \<Rightarrow> DEFAULT_PAIRING_SECS
                       | Some s \<Rightarrow> max MIN_PAIRING_SECS (min s MAX_PAIRING_SECS)))"

definition MAX_NAME_LEN :: nat where "MAX_NAME_LEN = 248"

definition parse_name :: "string \<Rightarrow> string + string" where
  "parse_name name =
     (if trim name = [] then Inl ''name must not be empty''
      else if MAX_NAME_LEN < length (trim name) then Inl ''name too long (max 248 bytes)''
      else Inr (trim name))"

definition action_to_btcommand :: "string \<Rightarrow> string \<Rightarrow> nat + bt_command" where
  "action_to_btcommand addr action =
     (if action = ''connect'' then Inr (BtConnect addr)
      else if action = ''disconnect'' then Inr (BtDisconnect addr)
      else if action = ''forget'' then Inr (BtForget addr)
      else Inl BAD_REQUEST)"

section \<open>Handlers\<close>

type_synonym handler = "web_context \<Rightarrow> nat \<times> web_context"

definition to_pairing :: "pairing_command \<Rightarrow> handler" where
  "to_pairing c ctx =
     (case try_send c (cx_pairing ctx) of (queued, ch) \<Rightarrow> (status_of queued, ctx\<lparr>cx_pairing := ch\<rparr>))"

definition open_pairing :: "nat option \<Rightarrow> handler" where
  "open_pairing seconds = to_pairing (open_command seconds)"

definition close_pairing :: handler where
  "close_pairing = to_pairing CloseWindow"

definition media_command :: "string \<Rightarrow> handler" where
  "media_command action ctx =
     (case from_action action of
        None \<Rightarrow> (BAD_REQUEST, ctx)
      | Some c \<Rightarrow>
          (case try_send c (cx_media ctx) of (queued, ch) \<Rightarrow> (status_of queued, ctx\<lparr>cx_media := ch\<rparr>)))"

definition to_daemon :: "daemon_command \<Rightarrow> handler" where
  "to_daemon c ctx =
     (case try_send c (cx_daemon ctx) of (queued, ch) \<Rightarrow> (status_of queued, ctx\<lparr>cx_daemon := ch\<rparr>))"

definition admin_restart :: handler where "admin_restart = to_daemon ReassertRouting"
definition admin_identify :: handler where "admin_identify = to_daemon Identify"

definition to_bt :: "bt_command \<Rightarrow> handler" where
  "to_bt c ctx =
     (case try_send c (cx_bt ctx) of (queued, ch) \<Rightarrow> (status_of queued, ctx\<lparr>cx_bt := ch\<rparr>))"

definition device_command :: "string \<Rightarrow> string \<Rightarrow> handler" where
  "device_command addr action ctx =
     (case action_to_btcommand addr action of Inl st \<Rightarrow> (st, ctx) | Inr c \<Rightarrow> to_bt c ctx)"

definition set_name :: "string \<Rightarrow> handler" where
  "set_name name ctx =
     (case parse_name name of Inl _ \<Rightarrow> (BAD_REQUEST, ctx) | Inr n \<Rightarrow> to_bt (BtSetName n) ctx)"

definition post_output :: "string \<Rightarrow> string option \<Rightarrow> handler" where
  "post_output kind ident ctx =
     (case cx_output ctx of
        None \<Rightarrow> (SERVICE_UNAVAILABLE, ctx)
      | Some ch \<Rightarrow>
          (case parse_output_request kind ident of
             Inl _ \<Rightarrow> (BAD_REQUEST, ctx)
           | Inr c \<Rightarrow>
               (case try_send c ch of
                  (queued, ch') \<Rightarrow> (status_of queued, ctx\<lparr>cx_output := Some ch'\<rparr>))))"

text \<open>Gains first, then the switch; a full channel ends the handler where it is.\<close>

definition send_switch :: "bool option \<Rightarrow> eq_command chan \<Rightarrow> bool \<times> eq_command chan" where
  "send_switch enabled ch =
     (case enabled of None \<Rightarrow> (True, ch) | Some b \<Rightarrow> try_send (SetEnabled b) ch)"

definition post_eq :: "bool option \<Rightarrow> flt list option \<Rightarrow> handler" where
  "post_eq enabled gains ctx =
     (case cx_eq ctx of
        None \<Rightarrow> (SERVICE_UNAVAILABLE, ctx)
      | Some ch \<Rightarrow>
          (let switch = (\<lambda>ch1. case send_switch enabled ch1 of
                           (queued, ch2) \<Rightarrow> (status_of queued, ctx\<lparr>cx_eq := Some ch2\<rparr>))
            in case gains of
                 None \<Rightarrow> switch ch
               | Some gs \<Rightarrow>
                   (case parse_gains gs of
                      Inl _ \<Rightarrow> (BAD_REQUEST, ctx)
                    | Inr g \<Rightarrow>
                        (case try_send (UpdateGains g) ch of
                           (True, ch1) \<Rightarrow> switch ch1
                         | (False, _) \<Rightarrow> (SERVICE_UNAVAILABLE, ctx)))))"

definition web_status :: "web_context \<Rightarrow> app_state_snapshot" where
  "web_status ctx = snapshot (cx_handle ctx)"

definition get_eq :: "web_context \<Rightarrow> eq_info" where
  "get_eq ctx = sn_eq (snapshot (cx_handle ctx))"

definition get_outputs :: "web_context \<Rightarrow> output_state" where
  "get_outputs ctx = sn_output (snapshot (cx_handle ctx))"

text \<open>The POST routes of the router.\<close>

datatype request =
    PostPair "nat option"
  | PostPairClose
  | PostMedia string
  | PostEq "bool option" "flt list option"
  | PostName string
  | PostBluetooth string string
  | PostRestart
  | PostIdentify
  | PostOutput string "string option"

fun post_route :: "request \<Rightarrow> handler" where
  "post_route (PostPair seconds) = open_pairing seconds"
| "post_route PostPairClose = close_pairing"
| "post_route (PostMedia action) = media_command action"
| "post_route (PostEq enabled gains) = post_eq enabled gains"
| "post_route (PostName name) = set_name name"
| "post_route (PostBluetooth addr action) = device_command addr action"
| "post_route PostRestart = admin_restart"
| "post_route PostIdentify = admin_identify"
| "post_route (PostOutput kind ident) = post_output kind ident"

section \<open>HTTP audio streams\<close>

datatype stream_format = Aac | Mp3

fun content_type :: "stream_format \<Rightarrow> string" where
  "content_type Aac = ''audio/aac''"
| "content_type Mp3 = ''audio/mpeg''"

fun ffmpeg_codec_args :: "stream_format \<Rightarrow> string" where
  "ffmpeg_codec_args Aac = ''-c:a aac -b:a 256k -f adts''"
| "ffmpeg_codec_args Mp3 = ''-c:a libmp3lame -b:a 192k -f mp3''"

definition build_stream_command :: "stream_format \<Rightarrow> string \<Rightarrow> string" where
  "build_stream_command format device =
     ''parec --device='' @ device
     @ '' --format=s16le --rate=48000 --channels=2 --latency-msec=50 | ''
     @ ''ffmpeg -hide_banner -loglevel quiet -fflags +nobuffer -f s16le -ar 48000 -ac 2 -i pipe:0 ''
     @ ffmpeg_codec_args format @ '' -flush_packets 1 pipe:1''"

definition STREAM_MAX_CONCURRENT :: nat where "STREAM_MAX_CONCURRENT = 4"

text \<open>
  The free permits and the pipelines that run.  A request takes a permit before it starts its
  pipeline and gives it back if that fails; the body of the response holds it until dropped.
\<close>

record streams =
  sr_permits :: nat
  sr_live :: "stream_format list"

definition acquire_stream_permit :: "streams \<Rightarrow> streams option" where
  "acquire_stream_permit s =
     (if sr_permits s = 0 then None else Some (s\<lparr>sr_permits := sr_permits s - 1\<rparr>))"

definition release_permit :: "streams \<Rightarrow> streams" where
  "release_permit s = s\<lparr>sr_permits := sr_permits s + 1\<rparr>"

definition stream_response :: "stream_format \<Rightarrow> bool \<Rightarrow> streams \<Rightarrow> nat \<times> streams" where
  "stream_response format spawned s =
     (case acquire_stream_permit s of
        None \<Rightarrow> (SERVICE_UNAVAILABLE, s)
      | Some s1 \<Rightarrow>
          if spawned then (200, s1\<lparr>sr_live := format # sr_live s1\<rparr>)
          else (SERVICE_UNAVAILABLE, release_permit s1))"

datatype stream_event = StreamRequest stream_format bool | StreamDropped nat

text \<open>\<open>StreamDropped i\<close>: the client of the \<open>i\<close>-th live stream went away, or its pipeline ended.\<close>

fun stream_step :: "streams \<Rightarrow> stream_event \<Rightarrow> streams" where
  "stream_step s (StreamRequest format spawned) = snd (stream_response format spawned s)"
| "stream_step s (StreamDropped i) =
     (if i < length (sr_live s)
      then release_permit (s\<lparr>sr_live := take i (sr_live s) @ drop (Suc i) (sr_live s)\<rparr>)
      else s)"

definition streams_start :: streams where
  "streams_start = \<lparr>sr_permits = STREAM_MAX_CONCURRENT, sr_live = []\<rparr>"

section \<open>Binding the listener\<close>

definition BIND_MAX_ATTEMPTS :: nat where "BIND_MAX_ATTEMPTS = 5"
definition BIND_RETRY_DELAY :: duration where "BIND_RETRY_DELAY = millis 500"

text \<open>
  \<open>try_bind\<close> tries once; \<open>sleep_or_shutdown\<close> waits the delay and says whether shutdown came
  first.  Both act on the world.
\<close>

function bind_loop ::
    "('w \<Rightarrow> (io_error + 'l) \<times> 'w) \<Rightarrow> ('w \<Rightarrow> bool \<times> 'w) \<Rightarrow> nat \<Rightarrow> 'w \<Rightarrow> (io_error + 'l) \<times> 'w" where
  "bind_loop try_bind sleep_or_shutdown attempt w =
     (case try_bind w of
        (Inr l, w1) \<Rightarrow> (Inr l, w1)
      | (Inl e, w1) \<Rightarrow>
          if err_kind e = AddrInUse
          then if BIND_MAX_ATTEMPTS \<le> Suc attempt then (Inl e, w1)
               else (case sleep_or_shutdown w1 of
                       (True, w2) \<Rightarrow> (Inl e, w2)
                     | (False, w2) \<Rightarrow> bind_loop try_bind sleep_or_shutdown (Suc attempt) w2)
          else (Inl e, w1))"
  by pat_completeness auto
termination
  by (relation "measure (\<lambda>(t, s, attempt, w). BIND_MAX_ATTEMPTS - attempt)") auto

declare bind_loop.simps [simp del]

definition bind_with_retry ::
    "('w \<Rightarrow> (io_error + 'l) \<times> 'w) \<Rightarrow> ('w \<Rightarrow> bool \<times> 'w) \<Rightarrow> 'w \<Rightarrow> (io_error + 'l) \<times> 'w" where
  "bind_with_retry try_bind sleep_or_shutdown w = bind_loop try_bind sleep_or_shutdown 0 w"

section \<open>A handler in front of a channel\<close>

text \<open>
  What the handlers that send one command share: the command is put into the queue of its
  channel and accepted, or nothing changes and the service is unavailable.
\<close>

locale command_route =
  fixes handle :: "'c \<Rightarrow> 'x \<Rightarrow> nat \<times> 'x"
    and put :: "'c \<Rightarrow> 'x \<Rightarrow> 'x"
    and room :: "'x \<Rightarrow> bool"
  assumes handle_law:
    "handle c x = (if room x then (ACCEPTED, put c x) else (SERVICE_UNAVAILABLE, x))"
begin

lemma queues_prefix:
  "\<exists>k \<le> length [c]. snd (handle c x) = foldl (\<lambda>y d. put d y) x (take k [c])
     \<and> fst (handle c x) = (if k = length [c] then ACCEPTED else SERVICE_UNAVAILABLE)"
proof (cases "room x")
  case True
  then show ?thesis by (intro exI[of _ 1]) (simp add: handle_law)
next
  case False
  then show ?thesis by (intro exI[of _ 0]) (simp add: handle_law)
qed

lemma handle_inv:
  "P x \<Longrightarrow> (room x \<Longrightarrow> P (put c x)) \<Longrightarrow> P (snd (handle c x))"
  by (simp add: handle_law)

end

definition has_room :: "'c chan \<Rightarrow> bool" where
  "has_room ch \<longleftrightarrow> \<not> ch_closed ch \<and> length (ch_queue ch) < ch_capacity ch"

definition push :: "'c \<Rightarrow> 'c chan \<Rightarrow> 'c chan" where
  "push c ch = ch\<lparr>ch_queue := ch_queue ch @ [c]\<rparr>"

lemma try_send_push: "try_send c ch = (if has_room ch then (True, push c ch) else (False, ch))"
  by (auto simp: try_send_def has_room_def push_def)

datatype web_command =
    CPairing pairing_command
  | CMedia transport_command
  | CEq eq_command
  | CBt bt_command
  | CDaemon daemon_command
  | COutput output_command

fun enqueue :: "web_command \<Rightarrow> web_context \<Rightarrow> web_context" where
  "enqueue (CPairing c) ctx = ctx\<lparr>cx_pairing := push c (cx_pairing ctx)\<rparr>"
| "enqueue (CMedia c) ctx = ctx\<lparr>cx_media := push c (cx_media ctx)\<rparr>"
| "enqueue (CEq c) ctx = ctx\<lparr>cx_eq := map_option (push c) (cx_eq ctx)\<rparr>"
| "enqueue (CBt c) ctx = ctx\<lparr>cx_bt := push c (cx_bt ctx)\<rparr>"
| "enqueue (CDaemon c) ctx = ctx\<lparr>cx_daemon := push c (cx_daemon ctx)\<rparr>"
| "enqueue (COutput c) ctx = ctx\<lparr>cx_output := map_option (push c) (cx_output ctx)\<rparr>"

interpretation pairing_route: command_route to_pairing "\<lambda>c. enqueue (CPairing c)"
  "\<lambda>x. has_room (cx_pairing x)"
  by unfold_locales (simp add: to_pairing_def try_send_push status_of_def)

interpretation daemon_route: command_route to_daemon "\<lambda>c. enqueue (CDaemon c)"
  "\<lambda>x. has_room (cx_daemon x)"
  by unfold_locales (simp add: to_daemon_def try_send_push status_of_def)

interpretation bt_route: command_route to_bt "\<lambda>c. enqueue (CBt c)" "\<lambda>x. has_room (cx_bt x)"
  by unfold_locales (simp add: to_bt_def try_send_push status_of_def)

text \<open>The commands a request asks for, or the status it is refused with.\<close>

fun request_commands :: "web_context \<Rightarrow> request \<Rightarrow> nat + web_command list" where
  "request_commands ctx (PostPair seconds) = Inr [CPairing (open_command seconds)]"
| "request_commands ctx PostPairClose = Inr [CPairing CloseWindow]"
| "request_commands ctx (PostMedia action) =
     (case from_action action of None \<Rightarrow> Inl BAD_REQUEST | Some c \<Rightarrow> Inr [CMedia c])"
| "request_commands ctx (PostEq enabled gains) =
     (let switch = (case enabled of None \<Rightarrow> [] | Some b \<Rightarrow> [CEq (SetEnabled b)])
       in if cx_eq ctx = None then Inl SERVICE_UNAVAILABLE
          else case gains of
              None \<Rightarrow> Inr switch
            | Some gs \<Rightarrow>
                (case parse_gains gs of
                   Inl _ \<Rightarrow> Inl BAD_REQUEST
                 | Inr g \<Rightarrow> Inr (CEq (UpdateGains g) # switch)))"
| "request_commands ctx (PostName name) =
     (case parse_name name of Inl _ \<Rightarrow> Inl BAD_REQUEST | Inr n \<Rightarrow> Inr [CBt (BtSetName n)])"
| "request_commands ctx (PostBluetooth addr action) =
     (case action_to_btcommand addr action of Inl st \<Rightarrow> Inl st | Inr c \<Rightarrow> Inr [CBt c])"
| "request_commands ctx PostRestart = Inr [CDaemon ReassertRouting]"
| "request_commands ctx PostIdentify = Inr [CDaemon Identify]"
| "request_commands ctx (PostOutput kind ident) =
     (if cx_output ctx = None then Inl SERVICE_UNAVAILABLE
      else case parse_output_request kind ident of
          Inl _ \<Rightarrow> Inl BAD_REQUEST
        | Inr c \<Rightarrow> Inr [COutput c])"

definition queues_some :: "web_context \<Rightarrow> web_command list \<Rightarrow> nat \<times> web_context \<Rightarrow> bool" where
  "queues_some ctx cs r \<longleftrightarrow>
     (\<exists>k \<le> length cs. snd r = foldl (\<lambda>x c. enqueue c x) ctx (take k cs)
        \<and> fst r = (if k = length cs then ACCEPTED else SERVICE_UNAVAILABLE))"

lemma queues_one: "queues_some ctx [c] (if b then (ACCEPTED, enqueue c ctx) else (SERVICE_UNAVAILABLE, ctx))"
  unfolding queues_some_def
  by (cases b) (force intro: exI[of _ 1], force intro: exI[of _ 0])

lemma statuses [simp]: "ACCEPTED \<noteq> SERVICE_UNAVAILABLE" "SERVICE_UNAVAILABLE \<noteq> ACCEPTED"
  "BAD_REQUEST \<noteq> ACCEPTED"
  by (simp_all add: ACCEPTED_def SERVICE_UNAVAILABLE_def BAD_REQUEST_def)

section \<open>What the queues hold\<close>

text \<open>A task takes the oldest command off its channel.\<close>

datatype taken = TakePairing | TakeMedia | TakeEq | TakeBt | TakeDaemon | TakeOutput

datatype web_event = Request request | Taken taken

definition take_one :: "'c chan \<Rightarrow> 'c chan" where
  "take_one ch = ch\<lparr>ch_queue := tl (ch_queue ch)\<rparr>"

fun web_step :: "web_context \<Rightarrow> web_event \<Rightarrow> web_context" where
  "web_step ctx (Request r) = snd (post_route r ctx)"
| "web_step ctx (Taken TakePairing) = ctx\<lparr>cx_pairing := take_one (cx_pairing ctx)\<rparr>"
| "web_step ctx (Taken TakeMedia) = ctx\<lparr>cx_media := take_one (cx_media ctx)\<rparr>"
| "web_step ctx (Taken TakeEq) = ctx\<lparr>cx_eq := map_option take_one (cx_eq ctx)\<rparr>"
| "web_step ctx (Taken TakeBt) = ctx\<lparr>cx_bt := take_one (cx_bt ctx)\<rparr>"
| "web_step ctx (Taken TakeDaemon) = ctx\<lparr>cx_daemon := take_one (cx_daemon ctx)\<rparr>"
| "web_step ctx (Taken TakeOutput) = ctx\<lparr>cx_output := map_option take_one (cx_output ctx)\<rparr>"

definition fresh_chan :: "nat \<Rightarrow> 'c chan" where
  "fresh_chan n = \<lparr>ch_queue = [], ch_capacity = n, ch_closed = False\<rparr>"

definition fresh_context :: "app_handle \<Rightarrow> nat \<Rightarrow> web_context" where
  "fresh_context h n =
     \<lparr>cx_handle = h, cx_pairing = fresh_chan n, cx_media = fresh_chan n,
      cx_eq = Some (fresh_chan n), cx_bt = fresh_chan n, cx_daemon = fresh_chan n,
      cx_output = Some (fresh_chan n)\<rparr>"

fun valid_pairing :: "pairing_command \<Rightarrow> bool" where
  "valid_pairing (OpenWindow d) = (secs 30 \<le> d \<and> d \<le> secs 3600)"
| "valid_pairing CloseWindow = True"

fun valid_eq :: "eq_command \<Rightarrow> bool" where
  "valid_eq (UpdateGains g) = (length g = NUM_BANDS \<and> map clamp_eq_gain g = g)"
| "valid_eq (SetEnabled b) = True"

fun valid_bt :: "bt_command \<Rightarrow> bool" where
  "valid_bt (BtSetName n) = (n \<noteq> [] \<and> length n \<le> 248 \<and> trim n = n)"
| "valid_bt _ = True"

fun valid_output :: "output_command \<Rightarrow> bool" where
  "valid_output (Select k i) = (i \<noteq> [])"
| "valid_output ClearOutput = True"

definition chan_ok :: "('c \<Rightarrow> bool) \<Rightarrow> 'c chan \<Rightarrow> bool" where
  "chan_ok P ch \<longleftrightarrow> list_all P (ch_queue ch) \<and> length (ch_queue ch) \<le> ch_capacity ch"

definition queues_ok :: "web_context \<Rightarrow> bool" where
  "queues_ok ctx \<longleftrightarrow> chan_ok valid_pairing (cx_pairing ctx) \<and> chan_ok (\<lambda>_. True) (cx_media ctx)
     \<and> pred_option (chan_ok valid_eq) (cx_eq ctx) \<and> chan_ok valid_bt (cx_bt ctx)
     \<and> chan_ok (\<lambda>_. True) (cx_daemon ctx) \<and> pred_option (chan_ok valid_output) (cx_output ctx)"

lemma chan_ok_push: "chan_ok P ch \<Longrightarrow> has_room ch \<Longrightarrow> P c \<Longrightarrow> chan_ok P (push c ch)"
  by (simp add: chan_ok_def has_room_def push_def)

lemma chan_ok_take: "chan_ok P ch \<Longrightarrow> chan_ok P (take_one ch)"
  by (cases "ch_queue ch") (simp_all add: chan_ok_def take_one_def)

lemma chan_ok_try_send: "chan_ok P ch \<Longrightarrow> P c \<Longrightarrow> chan_ok P (snd (try_send c ch))"
  by (simp add: try_send_push chan_ok_push)

lemma parse_name_valid: "parse_name name = Inr n \<Longrightarrow> valid_bt (BtSetName n)"
  by (auto simp: parse_name_def MAX_NAME_LEN_def split: if_splits)

lemma parse_gains_valid: "parse_gains gs = Inr g \<Longrightarrow> valid_eq (UpdateGains g)"
  by (auto simp: parse_gains_def clamp_eq_gain_def[symmetric] o_def
      simp flip: clamp_eq_gain_def split: if_splits)

lemma open_command_valid: "valid_pairing (open_command seconds)"
  by (simp add: open_command_def DEFAULT_PAIRING_SECS_def MIN_PAIRING_SECS_def MAX_PAIRING_SECS_def
      secs_def split: option.splits)

lemma parse_output_valid: "parse_output_request k i = Inr c \<Longrightarrow> valid_output c"
  by (auto simp: parse_output_request_def split: if_splits option.splits)

lemma action_valid: "action_to_btcommand addr a = Inr c \<Longrightarrow> valid_bt c"
  by (auto simp: action_to_btcommand_def split: if_splits)

lemma to_pairing_ok: "queues_ok x \<Longrightarrow> valid_pairing c \<Longrightarrow> queues_ok (snd (to_pairing c x))"
  by (rule pairing_route.handle_inv) (auto simp: queues_ok_def chan_ok_push)

lemma to_daemon_ok: "queues_ok x \<Longrightarrow> queues_ok (snd (to_daemon c x))"
  by (rule daemon_route.handle_inv) (auto simp: queues_ok_def chan_ok_push)

lemma to_bt_ok: "queues_ok x \<Longrightarrow> valid_bt c \<Longrightarrow> queues_ok (snd (to_bt c x))"
  by (rule bt_route.handle_inv) (auto simp: queues_ok_def chan_ok_push)

lemma send_switch_ok:
  "send_switch b ch = (q, ch') \<Longrightarrow> chan_ok valid_eq ch \<Longrightarrow> chan_ok valid_eq ch'"
  by (auto simp: send_switch_def try_send_push split: option.splits if_splits intro: chan_ok_push)

lemma post_eq_ok: "queues_ok x \<Longrightarrow> queues_ok (snd (post_eq b gs x))"
  by (auto simp: post_eq_def Let_def queues_ok_def chan_ok_push try_send_push
      split: option.splits sum.splits prod.splits
      intro: send_switch_ok send_switch_ok[OF _ chan_ok_push[of valid_eq, OF _ _ parse_gains_valid]]
      chan_ok_push parse_gains_valid)

lemma post_route_ok: "queues_ok x \<Longrightarrow> queues_ok (snd (post_route r x))"
proof (cases r)
  case (PostMedia a)
  assume "queues_ok x"
  then show ?thesis using PostMedia
    by (auto simp: media_command_def try_send_push queues_ok_def chan_ok_push split: option.splits)
next
  case (PostOutput k i)
  assume "queues_ok x"
  then show ?thesis using PostOutput
    by (auto simp: post_output_def try_send_push queues_ok_def split: option.splits sum.splits
        intro: chan_ok_push parse_output_valid)
next
  case (PostName n)
  assume "queues_ok x"
  then show ?thesis using PostName to_bt_ok[of x]
    by (auto simp: set_name_def split: sum.splits dest: parse_name_valid)
next
  case (PostBluetooth addr a)
  assume "queues_ok x"
  then show ?thesis using PostBluetooth to_bt_ok[of x]
    by (auto simp: device_command_def split: sum.splits dest: action_valid)
qed (auto simp: open_pairing_def close_pairing_def admin_restart_def admin_identify_def
    open_command_valid to_pairing_ok to_daemon_ok post_eq_ok)

lemma web_step_ok: "queues_ok x \<Longrightarrow> queues_ok (web_step x e)"
proof (cases e)
  case (Request r)
  assume "queues_ok x"
  then show ?thesis using Request post_route_ok by simp
next
  case (Taken t)
  assume "queues_ok x"
  then show ?thesis using Taken
    by (cases t) (auto simp: queues_ok_def chan_ok_take option.pred_map o_def
        elim!: option.pred_mono_strong)
qed

interpretation web: machine web_step queues_ok
  by unfold_locales (rule web_step_ok)

lemma fresh_context_ok: "queues_ok (fresh_context h n)"
  by (simp add: queues_ok_def fresh_context_def fresh_chan_def chan_ok_def)

lemma queues_none: "queues_some ctx cs (SERVICE_UNAVAILABLE, ctx)" if "cs \<noteq> []"
  unfolding queues_some_def by (rule exI[of _ 0]) (use that in simp)

lemma queues_all: "queues_some ctx cs (ACCEPTED, foldl (\<lambda>x c. enqueue c x) ctx cs)"
  unfolding queues_some_def by (rule exI[of _ "length cs"]) simp

lemma queues_first: "queues_some ctx (c # d # cs) (SERVICE_UNAVAILABLE, enqueue c ctx)"
  unfolding queues_some_def by (rule exI[of _ 1]) simp

lemma post_eq_queues:
  assumes "request_commands ctx (PostEq b gs) = Inr cs"
  shows "queues_some ctx cs (post_eq b gs ctx)"
proof -
  obtain ch where ch: "cx_eq ctx = Some ch" using assms by (auto simp: Let_def split: if_splits)
  have same: "ctx\<lparr>cx_eq := Some ch\<rparr> = ctx" using ch by simp
  show ?thesis
  proof (cases gs)
    case None
    show ?thesis
    proof (cases b)
      case (Some v)
      then show ?thesis using assms None ch
          queues_one[of ctx "CEq (SetEnabled v)" "has_room ch"]
        by (simp add: same post_eq_def send_switch_def try_send_push status_of_def split: if_splits)
    qed (use assms None ch queues_all[of ctx "[]"] in
        \<open>simp add: same post_eq_def send_switch_def status_of_def\<close>)
  next
    case (Some v)
    then obtain g where g: "parse_gains v = Inr g" using assms ch by (auto split: sum.splits)
    let ?c = "CEq (UpdateGains g)"
    show ?thesis
    proof (cases b)
      case None
      then show ?thesis using assms Some ch g queues_one[of ctx ?c "has_room ch"]
        by (simp add: post_eq_def send_switch_def try_send_push status_of_def split: if_splits)
    next
      case w: (Some w)
      have "cs = [?c, CEq (SetEnabled w)]" using assms Some ch g w by simp
      then show ?thesis
        using Some ch g w queues_none[of cs ctx] queues_all[of ctx cs]
          queues_first[of ctx ?c "CEq (SetEnabled w)" "[]"]
        by (simp add: post_eq_def send_switch_def try_send_push status_of_def)
    qed
  qed
qed

lemma post_queues:
  "case request_commands ctx r of
     Inl st \<Rightarrow> post_route r ctx = (st, ctx)
   | Inr cs \<Rightarrow> queues_some ctx cs (post_route r ctx)"
proof (cases r)
  case (PostEq b gs)
  show ?thesis
  proof (cases "request_commands ctx r")
    case (Inl st)
    then show ?thesis using PostEq
      by (auto simp: post_eq_def Let_def split: if_splits option.splits sum.splits)
  next
    case (Inr cs)
    then show ?thesis using PostEq post_eq_queues by simp
  qed
next
  case (PostMedia a)
  show ?thesis
  proof (cases "from_action a")
    case (Some c)
    then show ?thesis using PostMedia queues_one[of ctx "CMedia c" "has_room (cx_media ctx)"]
      by (simp add: media_command_def try_send_push status_of_def split: if_splits)
  qed (simp add: PostMedia media_command_def)
next
  case (PostOutput k i)
  show ?thesis
  proof (cases "cx_output ctx")
    case None
    then show ?thesis using PostOutput by (simp add: post_output_def)
  next
    case (Some ch)
    have same: "ctx\<lparr>cx_output := Some ch\<rparr> = ctx" using Some by simp
    show ?thesis
    proof (cases "parse_output_request k i")
      case (Inr c)
      then show ?thesis using PostOutput Some queues_one[of ctx "COutput c" "has_room ch"]
        by (simp add: same post_output_def try_send_push status_of_def split: if_splits)
    qed (simp add: PostOutput Some post_output_def)
  qed
qed (auto simp: open_pairing_def close_pairing_def admin_restart_def admin_identify_def
    device_command_def set_name_def pairing_route.handle_law daemon_route.handle_law
    bt_route.handle_law queues_one split: sum.splits
    simp del: enqueue.simps)

lemma push_defs [simp]: "ch_queue (push c ch) = ch_queue ch @ [c]"
  "ch_capacity (push c ch) = ch_capacity ch"
  by (simp_all add: push_def)

section \<open>Stream and listener lemmas\<close>

interpretation stream_limit: machine stream_step
    "\<lambda>s :: streams. sr_permits s + length (sr_live s) = STREAM_MAX_CONCURRENT"
proof
  fix s :: streams and e
  assume inv: "sr_permits s + length (sr_live s) = STREAM_MAX_CONCURRENT"
  show "sr_permits (stream_step s e) + length (sr_live (stream_step s e)) = STREAM_MAX_CONCURRENT"
    using inv
    by (cases e) (auto simp: stream_response_def acquire_stream_permit_def release_permit_def)
qed

text \<open>A world that counts the attempts.\<close>

lemma bind_loop_attempts:
  "\<forall>w. snd (snd (try_bind w)) = Suc (snd w) \<Longrightarrow> \<forall>w. snd (snd (sleeper w)) = snd w \<Longrightarrow>
   attempt < BIND_MAX_ATTEMPTS \<Longrightarrow>
   snd (snd (bind_loop try_bind sleeper attempt w)) \<le> snd w + (BIND_MAX_ATTEMPTS - attempt)"
proof (induction try_bind sleeper attempt w rule: bind_loop.induct)
  case (1 tb sl attempt w)
  obtain r w1 where r: "tb w = (r, w1)" by (cases "tb w")
  obtain b w2 where b: "sl w1 = (b, w2)" by (cases "sl w1")
  have w1: "snd w1 = Suc (snd w)" and w2: "snd w2 = snd w1"
    using "1.prems"(1,2) r b by (metis snd_conv)+
  show ?case
  proof (cases "\<exists>e. r = Inl e \<and> err_kind e = AddrInUse \<and> \<not> BIND_MAX_ATTEMPTS \<le> Suc attempt \<and> \<not> b")
    case True
    then obtain e where e: "r = Inl e" "err_kind e = AddrInUse" "Suc attempt < BIND_MAX_ATTEMPTS" "\<not> b"
      by auto
    have "bind_loop tb sl attempt w = bind_loop tb sl (Suc attempt) w2"
      using e r b by (subst bind_loop.simps) simp
    moreover have "snd (snd (bind_loop tb sl (Suc attempt) w2))
        \<le> snd w2 + (BIND_MAX_ATTEMPTS - Suc attempt)"
      using "1.IH" r b e "1.prems"(1,2) by simp
    ultimately show ?thesis using w1 w2 e(3) by simp
  next
    case False
    then have "snd (bind_loop tb sl attempt w) \<in> {w1, w2}"
      using r b by (subst bind_loop.simps) (auto split: sum.splits)
    then show ?thesis using w1 w2 "1.prems"(3) by auto
  qed
qed

section \<open>Properties\<close>

text \<open>
  C22 (a request queues what it says).  A POST request that cannot be parsed, or whose task is not
  wired, changes nothing; any other queues a prefix of its commands, in order, and answers
  Accepted exactly when it queued them all.
\<close>

theorem requests_queue_prefix:
  "case request_commands ctx r of
     Inl st \<Rightarrow> post_route r ctx = (st, ctx)
   | Inr cs \<Rightarrow>
       \<exists>k. k \<le> length cs \<and> snd (post_route r ctx) = foldl (\<lambda>x c. enqueue c x) ctx (take k cs)
         \<and> fst (post_route r ctx) = (if k = length cs then ACCEPTED else SERVICE_UNAVAILABLE)"
  using post_queues[of r ctx] unfolding queues_some_def .

text \<open>
  C21 (only valid commands reach the tasks).  Whatever the clients post and however the tasks take
  commands in between, no channel ever exceeds its capacity, a queued pairing window lasts
  between half a minute and an hour, queued gains are ten and within range, a queued name is
  trimmed and between 1 and 248 bytes long, and a selected output has an id.
\<close>

theorem queued_commands_are_valid:
  "let x = run web_step (fresh_context h n) es
    in chan_ok valid_pairing (cx_pairing x) \<and> pred_option (chan_ok valid_eq) (cx_eq x)
     \<and> chan_ok valid_bt (cx_bt x) \<and> pred_option (chan_ok valid_output) (cx_output x)
     \<and> chan_ok (\<lambda>_. True) (cx_media x) \<and> chan_ok (\<lambda>_. True) (cx_daemon x)"
  using web.run_inv[OF fresh_context_ok, of h n es] by (simp add: queues_ok_def Let_def)

text \<open>
  A refused equaliser request may have changed the gains.  With one free place in the
  channel a request with gains and switch answers Service Unavailable, yet its gains are queued.
\<close>

theorem refused_eq_request_queues_gains:
  "fst (post_eq (Some True) (Some (replicate NUM_BANDS (Fin 0))) (fresh_context h 1))
     = SERVICE_UNAVAILABLE
   \<and> map_option ch_queue (cx_eq (snd (post_eq (Some True) (Some (replicate NUM_BANDS (Fin 0)))
         (fresh_context h 1))))
     = Some [UpdateGains (replicate NUM_BANDS (Fin 0))]"
  by (simp add: post_eq_def fresh_context_def fresh_chan_def try_send_def send_switch_def
      parse_gains_def status_of_def flt_clamp_def MIN_GAIN_DB_def MAX_GAIN_DB_def)

text \<open>
  At most four audio pipelines.  Whatever the clients do, at most four pipelines run, and a
  request is refused for want of a permit only while four run.
\<close>

theorem stream_pipelines_bounded:
  "let s = run stream_step streams_start es
    in length (sr_live s) \<le> 4
     \<and> (acquire_stream_permit s = None) = (length (sr_live s) = 4)"
proof -
  let ?s = "run stream_step streams_start es"
  have "sr_permits ?s + length (sr_live ?s) = 4"
    using stream_limit.run_inv[of streams_start es]
    by (simp add: streams_start_def STREAM_MAX_CONCURRENT_def)
  then show ?thesis by (auto simp: acquire_stream_permit_def Let_def)
qed

text \<open>
  Binding gives up.  With a world that counts the attempts, binding the listener returns
  after at most five.
\<close>

theorem bind_attempts_bounded:
  assumes "\<forall>w. snd (snd (try_bind w)) = Suc (snd w)" and "\<forall>w. snd (snd (sleeper w)) = snd w"
  shows "snd (snd (bind_with_retry try_bind sleeper w)) \<le> snd w + 5"
  using bind_loop_attempts[OF assms, of 0 w]
  by (simp add: bind_with_retry_def BIND_MAX_ATTEMPTS_def)

end
