(* ===== verification/WebRtc.thy ===== *)
theory WebRtc
  imports State Machine "HOL-Library.AList"
begin

text \<open>
  WebRTC signalling: the messages of the status socket (src/src/web/ws.rs) and which client an
  event goes to (src/src/web/webrtc/control.rs), the controller that owns the peer connections
  (src/src/web/webrtc/webrtc_rs.rs), its command loop (src/src/web/webrtc/command.rs), and the
  task of one socket (\<open>ws_connection\<close> of src/src/web/server.rs).

  The results of the WebRTC library are an argument; a peer connection is a number, fresh for
  every offer.  Parsing and printing the messages as JSON belongs to the library: the events
  carry parsed messages.
\<close>

section \<open>Messages\<close>

record ice_candidate =
  ice_text :: string
  ice_sdp_mid :: "string option"
  ice_sdp_mline_index :: "nat option"

datatype ws_in_message =
    WsWebrtcOffer string
  | WsWebrtcIceCandidate ice_candidate
  | WsWebrtcStop

datatype ws_out_message =
    WsStateSnapshot app_state_snapshot
  | WsSpectrumData "flt list"
  | WsBluetoothDevices "device_info list"
  | WsAnswer string
  | WsIceCandidate ice_candidate
  | WsMediaState "media_info option"
  | WsEqState eq_info
  | WsDeviceName string
  | WsOutputState output_state

fun event_to_ws_message :: "system_event \<Rightarrow> ws_out_message option" where
  "event_to_ws_message (SpectrumData bands) = Some (WsSpectrumData bands)"
| "event_to_ws_message (BluetoothDevices ds) = Some (WsBluetoothDevices ds)"
| "event_to_ws_message (MediaState m) = Some (WsMediaState m)"
| "event_to_ws_message (EqChanged e) = Some (WsEqState e)"
| "event_to_ws_message (DeviceNameChanged n) = Some (WsDeviceName n)"
| "event_to_ws_message (OutputStateEv u) = Some (WsOutputState u)"
| "event_to_ws_message (WebrtcAnswer _ _) = None"
| "event_to_ws_message (WebrtcIceCandidate _ _ _ _) = None"

fun webrtc_out_for_session :: "system_event \<Rightarrow> uuid \<Rightarrow> ws_out_message option" where
  "webrtc_out_for_session (WebrtcAnswer s sdp) me = (if s = me then Some (WsAnswer sdp) else None)"
| "webrtc_out_for_session (WebrtcIceCandidate s c mid idx) me =
     (if s = me
      then Some (WsIceCandidate
                   \<lparr>ice_text = c, ice_sdp_mid = mid, ice_sdp_mline_index = idx\<rparr>)
      else None)"
| "webrtc_out_for_session _ me = None"

section \<open>The controller\<close>

datatype webrtc_command =
    RtcOffer uuid string
  | RtcIce uuid ice_candidate
  | RtcStop uuid

fun cmd_session :: "webrtc_command \<Rightarrow> uuid" where
  "cmd_session (RtcOffer u _) = u"
| "cmd_session (RtcIce u _) = u"
| "cmd_session (RtcStop u) = u"

text \<open>What the WebRTC and Opus libraries answer to the calls made for peer connection \<open>n\<close>.\<close>

record webrtc_lib =
  wl_build_api :: "nat \<Rightarrow> string + unit"
  wl_new_peer_connection :: "nat \<Rightarrow> string + unit"
  wl_add_track :: "nat \<Rightarrow> string + unit"
  wl_offer :: "nat \<Rightarrow> string \<Rightarrow> string + unit"
  wl_set_remote :: "nat \<Rightarrow> string + unit"
  wl_create_answer :: "nat \<Rightarrow> string + string"
  wl_set_local :: "nat \<Rightarrow> string + unit"
  wl_encoder :: "nat \<Rightarrow> string + unit"
  wl_add_ice :: "nat \<Rightarrow> ice_candidate \<Rightarrow> string + unit"

text \<open>The resources it opens and gives up, and the answers it sends back, in order.\<close>

datatype rtc_action =
    PcOpened nat
  | PcClosed nat
  | PcDropped nat
  | PumpSpawned nat
  | PumpStopped nat
  | Replied "string + string"

record webrtc_controller =
  wc_sessions :: "(uuid \<times> nat) list"
  wc_next :: nat
  wc_log :: "rtc_action list"
  wc_done :: bool

definition rtc_act :: "rtc_action list \<Rightarrow> webrtc_controller \<Rightarrow> webrtc_controller" where
  "rtc_act as s = s\<lparr>wc_log := wc_log s @ as\<rparr>"

definition and_then :: "'e + 'a \<Rightarrow> ('a \<Rightarrow> 'e + 'b) \<Rightarrow> 'e + 'b" where
  "and_then r f = (case r of Inl e \<Rightarrow> Inl e | Inr x \<Rightarrow> f x)"

definition rtc_stop :: "uuid \<Rightarrow> webrtc_controller \<Rightarrow> webrtc_controller" where
  "rtc_stop u s =
     (case map_of (wc_sessions s) u of
        None \<Rightarrow> s
      | Some n \<Rightarrow> rtc_act [PumpStopped n, PcClosed n]
                    (s\<lparr>wc_sessions := AList.delete u (wc_sessions s)\<rparr>))"

definition stop_all :: "webrtc_controller \<Rightarrow> webrtc_controller" where
  "stop_all s =
     rtc_act (concat (map (\<lambda>(u, n). [PumpStopped n, PcClosed n]) (wc_sessions s)))
       (s\<lparr>wc_sessions := []\<rparr>)"

text \<open>From the open peer connection to the answer and the encoder of its pump.\<close>

definition negotiate :: "webrtc_lib \<Rightarrow> nat \<Rightarrow> string \<Rightarrow> string + string" where
  "negotiate L n sdp =
     and_then (wl_add_track L n) (\<lambda>_.
     and_then (wl_offer L n sdp) (\<lambda>_.
     and_then (wl_set_remote L n) (\<lambda>_.
     and_then (wl_create_answer L n) (\<lambda>answer.
     and_then (wl_set_local L n) (\<lambda>_.
     and_then (wl_encoder L n) (\<lambda>_.
     Inr answer))))))"

text \<open>An early return drops the handle of the peer connection without closing it.\<close>

definition handle_offer ::
    "webrtc_lib \<Rightarrow> uuid \<Rightarrow> string \<Rightarrow> webrtc_controller \<Rightarrow> (string + string) \<times> webrtc_controller" where
  "handle_offer L u sdp s0 =
     (let s1 = rtc_stop u s0;
          n = wc_next s1;
          s = s1\<lparr>wc_next := Suc n\<rparr>
       in case and_then (wl_build_api L n) (\<lambda>_. wl_new_peer_connection L n) of
            Inl e \<Rightarrow> (Inl e, s)
          | Inr _ \<Rightarrow>
              (case negotiate L n sdp of
                 Inl e \<Rightarrow> (Inl e, rtc_act [PcOpened n, PcDropped n] s)
               | Inr answer \<Rightarrow>
                   (Inr answer,
                    (rtc_act [PcOpened n, PumpSpawned n] s)
                      \<lparr>wc_sessions := AList.update u n (wc_sessions s)\<rparr>)))"

definition add_ice ::
    "webrtc_lib \<Rightarrow> uuid \<Rightarrow> ice_candidate \<Rightarrow> webrtc_controller \<Rightarrow> string + unit" where
  "add_ice L u c s =
     (case map_of (wc_sessions s) u of
        None \<Rightarrow> Inl ''no such session''
      | Some n \<Rightarrow> wl_add_ice L n c)"

section \<open>The command loop\<close>

datatype rtc_event = RtcCommand webrtc_command | RtcClosed | RtcShutdown

fun rtc_command :: "webrtc_lib \<Rightarrow> webrtc_controller \<Rightarrow> webrtc_command \<Rightarrow> webrtc_controller" where
  "rtc_command L s (RtcOffer u sdp) =
     (case handle_offer L u sdp s of (r, s') \<Rightarrow> rtc_act [Replied r] s')"
| "rtc_command L s (RtcIce u c) = (let ignored = add_ice L u c s in s)"
| "rtc_command L s (RtcStop u) = rtc_stop u s"

fun webrtc_step :: "webrtc_lib \<Rightarrow> webrtc_controller \<Rightarrow> rtc_event \<Rightarrow> webrtc_controller" where
  "webrtc_step L s (RtcCommand c) = (if wc_done s then s else rtc_command L s c)"
| "webrtc_step L s RtcClosed = (if wc_done s then s else (stop_all s)\<lparr>wc_done := True\<rparr>)"
| "webrtc_step L s RtcShutdown = (if wc_done s then s else (stop_all s)\<lparr>wc_done := True\<rparr>)"

definition webrtc_start :: webrtc_controller where
  "webrtc_start = \<lparr>wc_sessions = [], wc_next = 0, wc_log = [], wc_done = False\<rparr>"

section \<open>One status socket\<close>

definition WS_PING_INTERVAL :: duration where "WS_PING_INTERVAL = secs 15"
definition WS_IDLE_DEADLINE :: duration where "WS_IDLE_DEADLINE = secs 35"

definition ws_idle_timed_out :: "duration \<Rightarrow> duration \<Rightarrow> duration \<Rightarrow> bool" where
  "ws_idle_timed_out last_seen t deadline \<longleftrightarrow> deadline < t - last_seen"

datatype ws_frame = WsText ws_out_message | WsPing

record ws_conn =
  cn_last_seen :: duration
  cn_frames :: "ws_frame list"
  cn_cmds :: "webrtc_command list"
  cn_done :: bool

text \<open>Sending on the socket: the \<open>n\<close>-th frame gets through if \<open>wok n\<close>, else the task leaves its loop.\<close>

definition ws_command :: "webrtc_command \<Rightarrow> ws_conn \<Rightarrow> ws_conn" where
  "ws_command c s = s\<lparr>cn_cmds := cn_cmds s @ [c]\<rparr>"

definition ws_leave :: "uuid \<Rightarrow> ws_conn \<Rightarrow> ws_conn" where
  "ws_leave me s = (ws_command (RtcStop me) s)\<lparr>cn_done := True\<rparr>"

definition ws_send :: "(nat \<Rightarrow> bool) \<Rightarrow> uuid \<Rightarrow> ws_frame \<Rightarrow> ws_conn \<Rightarrow> ws_conn" where
  "ws_send wok me m s =
     (let s' = s\<lparr>cn_frames := cn_frames s @ [m]\<rparr>
       in if wok (length (cn_frames s)) then s' else ws_leave me s')"

definition ws_send_opt :: "(nat \<Rightarrow> bool) \<Rightarrow> uuid \<Rightarrow> ws_out_message option \<Rightarrow> ws_conn \<Rightarrow> ws_conn" where
  "ws_send_opt wok me m s =
     (case m of None \<Rightarrow> s | Some x \<Rightarrow> if cn_done s then s else ws_send wok me (WsText x) s)"

text \<open>
  An incoming text frame is a parsed message, or \<open>None\<close> if it does not parse.  The answer to an
  offer arrives with the event (\<open>None\<close> if the controller refused it or is gone).
\<close>

datatype ws_incoming = TextFrame "ws_in_message option" | CloseFrame | OtherFrame

datatype ws_event =
    WsShutdown
  | WsTick duration
  | WsBusEvent system_event
  | WsLagged
  | WsBusClosed
  | WsIncoming duration ws_incoming "string option"
  | WsGone

fun ws_signal :: "(nat \<Rightarrow> bool) \<Rightarrow> uuid \<Rightarrow> ws_incoming \<Rightarrow> string option \<Rightarrow> ws_conn \<Rightarrow> ws_conn" where
  "ws_signal wok me (TextFrame (Some (WsWebrtcOffer sdp))) answer s =
     ws_send_opt wok me (map_option WsAnswer answer) (ws_command (RtcOffer me sdp) s)"
| "ws_signal wok me (TextFrame (Some (WsWebrtcIceCandidate c))) answer s =
     ws_command (RtcIce me c) s"
| "ws_signal wok me (TextFrame (Some WsWebrtcStop)) answer s = ws_command (RtcStop me) s"
| "ws_signal wok me (TextFrame None) answer s = s"
| "ws_signal wok me CloseFrame answer s = ws_leave me s"
| "ws_signal wok me OtherFrame answer s = s"

fun ws_step :: "(nat \<Rightarrow> bool) \<Rightarrow> uuid \<Rightarrow> ws_conn \<Rightarrow> ws_event \<Rightarrow> ws_conn" where
  "ws_step wok me s e =
     (if cn_done s then s
      else case e of
          WsShutdown \<Rightarrow> ws_leave me s
        | WsTick t \<Rightarrow>
            if ws_idle_timed_out (cn_last_seen s) t WS_IDLE_DEADLINE then ws_leave me s
            else ws_send wok me WsPing s
        | WsBusEvent ev \<Rightarrow>
            ws_send_opt wok me (webrtc_out_for_session ev me)
              (ws_send_opt wok me (event_to_ws_message ev) s)
        | WsLagged \<Rightarrow> s
        | WsBusClosed \<Rightarrow> ws_leave me s
        | WsIncoming t m answer \<Rightarrow> ws_signal wok me m answer (s\<lparr>cn_last_seen := t\<rparr>)
        | WsGone \<Rightarrow> ws_leave me s)"

text \<open>The task returns at once if not even the first snapshot gets through.\<close>

definition ws_start :: "(nat \<Rightarrow> bool) \<Rightarrow> app_state_snapshot \<Rightarrow> duration \<Rightarrow> ws_conn" where
  "ws_start wok snap t0 =
     \<lparr>cn_last_seen = t0, cn_frames = [WsText (WsStateSnapshot snap)], cn_cmds = [],
      cn_done = (\<not> wok 0)\<rparr>"

section \<open>Resources follow the sessions\<close>

text \<open>
  The order of the log: the open peer connections and the running pumps.  A pump is spawned on
  an open connection and stopped before the connection goes.
\<close>

fun rtc_protocol :: "nat set \<times> nat set \<Rightarrow> rtc_action \<Rightarrow> (nat set \<times> nat set) option" where
  "rtc_protocol (pcs, pumps) (PcOpened n) =
     (if n \<in> pcs then None else Some (insert n pcs, pumps))"
| "rtc_protocol (pcs, pumps) (PumpSpawned n) =
     (if n \<in> pcs \<and> n \<notin> pumps then Some (pcs, insert n pumps) else None)"
| "rtc_protocol (pcs, pumps) (PumpStopped n) =
     (if n \<in> pumps then Some (pcs, pumps - {n}) else None)"
| "rtc_protocol (pcs, pumps) (PcClosed n) =
     (if n \<in> pcs \<and> n \<notin> pumps then Some (pcs - {n}, pumps) else None)"
| "rtc_protocol (pcs, pumps) (PcDropped n) =
     (if n \<in> pcs \<and> n \<notin> pumps then Some (pcs - {n}, pumps) else None)"
| "rtc_protocol c (Replied r) = Some c"

definition session_pcs :: "webrtc_controller \<Rightarrow> nat set" where
  "session_pcs s = snd ` set (wc_sessions s)"

definition wc_inv :: "webrtc_controller \<Rightarrow> bool" where
  "wc_inv s \<longleftrightarrow> distinct (map fst (wc_sessions s)) \<and> distinct (map snd (wc_sessions s))
     \<and> (\<forall>n \<in> session_pcs s. n < wc_next s)
     \<and> track rtc_protocol ({}, {}) (wc_log s) = Some (session_pcs s, session_pcs s)
     \<and> (wc_done s \<longrightarrow> wc_sessions s = [])"

lemma rtc_act_simps [simp]:
  "wc_sessions (rtc_act as s) = wc_sessions s" "wc_next (rtc_act as s) = wc_next s"
  "wc_done (rtc_act as s) = wc_done s" "wc_log (rtc_act as s) = wc_log s @ as"
  "session_pcs (rtc_act as s) = session_pcs s"
  by (simp_all add: rtc_act_def session_pcs_def)

lemma delete_image:
  assumes "distinct (map fst al)" "distinct (map snd al)" "map_of al u = Some n"
  shows "snd ` set (AList.delete u al) = snd ` set al - {n}"
proof -
  have un: "(u, n) \<in> set al" using assms(3) by (rule map_of_SomeD)
  have inj: "inj_on snd (set al)" using assms(2) by (simp add: distinct_map)
  have a: "x \<noteq> u \<longleftrightarrow> m \<noteq> n" if "(x, m) \<in> set al" for x m
  proof -
    have "x = u" if "m = n"
      using inj_onD[OF inj, of "(x, m)" "(u, n)"] un \<open>(x, m) \<in> set al\<close> that by simp
    moreover have "m = n" if "x = u"
      using map_of_is_SomeI[OF assms(1) \<open>(x, m) \<in> set al\<close>] assms(3) that by simp
    ultimately show ?thesis by blast
  qed
  have "{p \<in> set al. fst p \<noteq> u} = {p \<in> set al. snd p \<noteq> n}"
    using a by (intro Collect_cong) (metis prod.collapse)
  moreover have "set (AList.delete u al) = {p \<in> set al. fst p \<noteq> u}"
    unfolding AList.delete_eq by auto
  moreover have "snd ` {p \<in> set al. snd p \<noteq> n} = snd ` set al - {n}" by blast
  ultimately show ?thesis by simp
qed

lemma delete_distinct_snd: "distinct (map snd al) \<Longrightarrow> distinct (map snd (AList.delete u al))"
  unfolding AList.delete_eq by (rule distinct_map_filter)

lemma rtc_stop_inv: "wc_inv s \<Longrightarrow> wc_inv (rtc_stop u s)"
proof (cases "map_of (wc_sessions s) u")
  case None
  then show "wc_inv s \<Longrightarrow> wc_inv (rtc_stop u s)" by (simp add: rtc_stop_def)
next
  case (Some n)
  assume inv: "wc_inv s"
  have pcs: "snd ` set (AList.delete u (wc_sessions s)) = session_pcs s - {n}"
    using delete_image[OF _ _ Some] inv by (simp add: wc_inv_def session_pcs_def)
  have "n \<in> session_pcs s" using map_of_SomeD[OF Some] by (force simp: session_pcs_def)
  then show "wc_inv (rtc_stop u s)"
    using inv Some pcs
    by (force simp: wc_inv_def rtc_stop_def session_pcs_def track_append delete_distinct_snd
        distinct_delete split: option.splits)
qed

lemma rtc_stop_simps [simp]:
  "map_of (wc_sessions (rtc_stop u s)) v = (if v = u then None else map_of (wc_sessions s) v)"
  "wc_next (rtc_stop u s) = wc_next s" "wc_done (rtc_stop u s) = wc_done s"
  by (auto simp: rtc_stop_def delete_conv' split: option.splits)

lemma update_new: "map_of al u = None \<Longrightarrow> AList.update u n al = al @ [(u, n)]"
  by (induction al) auto

lemma handle_offer_inv:
  assumes "wc_inv s0" "\<not> wc_done s0"
  shows "wc_inv (snd (handle_offer L u sdp s0))"
proof -
  let ?s = "rtc_stop u s0"
  have inv: "wc_inv ?s" by (rule rtc_stop_inv) (rule assms(1))
  have new: "map_of (wc_sessions ?s) u = None" by simp
  have fresh: "wc_next ?s \<notin> session_pcs ?s" using inv by (auto simp: wc_inv_def)
  have d: "\<not> wc_done ?s" using assms(2) by simp
  have u: "u \<notin> fst ` set (wc_sessions ?s)" using new by (simp only: map_of_eq_None_iff) simp
  have "wc_inv (?s\<lparr>wc_next := Suc (wc_next ?s)\<rparr>)"
    using inv d by (auto simp: wc_inv_def session_pcs_def less_SucI)
  moreover have "wc_inv (rtc_act [PcOpened (wc_next ?s), PcDropped (wc_next ?s)]
      (?s\<lparr>wc_next := Suc (wc_next ?s)\<rparr>))"
    using inv d fresh by (auto simp: wc_inv_def session_pcs_def track_append less_SucI)
  moreover have "wc_inv ((rtc_act [PcOpened (wc_next ?s), PumpSpawned (wc_next ?s)]
        (?s\<lparr>wc_next := Suc (wc_next ?s)\<rparr>))
        \<lparr>wc_sessions := AList.update u (wc_next ?s) (wc_sessions ?s)\<rparr>)"
    using inv d fresh u new
    by (auto simp: wc_inv_def session_pcs_def track_append less_SucI update_new)
  ultimately show ?thesis
    by (auto simp: handle_offer_def Let_def split: sum.splits)
qed

lemma track_stop_all:
  "distinct (map snd al) \<Longrightarrow> snd ` set al \<inter> A = {} \<Longrightarrow>
   track rtc_protocol (snd ` set al \<union> A, snd ` set al \<union> A)
     (concat (map (\<lambda>(u, n). [PumpStopped n, PcClosed n]) al)) = Some (A, A)"
proof (induction al)
  case Nil
  then show ?case by simp
next
  case (Cons p al)
  obtain u n where p: "p = (u, n)" by (cases p)
  have eq: "insert n (snd ` set al \<union> A) - {n} = snd ` set al \<union> A"
    using Cons.prems p by auto
  show ?case using Cons p eq by simp
qed

lemma stop_all_inv: "wc_inv s \<Longrightarrow> wc_inv ((stop_all s)\<lparr>wc_done := True\<rparr>)"
  using track_stop_all[of "wc_sessions s" "{}"]
  by (auto simp: wc_inv_def stop_all_def session_pcs_def track_append)

lemma rtc_command_inv: "wc_inv s \<Longrightarrow> \<not> wc_done s \<Longrightarrow> wc_inv (rtc_command L s c)"
proof (cases c)
  case (RtcOffer u sdp)
  obtain r s' where h: "handle_offer L u sdp s = (r, s')" by (cases "handle_offer L u sdp s")
  assume "wc_inv s" "\<not> wc_done s"
  from handle_offer_inv[OF this, of L u sdp] have "wc_inv s'" by (simp add: h)
  then show ?thesis using RtcOffer h by (auto simp: wc_inv_def track_append)
qed (auto intro: rtc_stop_inv)

interpretation webrtc: halting_machine "webrtc_step L" wc_inv wc_done for L
proof
  fix s e
  show "wc_inv s \<Longrightarrow> wc_inv (webrtc_step L s e)"
    by (cases e) (auto intro: rtc_command_inv stop_all_inv)
  show "wc_done s \<Longrightarrow> webrtc_step L s e = s" by (cases e) auto
qed

lemma webrtc_start_inv: "wc_inv webrtc_start"
  by (simp add: wc_inv_def webrtc_start_def session_pcs_def)

section \<open>After the last stop of a session\<close>

lemma handle_offer_other:
  "v \<noteq> u \<Longrightarrow> map_of (wc_sessions (snd (handle_offer L u sdp s))) v = map_of (wc_sessions s) v"
  by (auto simp: handle_offer_def Let_def update_conv' split: sum.splits)

lemma rtc_command_other:
  assumes "cmd_session c \<noteq> v"
  shows "map_of (wc_sessions (rtc_command L s c)) v = map_of (wc_sessions s) v"
proof (cases c)
  case (RtcOffer u sdp)
  then show ?thesis using assms handle_offer_other[of v u L sdp s]
    by (cases "handle_offer L u sdp s") simp
qed (use assms in simp_all)

lemma stopped_stays_stopped:
  "map_of (wc_sessions s) me = None \<Longrightarrow>
   \<forall>c \<in> set cs. cmd_session c = me \<longrightarrow> c = RtcStop me \<Longrightarrow>
   map_of (wc_sessions (run (webrtc_step L) s (map RtcCommand cs))) me = None"
proof (induction cs arbitrary: s)
  case Nil
  then show ?case by simp
next
  case (Cons c cs)
  have "map_of (wc_sessions (webrtc_step L s (RtcCommand c))) me = None"
    using Cons.prems rtc_command_other[of c me L s] by (cases "cmd_session c = me") auto
  then show ?case using Cons.IH[of "webrtc_step L s (RtcCommand c)"] Cons.prems(2) by simp
qed

lemma filter_snoc: "filter P cs = ks @ [x] \<Longrightarrow> \<exists>as bs. cs = as @ x # bs \<and> filter P bs = []"
proof (induction cs arbitrary: ks)
  case Nil
  then show ?case by simp
next
  case (Cons c cs)
  show ?case
  proof (cases "filter P cs = []")
    case True
    then have "c = x" using Cons.prems by (cases "P c") auto
    then show ?thesis using True by (intro exI[of _ "[]"] exI[of _ cs]) simp
  next
    case False
    then obtain ks' where "filter P cs = ks' @ [x]"
      using Cons.prems by (cases "P c"; cases ks) auto
    from Cons.IH[OF this] obtain as bs where "cs = as @ x # bs" "filter P bs = []" by blast
    then show ?thesis by (intro exI[of _ "c # as"] exI[of _ bs]) simp
  qed
qed

lemma last_stop_removes:
  assumes last: "filter (\<lambda>c. cmd_session c = me) cs = ks @ [RtcStop me]"
    and inv: "wc_inv s"
  shows "map_of (wc_sessions (run (webrtc_step L) s (map RtcCommand cs))) me = None"
proof -
  obtain as bs where cs: "cs = as @ RtcStop me # bs" and
    bs: "filter (\<lambda>c. cmd_session c = me) bs = []"
    using filter_snoc[OF last] by blast
  let ?s = "run (webrtc_step L) s (map RtcCommand as)"
  have "wc_inv ?s" by (rule webrtc.run_inv) (rule inv)
  then have "map_of (wc_sessions (webrtc_step L ?s (RtcCommand (RtcStop me)))) me = None"
    by (cases "wc_done ?s") (auto simp: wc_inv_def)
  then have "map_of (wc_sessions (run (webrtc_step L)
      (webrtc_step L ?s (RtcCommand (RtcStop me))) (map RtcCommand bs))) me = None"
    by (rule stopped_stays_stopped) (use bs in \<open>auto simp: filter_empty_conv\<close>)
  then show ?thesis using cs by simp
qed

section \<open>What a socket sends\<close>

definition ws_inv :: "(nat \<Rightarrow> bool) \<Rightarrow> uuid \<Rightarrow> ws_conn \<Rightarrow> bool" where
  "ws_inv wok me s \<longleftrightarrow> (\<forall>c \<in> set (cn_cmds s). cmd_session c = me)
     \<and> (cn_done s \<longrightarrow> wok 0 \<longrightarrow> (\<exists>cs. cn_cmds s = cs @ [RtcStop me]))"

lemma ws_inv_leave: "ws_inv wok me s \<Longrightarrow> ws_inv wok me (ws_leave me s)"
  by (auto simp: ws_inv_def ws_leave_def ws_command_def)

lemma ws_inv_command:
  "ws_inv wok me s \<Longrightarrow> \<not> cn_done s \<Longrightarrow> cmd_session c = me \<Longrightarrow> ws_inv wok me (ws_command c s)"
  by (auto simp: ws_inv_def ws_command_def)

lemma ws_inv_send: "ws_inv wok me s \<Longrightarrow> \<not> cn_done s \<Longrightarrow> ws_inv wok me (ws_send wok me m s)"
  unfolding ws_send_def Let_def
  by (auto simp: ws_inv_def ws_leave_def ws_command_def)

lemma ws_inv_send_opt: "ws_inv wok me s \<Longrightarrow> ws_inv wok me (ws_send_opt wok me m s)"
  by (auto simp: ws_send_opt_def intro: ws_inv_send split: option.splits)

lemma ws_inv_signal:
  "ws_inv wok me s \<Longrightarrow> \<not> cn_done s \<Longrightarrow> ws_inv wok me (ws_signal wok me m answer s)"
  by (cases "(wok, me, m, answer, s)" rule: ws_signal.cases)
    (auto intro!: ws_inv_leave ws_inv_command ws_inv_send_opt)

lemma ws_step_inv: "ws_inv wok me s \<Longrightarrow> ws_inv wok me (ws_step wok me s e)"
proof (cases "cn_done s")
  case False
  assume inv: "ws_inv wok me s"
  have seen: "ws_inv wok me (s\<lparr>cn_last_seen := t\<rparr>)" for t using inv by (simp add: ws_inv_def)
  show ?thesis using False inv
    by (cases e) (auto intro: ws_inv_leave ws_inv_send ws_inv_send_opt ws_inv_signal seen)
qed simp

interpretation socket: halting_machine "ws_step wok me" "ws_inv wok me" cn_done for wok me
proof
  fix s e
  show "ws_inv wok me s \<Longrightarrow> ws_inv wok me (ws_step wok me s e)" by (rule ws_step_inv)
  show "cn_done s \<Longrightarrow> ws_step wok me s e = s" by simp
qed

lemma ws_start_inv: "ws_inv wok me (ws_start wok snap t0)"
  by (simp add: ws_inv_def ws_start_def)

lemma last_of_shuffle:
  "zs \<in> shuffles (xs @ [z]) (replicate k z) \<Longrightarrow> \<exists>ys. zs = ys @ [z]"
proof (induction "xs @ [z]" "replicate k z" arbitrary: xs k zs rule: shuffles.induct)
  case 1
  then show ?case by simp
next
  case 2
  then show ?case by simp
next
  case (3 x xs' y ys')
  from "3.hyps"(4) obtain k' where k': "k = Suc k'" "y = z" "ys' = replicate k' z"
    by (cases k) auto
  from "3.prems" consider zs' where "zs = x # zs'" "zs' \<in> shuffles xs' (y # ys')"
    | zs' where "zs = y # zs'" "zs' \<in> shuffles (x # xs') ys'"
    unfolding "3.hyps"(3)[symmetric] "3.hyps"(4)[symmetric] by auto
  then show ?case
  proof cases
    case 1
    show ?thesis
    proof (cases xs)
      case Nil
      then have "x = z" "xs' = []" using "3.hyps"(3) by auto
      then have "zs' = replicate k z" using 1 k' by simp
      then show ?thesis using 1 k' \<open>x = z\<close>
        by (intro exI[of _ "replicate k z"]) (simp add: replicate_append_same)
    next
      case (Cons a as)
      then have "xs' = as @ [z]" using "3.hyps"(3) by auto
      then obtain ws where "zs' = ws @ [z]"
        using "3.hyps"(1)[of as k zs'] 1 "3.hyps"(4) by auto
      then show ?thesis using 1 by (intro exI[of _ "x # ws"]) simp
    qed
  next
    case 2
    then obtain ws where "zs' = ws @ [z]"
      using "3.hyps"(2)[of xs k' zs'] "3.hyps"(3) k' by auto
    then show ?thesis using 2 by (intro exI[of _ "y # ws"]) simp
  qed
qed

section \<open>Properties\<close>

text \<open>
  Peer connections follow the sessions.  After any sequence of offers, candidates and stops,
  whatever the WebRTC library answers, the open peer connections and the running pumps are those
  of the current sessions, one for each session; every pump was stopped before its connection
  was given up, and nothing is left once the loop has ended.
\<close>

theorem connections_follow_sessions:
  "let s = run (webrtc_step L) webrtc_start es
    in distinct (map fst (wc_sessions s)) \<and> distinct (map snd (wc_sessions s))
     \<and> track rtc_protocol ({}, {}) (wc_log s)
         = (if wc_done s then Some ({}, {})
            else Some (snd ` set (wc_sessions s), snd ` set (wc_sessions s)))"
  using webrtc.run_inv[OF webrtc_start_inv, of L es]
  by (auto simp: wc_inv_def session_pcs_def Let_def)

text \<open>
  An ended socket leaves no session.  When the task of a status socket has ended, however it
  ended, every command it sent is for its own session; and in whatever order the loop gets them
  between those of the other clients, and with any number of extra stops that the failure
  callback of a peer connection adds, once they are handled the controller has no session of it.
\<close>

theorem ended_socket_leaves_no_session:
  assumes "s = run (ws_step wok me) (ws_start wok snap t0) es" and "cn_done s" and "wok 0"
    and "filter (\<lambda>c. cmd_session c = me) cs \<in> shuffles (cn_cmds s) (replicate k (RtcStop me))"
  shows "map_of (wc_sessions (run (webrtc_step L) webrtc_start (map RtcCommand cs))) me = None
    \<and> (\<forall>c \<in> set (cn_cmds s). cmd_session c = me)"
proof -
  have inv: "ws_inv wok me s" unfolding assms(1) by (rule socket.run_inv) (rule ws_start_inv)
  then obtain ks where "cn_cmds s = ks @ [RtcStop me]" using assms(2,3) by (auto simp: ws_inv_def)
  then obtain ys where "filter (\<lambda>c. cmd_session c = me) cs = ys @ [RtcStop me]"
    using last_of_shuffle assms(4) by metis
  from last_stop_removes[OF this webrtc_start_inv] inv show ?thesis by (simp add: ws_inv_def)
qed

text \<open>
  Every event has one audience.  An event of the bus goes either to every connected client
  or, if it belongs to WebRTC signalling, to exactly the client of its session, never both.
\<close>

theorem events_have_one_audience:
  "(event_to_ws_message ev = None) = (\<exists>u. webrtc_out_for_session ev u \<noteq> None)
   \<and> card {u. webrtc_out_for_session ev u \<noteq> None} \<le> 1"
proof (cases ev)
  case (WebrtcAnswer u sdp)
  then have "{v. webrtc_out_for_session ev v \<noteq> None} = {u}" by auto
  then show ?thesis using WebrtcAnswer by auto
next
  case (WebrtcIceCandidate u c mid idx)
  then have "{v. webrtc_out_for_session ev v \<noteq> None} = {u}" by auto
  then show ?thesis using WebrtcIceCandidate by auto
qed simp_all

definition demo_lib :: webrtc_lib where
  "demo_lib =
     \<lparr>wl_build_api = \<lambda>_. Inr (), wl_new_peer_connection = \<lambda>_. Inr (), wl_add_track = \<lambda>_. Inr (),
      wl_offer = \<lambda>_ _. Inr (), wl_set_remote = \<lambda>_. Inr (), wl_create_answer = \<lambda>_. Inr ''answer'',
      wl_set_local = \<lambda>_. Inr (), wl_encoder = \<lambda>_. Inr (), wl_add_ice = \<lambda>_ _. Inr ()\<rparr>"

theorem ended_socket_leaves_no_session_witness:
  "map_of (wc_sessions (run (webrtc_step demo_lib) webrtc_start
      (map RtcCommand [RtcOffer 7 ''v=0'', RtcOffer 9 ''v=0'', RtcStop 7, RtcStop 7]))) 7 = None"
proof -
  let ?s = "run (ws_step (\<lambda>_. True) 7) (ws_start (\<lambda>_. True) (snapshot new_handle) 0)
    [WsIncoming 1 (TextFrame (Some (WsWebrtcOffer ''v=0''))) None, WsGone]"
  have cmds: "cn_cmds ?s = [RtcOffer 7 ''v=0'', RtcStop 7]" "cn_done ?s"
    by (simp_all add: ws_start_def ws_send_opt_def ws_command_def ws_leave_def)
  have sh: "filter (\<lambda>c. cmd_session c = 7)
      [RtcOffer 7 ''v=0'', RtcOffer 9 ''v=0'', RtcStop 7, RtcStop 7]
      \<in> shuffles (cn_cmds ?s) (replicate 1 (RtcStop 7))"
    unfolding cmds(1) by simp
  show ?thesis
    by (rule ended_socket_leaves_no_session[OF refl cmds(2) _ sh, THEN conjunct1]) simp
qed

end
