(* ===== verification/Signalling.thy ===== *)
theory Signalling
  imports WebRtc
begin

text \<open>
  The peer connections and the command loop together (src/src/web/webrtc/webrtc_rs.rs,
  src/src/web/webrtc/command.rs): the channel to the loop with the senders that wait for room in it,
  and the two callbacks \<open>handle_offer\<close> registers on a peer connection, one that publishes its
  candidates and one that asks for the end of a connection that failed.

  A callback runs whenever the library likes, between any two commands, and keeps the session it was
  registered for; whether the connection is still the one of that session it does not ask.
\<close>

section \<open>The channel\<close>

definition WEBRTC_CAPACITY :: nat where "WEBRTC_CAPACITY = 32"

text \<open>
  \<open>send\<close> waits for room, in the order of the calls: of the commands on their way the first
  ones are in the channel, the others with their senders.
\<close>

record signalling =
  sg_rtc :: webrtc_controller
  sg_queue :: "webrtc_command list"
  sg_handle :: app_handle
  sg_owner :: "nat \<Rightarrow> uuid option"

definition in_channel :: "signalling \<Rightarrow> webrtc_command list" where
  "in_channel s = take WEBRTC_CAPACITY (sg_queue s)"

definition waiting_senders :: "signalling \<Rightarrow> webrtc_command list" where
  "waiting_senders s = drop WEBRTC_CAPACITY (sg_queue s)"

definition rtc_send :: "webrtc_command \<Rightarrow> signalling \<Rightarrow> signalling" where
  "rtc_send c s = (if wc_done (sg_rtc s) then s else s\<lparr>sg_queue := sg_queue s @ [c]\<rparr>)"

section \<open>The callbacks\<close>

datatype pc_state =
    PcStateUnspecified
  | PcStateNew
  | PcStateConnecting
  | PcStateConnected
  | PcStateDisconnected
  | PcStateFailed
  | PcStateClosed

text \<open>The end of gathering is a missing candidate; one that cannot be converted is ignored.\<close>

definition on_ice_candidate :: "uuid \<Rightarrow> (string + ice_candidate) option \<Rightarrow> app_handle \<Rightarrow> app_handle" where
  "on_ice_candidate u candidate h =
     (case candidate of
        Some (Inr c) \<Rightarrow>
          publish (WebrtcIceCandidate u (ice_text c) (ice_sdp_mid c) (ice_sdp_mline_index c)) h
      | _ \<Rightarrow> h)"

definition on_state_change :: "uuid \<Rightarrow> pc_state \<Rightarrow> signalling \<Rightarrow> signalling" where
  "on_state_change u st s = (if st = PcStateFailed then rtc_send (RtcStop u) s else s)"

text \<open>They are registered once the connection has its track, whatever becomes of the offer.\<close>

definition callbacks_registered :: "webrtc_lib \<Rightarrow> nat \<Rightarrow> bool" where
  "callbacks_registered L n \<longleftrightarrow>
     \<not> isl (and_then (wl_build_api L n) (\<lambda>_. and_then (wl_new_peer_connection L n) (\<lambda>_. wl_add_track L n)))"

fun register_callbacks ::
    "webrtc_lib \<Rightarrow> nat \<Rightarrow> webrtc_command \<Rightarrow> (nat \<Rightarrow> uuid option) \<Rightarrow> nat \<Rightarrow> uuid option" where
  "register_callbacks L n (RtcOffer u _) owner =
     (if callbacks_registered L n then owner(n := Some u) else owner)"
| "register_callbacks L n _ owner = owner"

section \<open>Steps\<close>

datatype sg_event =
    SgSend webrtc_command
  | SgHandle
  | SgCandidate nat "(string + ice_candidate) option"
  | SgState nat pc_state
  | SgShutdown

text \<open>
  The loop takes one command, and stops all sessions at the shutdown.  That every sender is gone it
  never sees, since the controller it owns is one of them.
\<close>

fun sg_step :: "webrtc_lib \<Rightarrow> signalling \<Rightarrow> sg_event \<Rightarrow> signalling" where
  "sg_step L s (SgSend c) = rtc_send c s"
| "sg_step L s SgHandle =
     (case sg_queue s of
        [] \<Rightarrow> s
      | c # q \<Rightarrow>
          s\<lparr>sg_rtc := webrtc_step L (sg_rtc s) (RtcCommand c), sg_queue := q,
            sg_owner := register_callbacks L (wc_next (sg_rtc s)) c (sg_owner s)\<rparr>)"
| "sg_step L s (SgCandidate n candidate) =
     (case sg_owner s n of
        None \<Rightarrow> s
      | Some u \<Rightarrow> s\<lparr>sg_handle := on_ice_candidate u candidate (sg_handle s)\<rparr>)"
| "sg_step L s (SgState n st) =
     (case sg_owner s n of None \<Rightarrow> s | Some u \<Rightarrow> on_state_change u st s)"
| "sg_step L s SgShutdown = s\<lparr>sg_rtc := webrtc_step L (sg_rtc s) RtcShutdown, sg_queue := []\<rparr>"

definition sg_start :: signalling where
  "sg_start =
     \<lparr>sg_rtc = webrtc_start, sg_queue = [], sg_handle = new_handle, sg_owner = (\<lambda>_. None)\<rparr>"

section \<open>Callbacks belong to the session of their connection\<close>

definition sg_inv :: "signalling \<Rightarrow> bool" where
  "sg_inv s \<longleftrightarrow> wc_inv (sg_rtc s) \<and> (wc_done (sg_rtc s) \<longrightarrow> sg_queue s = [])
     \<and> (\<forall>(u, n) \<in> set (wc_sessions (sg_rtc s)). sg_owner s n = Some u)
     \<and> (\<forall>n. sg_owner s n \<noteq> None \<longrightarrow> n < wc_next (sg_rtc s))"

lemma set_rtc_stop: "set (wc_sessions (rtc_stop u s)) \<subseteq> set (wc_sessions s)"
  by (auto simp: rtc_stop_def AList.delete_eq split: option.split)

lemma set_stop_all [simp]: "wc_sessions (stop_all s) = []" "wc_next (stop_all s) = wc_next s"
  by (simp_all add: stop_all_def)

lemma registered_of_negotiated:
  "and_then (wl_build_api L n) (\<lambda>_. wl_new_peer_connection L n) = Inr x \<Longrightarrow>
   negotiate L n sdp = Inr a \<Longrightarrow> callbacks_registered L n"
  by (auto simp: callbacks_registered_def negotiate_def and_then_def split: sum.splits)

lemma handle_offer_sessions:
  "set (wc_sessions (snd (handle_offer L u sdp s)))
     \<subseteq> set (wc_sessions s) \<union> (if callbacks_registered L (wc_next s) then {(u, wc_next s)} else {})"
proof -
  have none: "map_of (wc_sessions (rtc_stop u s)) u = None" by simp
  show ?thesis
    using set_rtc_stop[of u s] registered_of_negotiated[of L "wc_next s" _ sdp] update_new[OF none]
    by (auto simp: handle_offer_def Let_def split: sum.splits)
qed

lemma handle_offer_next [simp]: "wc_next (snd (handle_offer L u sdp s)) = Suc (wc_next s)"
  by (simp add: handle_offer_def Let_def split: sum.split)

lemma rtc_command_next [simp]:
  "wc_next (rtc_command L s c) = (case c of RtcOffer _ _ \<Rightarrow> Suc (wc_next s) | _ \<Rightarrow> wc_next s)"
proof (cases c)
  case (RtcOffer u sdp)
  then show ?thesis using handle_offer_next[of L u sdp s]
    by (cases "handle_offer L u sdp s") simp
qed simp_all

lemma rtc_command_sessions:
  "set (wc_sessions (rtc_command L s c)) \<subseteq> set (wc_sessions s) \<union>
     (case c of RtcOffer u _ \<Rightarrow> if callbacks_registered L (wc_next s) then {(u, wc_next s)} else {}
      | _ \<Rightarrow> {})"
proof (cases c)
  case (RtcOffer u sdp)
  then show ?thesis using handle_offer_sessions[of L u sdp s]
    by (cases "handle_offer L u sdp s") simp
next
  case (RtcStop u)
  then show ?thesis using set_rtc_stop[of u s] by simp
qed simp

lemma session_bound: "wc_inv s \<Longrightarrow> (u, n) \<in> set (wc_sessions s) \<Longrightarrow> n < wc_next s"
  by (force simp: wc_inv_def session_pcs_def)

lemma sg_inv_handled:
  assumes inv: "sg_inv s" and q: "sg_queue s = c # q"
  shows "sg_inv (sg_step L s SgHandle)"
proof -
  let ?s = "sg_rtc s" and ?o = "register_callbacks L (wc_next (sg_rtc s)) c (sg_owner s)"
  have nd: "\<not> wc_done ?s" and wi: "wc_inv ?s" using inv q by (auto simp: sg_inv_def)
  have wi': "wc_inv (rtc_command L ?s c)" by (rule rtc_command_inv[OF wi nd])
  have d: "\<not> wc_done (rtc_command L ?s c)"
    using nd by (cases c) (auto simp: handle_offer_def Let_def split: sum.splits prod.splits)
  have bound: "n < wc_next (rtc_command L ?s c)" if "?o n \<noteq> None" for n
    using that inv by (cases c)
      (auto simp: sg_inv_def less_Suc_eq simp del: rtc_command.simps split: if_splits)
  have own: "?o n = Some u" if "(u, n) \<in> set (wc_sessions (rtc_command L ?s c))" for u n
  proof -
    have "(u, n) \<in> set (wc_sessions ?s) \<Longrightarrow> sg_owner s n = Some u \<and> n < wc_next ?s"
      using inv session_bound[OF wi] by (auto simp: sg_inv_def)
    then show ?thesis using subsetD[OF rtc_command_sessions that]
      by (cases c) (auto simp del: rtc_command.simps split: if_splits)
  qed
  show ?thesis using wi' d bound own q nd by (auto simp: sg_inv_def)
qed

lemma sg_inv_updates:
  "sg_inv (s\<lparr>sg_handle := h\<rparr>) = sg_inv s"
  "sg_inv s \<Longrightarrow> sg_inv (rtc_send c s)"
  by (auto simp: sg_inv_def rtc_send_def)

lemma sg_inv_ended:
  "sg_inv s \<Longrightarrow> sg_inv (s\<lparr>sg_rtc := webrtc_step L (sg_rtc s) RtcShutdown, sg_queue := []\<rparr>)"
  using stop_all_inv[of "sg_rtc s"] by (auto simp: sg_inv_def split: if_splits)

lemma sg_step_inv: "sg_inv s \<Longrightarrow> sg_inv (sg_step L s e)"
proof (cases e)
  case SgHandle
  then show "sg_inv s \<Longrightarrow> sg_inv (sg_step L s e)"
    using sg_inv_handled[of s _ _ L] by (cases "sg_queue s") simp_all
next
  case SgShutdown
  then show "sg_inv s \<Longrightarrow> sg_inv (sg_step L s e)" using sg_inv_ended[of s L] by simp
qed (auto simp: on_state_change_def sg_inv_updates split: option.split)

interpretation signalling: machine "sg_step L" sg_inv for L
  by unfold_locales (rule sg_step_inv)

lemma sg_start_inv: "sg_inv sg_start"
  using webrtc_start_inv by (simp add: sg_inv_def sg_start_def webrtc_start_def)

section \<open>A stop on its way arrives\<close>

fun handles :: "sg_event list \<Rightarrow> nat" where
  "handles [] = 0"
| "handles (e # es) = (if e = SgHandle then Suc (handles es) else handles es)"

text \<open>A connection that was opened and is no longer of any session never comes back.\<close>

definition pc_gone :: "nat \<Rightarrow> signalling \<Rightarrow> bool" where
  "pc_gone n s \<longleftrightarrow> n < wc_next (sg_rtc s) \<and> n \<notin> session_pcs (sg_rtc s)"

lemma pc_gone_command: "n < wc_next r \<Longrightarrow> n \<notin> session_pcs r \<Longrightarrow>
   n < wc_next (rtc_command L r c) \<and> n \<notin> session_pcs (rtc_command L r c)"
  using rtc_command_sessions[of L r c] rtc_command_next[of L r c]
  by (cases c) (auto simp: session_pcs_def simp del: rtc_command.simps split: if_splits)

lemma pc_gone_step: "pc_gone n s \<Longrightarrow> pc_gone n (sg_step L s e)"
  using pc_gone_command[of n "sg_rtc s" L]
  by (cases e) (auto simp: pc_gone_def session_pcs_def rtc_send_def on_state_change_def
      simp del: rtc_command.simps split: list.split option.split)

interpretation reaping: machine "sg_step L" "pc_gone n" for L n
  by unfold_locales (rule pc_gone_step)

lemma pc_gone_shutdown: "n < wc_next (sg_rtc s) \<Longrightarrow> sg_inv s \<Longrightarrow> pc_gone n (sg_step L s SgShutdown)"
  by (auto simp: pc_gone_def session_pcs_def sg_inv_def wc_inv_def)

lemma pc_gone_stopped:
  assumes "sg_inv s" "sg_queue s = RtcStop u # q" "sg_owner s n = Some u"
  shows "pc_gone n (sg_step L s SgHandle)"
proof -
  have nd: "\<not> wc_done (sg_rtc s)" using assms(1,2) by (auto simp: sg_inv_def)
  have "(v, n) \<notin> set (wc_sessions (rtc_stop u (sg_rtc s)))" for v
  proof
    assume m: "(v, n) \<in> set (wc_sessions (rtc_stop u (sg_rtc s)))"
    have "map_of (wc_sessions (rtc_stop u (sg_rtc s))) u = None" by simp
    then have "v \<noteq> u" using m by (force simp: map_of_eq_None_iff simp del: rtc_stop_simps)
    then show False using subsetD[OF set_rtc_stop m] assms(1,3) by (auto simp: sg_inv_def)
  qed
  then show ?thesis using assms nd by (auto simp: pc_gone_def session_pcs_def sg_inv_def)
qed

lemma owner_kept:
  "sg_inv s \<Longrightarrow> sg_owner s n = Some u \<Longrightarrow> sg_owner (sg_step L s e) n = Some u"
proof (cases e)
  case SgHandle
  assume inv: "sg_inv s" and own: "sg_owner s n = Some u"
  then have "n \<noteq> wc_next (sg_rtc s)" by (force simp: sg_inv_def)
  moreover have "register_callbacks L m c owner n = owner n" if "n \<noteq> m" for m c owner
    using that by (cases c) simp_all
  ultimately show ?thesis using SgHandle own by (simp split: list.split)
qed (auto simp: rtc_send_def on_state_change_def split: option.split)

text \<open>Other events put commands behind it only; a step of the loop takes one from before it.\<close>

lemma behind_the_stop:
  assumes "sg_queue s = xs @ RtcStop u # ys" "sg_inv s" "e \<noteq> SgShutdown" "e \<noteq> SgHandle"
  shows "\<exists>zs. sg_queue (sg_step L s e) = xs @ RtcStop u # zs"
  using assms by (cases e) (auto simp: rtc_send_def on_state_change_def split: option.split)

lemma stop_arrives:
  assumes "sg_inv s" "sg_queue s = xs @ RtcStop u # ys" "sg_owner s n = Some u"
    and "length xs < handles es \<or> SgShutdown \<in> set es"
  shows "pc_gone n (run (sg_step L) s es)"
  using assms
proof (induction es arbitrary: s xs ys)
  case (Cons e es)
  note inv = sg_step_inv[OF Cons.prems(1), of L e] and own = owner_kept[OF Cons.prems(1,3), of L e]
  have bound: "n < wc_next (sg_rtc s)" using Cons.prems(1,3) by (auto simp: sg_inv_def)
  consider "e = SgShutdown" | x xs' where "e = SgHandle" "xs = x # xs'" | "e = SgHandle" "xs = []"
    | "e \<noteq> SgShutdown" "e \<noteq> SgHandle" by (cases xs) auto
  then show ?case
  proof cases
    case 1
    then show ?thesis using reaping.run_inv[OF pc_gone_shutdown[OF bound Cons.prems(1)]]
      by (simp del: sg_step.simps)
  next
    case 2
    then have "sg_queue (sg_step L s e) = xs' @ RtcStop u # ys" using Cons.prems(2) by simp
    from Cons.IH[OF inv this own] 2 Cons.prems(4) show ?thesis by (auto simp del: sg_step.simps)
  next
    case 3
    then have "pc_gone n (sg_step L s e)"
      using pc_gone_stopped[OF Cons.prems(1) _ Cons.prems(3)] Cons.prems(2) by simp
    from reaping.run_inv[OF this] show ?thesis by simp
  next
    case 4
    then obtain zs where "sg_queue (sg_step L s e) = xs @ RtcStop u # zs"
      using behind_the_stop[OF Cons.prems(2,1)] by blast
    from Cons.IH[OF inv this own] 4 Cons.prems(4) show ?thesis by (auto simp del: sg_step.simps)
  qed
qed simp

section \<open>On the shared handle\<close>

definition sg_on :: "app_handle \<Rightarrow> signalling \<Rightarrow> signalling" where
  "sg_on h s = s\<lparr>sg_handle := h\<rparr>"

fun sg_writes :: "signalling \<Rightarrow> sg_event \<Rightarrow> system_event list" where
  "sg_writes s (SgCandidate n (Some (Inr c))) =
     (case sg_owner s n of
        None \<Rightarrow> []
      | Some u \<Rightarrow> [WebrtcIceCandidate u (ice_text c) (ice_sdp_mid c) (ice_sdp_mline_index c)])"
| "sg_writes s e = []"

lemma sg_step_on: "sg_step L (sg_on h s) e = sg_on (fold commit (sg_writes s e) h) (sg_step L s e)"
  by (cases "(s, e)" rule: sg_writes.cases)
    (auto simp: sg_on_def on_ice_candidate_def rtc_send_def on_state_change_def
      split: list.split option.split)

interpretation signalling_user: handle_user "sg_step L" sg_handle sg_on "\<lambda>_. ()" SignallingTask for L
proof unfold_locales
  fix s e and h h' :: app_handle
  have "\<forall>ev \<in> set (sg_writes s e). writer_of ev = SignallingTask"
    by (cases "(s, e)" rule: sg_writes.cases) (auto split: option.split)
  then show "\<exists>evs. (\<forall>h. () = () \<longrightarrow> sg_step L (sg_on h s) e = sg_on (fold commit evs h) (sg_step L s e))
      \<and> (\<forall>ev \<in> set evs. writer_of ev = SignallingTask)"
    using sg_step_on[of L _ s e] by blast
qed (simp_all add: sg_on_def)

section \<open>Properties\<close>


lemma handle_offer_done: "wc_done (snd (handle_offer L u sdp r)) = wc_done r"
  by (simp add: handle_offer_def Let_def split: sum.split)

lemma answered_offer:
  assumes "fst (handle_offer L u sdp r) = Inr a"
  shows "map_of (wc_sessions (snd (handle_offer L u sdp r))) u = Some (wc_next r)
    \<and> (\<exists>b. wc_log (snd (handle_offer L u sdp r)) = b @ [PcOpened (wc_next r), PumpSpawned (wc_next r)])"
  using assms by (auto simp: handle_offer_def Let_def update_conv' split: sum.splits)

text \<open>
  A late failure stops the successor.  The stop names the session, not the connection: if the client
  has made a new offer by the time the old connection fails, the answer is sent, and then the new
  connection is closed and the session is without any.
\<close>

theorem late_failure_stops_successor:
  "(let s = run (sg_step L) sg_start es; m = wc_next (sg_rtc s);
        T = run (sg_step L) s [SgSend (RtcOffer u sdp), SgState n PcStateFailed, SgHandle, SgHandle] in
     if sg_owner s n = Some u \<and> sg_queue s = [] \<and> \<not> wc_done (sg_rtc s)
     then map_of (wc_sessions (sg_rtc T)) u = None
        \<and> (case fst (handle_offer L u sdp (sg_rtc s)) of
             Inl e \<Rightarrow> True
           | Inr a \<Rightarrow> \<exists>before. wc_log (sg_rtc T)
               = before @ [PcOpened m, PumpSpawned m, Replied (Inr a), PumpStopped m, PcClosed m])
     else True)"
proof -
  let ?s = "run (sg_step L) sg_start es"
  let ?r = "sg_rtc ?s" and ?o = "handle_offer L u sdp (sg_rtc ?s)"
  let ?T = "run (sg_step L) ?s [SgSend (RtcOffer u sdp), SgState n PcStateFailed, SgHandle, SgHandle]"
  have end_state: "sg_rtc ?T = rtc_stop u (rtc_act [Replied (fst ?o)] (snd ?o))"
    if "sg_owner ?s n = Some u" "sg_queue ?s = []" "\<not> wc_done ?r"
    using that handle_offer_done[of L u sdp ?r]
    by (simp add: rtc_send_def on_state_change_def split_beta)
  have "map_of (wc_sessions (rtc_stop u x)) u = None" for x by simp
  moreover have "\<exists>before. wc_log (rtc_stop u (rtc_act [Replied (Inr a)] (snd ?o)))
      = before @ [PcOpened (wc_next ?r), PumpSpawned (wc_next ?r), Replied (Inr a),
                  PumpStopped (wc_next ?r), PcClosed (wc_next ?r)]" if "fst ?o = Inr a" for a
    using answered_offer[OF that] by (auto simp: rtc_stop_def)
  ultimately show ?thesis using end_state by (simp add: Let_def split: sum.split)
qed

definition offering :: "sg_event list \<Rightarrow> uuid set" where
  "offering es = {u. \<exists>sdp. SgSend (RtcOffer u sdp) \<in> set es}"

definition addressed :: "uuid set \<Rightarrow> signalling \<Rightarrow> bool" where
  "addressed us s \<longleftrightarrow>
     (\<forall>u sdp. RtcOffer u sdp \<in> set (sg_queue s) \<longrightarrow> u \<in> us) \<and> (\<forall>n u. sg_owner s n = Some u \<longrightarrow> u \<in> us)
     \<and> (\<forall>ev \<in> set (bus (sg_handle s)). \<exists>u \<in> us. \<forall>v. (webrtc_out_for_session ev v \<noteq> None) = (v = u))"

lemma addressed_step:
  assumes a: "addressed (offering es) s"
  shows "addressed (offering (es @ [e])) (sg_step L s e)"
proof -
  have "offering es \<subseteq> offering (es @ [e])" by (auto simp: offering_def)
  then have b: "addressed (offering (es @ [e])) s" using a unfolding addressed_def by blast
  show ?thesis
  proof (cases e)
    case (SgSend c)
    then have "c = RtcOffer u sdp \<Longrightarrow> u \<in> offering (es @ [e])" for u sdp
      by (auto simp: offering_def)
    then show ?thesis using b SgSend by (auto simp: addressed_def rtc_send_def)
  next
    case SgHandle
    then show ?thesis
    proof (cases "sg_queue s")
      case (Cons c q)
      have "register_callbacks L m c (sg_owner s) n = Some u \<Longrightarrow> u \<in> offering (es @ [e])" for m n u
        using b Cons by (cases c) (auto simp: addressed_def split: if_splits)
      then show ?thesis using b SgHandle Cons by (auto simp: addressed_def)
    qed (use b in simp)
  qed (use b in \<open>auto simp: addressed_def on_ice_candidate_def on_state_change_def rtc_send_def
        publish_def split: option.splits sum.splits if_splits\<close>)
qed

lemma addressed_run: "addressed (offering es) (run (sg_step L) sg_start es)"
proof (induction es rule: rev_induct)
  case Nil
  show ?case by (simp add: addressed_def sg_start_def new_handle_def)
next
  case (snoc e es)
  then show ?case using addressed_step by simp
qed

text \<open>
  Candidates go to clients that asked.  Whatever the callbacks publish is a candidate for a session
  whose client made an offer, so that the socket of that session, and no other, passes it on.
\<close>

theorem candidates_name_their_client:
  "\<forall>ev \<in> set (bus (sg_handle (run (sg_step L) sg_start es))).
     \<exists>u \<in> offering es. \<forall>v. (webrtc_out_for_session ev v \<noteq> None) = (v = u)"
  using addressed_run[of es L] by (simp add: addressed_def)

end
