(* ===== verification/WirePlumber.thy ===== *)
theory WirePlumber
  imports FileSystem
begin

text \<open>
  The configuration of WirePlumber: the parser of os-release (src/src/capabilities/osrelease.rs),
  the version banner and the format it calls for (src/src/capabilities/version.rs), the probes
  (src/src/capabilities/probe.rs), the generated files (src/src/wireplumber/config.rs), writing
  them (src/src/wireplumber/apply.rs), and the install-time command around it
  (src/src/install.rs).

  A component that uses both seams takes the file system \<open>'k\<close> and the world of the commands
  \<open>'w\<close> as two states, as the sources take two values.
\<close>

section \<open>The os-release file\<close>

record os_release =
  os_id :: "string option"
  os_version_id :: "string option"

definition trim_quotes :: "string \<Rightarrow> string" where
  "trim_quotes s =
     (let q = (\<lambda>c. c = CHR 0x22 \<or> c = CHR 0x27)
      in rev (dropWhile q (rev (dropWhile q s))))"

definition parse_os_line :: "os_release \<Rightarrow> string \<Rightarrow> os_release" where
  "parse_os_line os line =
     (case split_once CHR ''='' (trim line) of
        None \<Rightarrow> os
      | Some (k, v) \<Rightarrow>
          (let val = trim_quotes (trim v) in
           if trim k = ''ID'' then os\<lparr>os_id := Some val\<rparr>
           else if trim k = ''VERSION_ID'' then os\<lparr>os_version_id := Some val\<rparr>
           else os))"

definition no_os_release :: os_release where
  "no_os_release = \<lparr>os_id = None, os_version_id = None\<rparr>"

definition parse_os_release :: "string \<Rightarrow> os_release" where
  "parse_os_release content = foldl parse_os_line no_os_release (lines content)"

section \<open>Versions and formats\<close>

datatype config_format = Lua | SpaJson

record wp_version =
  wp_major :: nat
  wp_minor :: nat

definition parse_version_token :: "string \<Rightarrow> wp_version option" where
  "parse_version_token tok =
     (case split_on CHR ''.'' tok of
        a # b # _ \<Rightarrow>
          (case (parse_u32 a, parse_u32 b) of
             (Some major, Some minor) \<Rightarrow> Some \<lparr>wp_major = major, wp_minor = minor\<rparr>
           | _ \<Rightarrow> None)
      | _ \<Rightarrow> None)"

fun first_version :: "string list \<Rightarrow> wp_version option" where
  "first_version [] = None"
| "first_version (tok # toks) =
     (case parse_version_token tok of Some v \<Rightarrow> Some v | None \<Rightarrow> first_version toks)"

definition parse_wp_version :: "string \<Rightarrow> wp_version option" where
  "parse_wp_version output = first_version (split_by is_ws output)"

text \<open>The pair of the two numbers is at least \<open>(0, 5)\<close>, lexicographically.\<close>

definition format_of_version :: "wp_version \<Rightarrow> config_format" where
  "format_of_version v =
     (if 0 < wp_major v \<or> (wp_major v = 0 \<and> 5 \<le> wp_minor v) then SpaJson else Lua)"

section \<open>The generated files\<close>

text \<open>The texts hold dashes that are not ASCII; the byte sequence of one is \<open>em_dash\<close>.\<close>

definition em_dash :: string where "em_dash = [CHR 0xE2, CHR 0x80, CHR 0x94]"

definition SPA_LINES :: "string list" where
  "SPA_LINES =
     [''# SoundSync '' @ em_dash @ '' WirePlumber 0.5+ A2DP sink config.'',
      ''# CRITICAL: monitor.bluez.seat-monitoring = disabled '' @ em_dash @ '' without it, headless/'',
      ''# SSH-only sessions never start the BlueZ monitor, so a connected phone pairs'',
      ''# but exposes no audio sink. (AUD-004)'',
      ''wireplumber.profiles = {'',
      ''    main = {'',
      ''        monitor.bluez.seat-monitoring = disabled'',
      ''    }'',
      ''}'',
      '''',
      ''monitor.bluez.properties = {'',
      ''    bluez5.roles = [ a2dp_sink a2dp_source hfp_hf hfp_ag hsp_hs hsp_ag ]'',
      ''    bluez5.codecs = [ sbc aac ldac aptx aptx_hd ]'',
      ''    bluez5.enable-sbc-xq = true'',
      ''    bluez5.enable-msbc = false'',
      ''    bluez5.enable-hw-volume = true'',
      ''}'']"

definition SPA_JSON :: string where "SPA_JSON = unlines SPA_LINES"

definition LUA_LINES :: "string list" where
  \<open>LUA_LINES =
     [''-- SoundSync: Enable A2DP sink role so Bluetooth devices can stream audio here.'',
      ''-- IMPORTANT: modify INDIVIDUAL properties '' @ em_dash @ '' do NOT replace the entire'',
      ''-- bluez_monitor.properties table, as that wipes defaults like with-logind. (AUD-018)'',
      ''bluez_monitor.properties["bluez5.roles"] = "[ a2dp_sink ]"'',
      ''bluez_monitor.properties["bluez5.codecs"] = "[ sbc aac ldac aptx aptx_hd ]"'',
      ''bluez_monitor.properties["bluez5.enable-sbc-xq"] = true'',
      ''bluez_monitor.properties["bluez5.enable-msbc"] = false'',
      ''bluez_monitor.properties["bluez5.enable-hw-volume"] = true'']\<close>

definition LUA_TEXT :: string where "LUA_TEXT = unlines LUA_LINES"

record wp_config_file =
  wc_filename :: string
  wc_etc_dir :: string
  wc_contents :: string

definition generate :: "config_format \<Rightarrow> wp_config_file" where
  "generate fmt =
     (case fmt of
        SpaJson \<Rightarrow> \<lparr>wc_filename = ''51-soundsync.conf'',
                     wc_etc_dir = ''/etc/wireplumber/wireplumber.conf.d'',
                     wc_contents = SPA_JSON\<rparr>
      | Lua \<Rightarrow> \<lparr>wc_filename = ''51-soundsync-a2dp.lua'',
                 wc_etc_dir = ''/etc/wireplumber/bluetooth.lua.d'',
                 wc_contents = LUA_TEXT\<rparr>)"

definition wc_path :: "wp_config_file \<Rightarrow> string" where
  "wc_path c = wc_etc_dir c @ ''/'' @ wc_filename c"

section \<open>Probes\<close>

definition OS_RELEASE_PATH :: string where "OS_RELEASE_PATH = ''/etc/os-release''"

text \<open>The version in the answer of \<open>wireplumber --version\<close>: from stdout, else from stderr.\<close>

definition banner_version :: "command_output \<Rightarrow> wp_version option" where
  "banner_version out =
     (case parse_wp_version (stdout out) of
        Some v \<Rightarrow> Some v
      | None \<Rightarrow> parse_wp_version (stderr out))"

definition detect_config_format :: "'w runner \<Rightarrow> 'w \<Rightarrow> config_format \<times> 'w" where
  "detect_config_format r w =
     (case r w ''wireplumber'' [''--version''] of
        (Inr out, w') \<Rightarrow>
          ((case banner_version out of Some v \<Rightarrow> format_of_version v | None \<Rightarrow> Lua), w')
      | (Inl _, w') \<Rightarrow> (Lua, w'))"

definition generate_path :: "config_format \<Rightarrow> string" where
  "generate_path fmt = wc_path (generate fmt)"

definition is_ok :: "'e + 'a \<Rightarrow> bool" where
  "is_ok x = (case x of Inr _ \<Rightarrow> True | Inl _ \<Rightarrow> False)"

text \<open>Which format the files on disk suggest, when the version cannot be read.\<close>

definition format_on_disk :: "'k fs_ops \<Rightarrow> 'k \<Rightarrow> config_format" where
  "format_on_disk ops k =
     (let spa_present = is_ok (read_to_string ops k (generate_path SpaJson));
          lua_present = is_ok (read_to_string ops k (generate_path Lua))
      in case (spa_present, lua_present) of
           (True, False) \<Rightarrow> SpaJson
         | (False, True) \<Rightarrow> Lua
         | _ \<Rightarrow> Lua)"

definition detect_config_format_guarded ::
    "'w runner \<Rightarrow> 'k fs_ops \<Rightarrow> 'k \<Rightarrow> 'w \<Rightarrow> config_format \<times> 'w" where
  "detect_config_format_guarded r ops k w =
     (case r w ''wireplumber'' [''--version''] of
        (Inr out, w') \<Rightarrow>
          (case banner_version out of
             Some v \<Rightarrow> (format_of_version v, w')
           | None \<Rightarrow> (format_on_disk ops k, w'))
      | (Inl _, w') \<Rightarrow> (format_on_disk ops k, w'))"

definition detect_os_release :: "'k fs_ops \<Rightarrow> 'k \<Rightarrow> os_release" where
  "detect_os_release ops k =
     (case read_to_string ops k OS_RELEASE_PATH of
        Inr s \<Rightarrow> parse_os_release s
      | Inl _ \<Rightarrow> no_os_release)"

section \<open>Writing the configuration\<close>

record applied_config =
  written_path :: string
  removed_stale_path :: string
  restarted :: bool

definition opposite :: "config_format \<Rightarrow> config_format" where
  "opposite fmt = (case fmt of Lua \<Rightarrow> SpaJson | SpaJson \<Rightarrow> Lua)"

definition apply_config ::
    "'k fs_ops \<Rightarrow> 'w runner \<Rightarrow> config_format \<Rightarrow> 'k \<Rightarrow> 'w
      \<Rightarrow> (io_error + applied_config) \<times> 'k \<times> 'w" where
  "apply_config ops r fmt k w =
     (let cfg = generate fmt; stale = generate (opposite fmt) in
      case remove_file ops k (wc_etc_dir stale) (wc_filename stale) of
        (Inl e, k1) \<Rightarrow> (Inl e, k1, w)
      | (Inr _, k1) \<Rightarrow>
          (case write_atomic ops k1 (wc_etc_dir cfg) (wc_filename cfg) (wc_contents cfg) of
             (Inl e, k2) \<Rightarrow> (Inl e, k2, w)
           | (Inr _, k2) \<Rightarrow>
               (case r w ''systemctl'' [''--user'', ''restart'', ''wireplumber''] of
                  (res, w') \<Rightarrow>
                    (Inr \<lparr>written_path = wc_path cfg, removed_stale_path = wc_path stale,
                          restarted = (case res of Inr out \<Rightarrow> success out | Inl _ \<Rightarrow> False)\<rparr>,
                     k2, w'))))"

section \<open>The install-time command\<close>

definition show_bool :: "bool \<Rightarrow> string" where
  "show_bool b = (if b then ''true'' else ''false'')"

definition apply_summary :: "applied_config \<Rightarrow> string" where
  "apply_summary a =
     ''wrote: '' @ written_path a @ CHR 0x0A # ''removed stale: '' @ removed_stale_path a
     @ CHR 0x0A # ''wireplumber restarted: '' @ show_bool (restarted a)"

definition apply_wireplumber_config ::
    "'k fs_ops \<Rightarrow> 'w runner \<Rightarrow> 'k \<Rightarrow> 'w \<Rightarrow> (string + string) \<times> 'k \<times> 'w" where
  "apply_wireplumber_config ops r k w =
     (case detect_config_format r w of (fmt, w1) \<Rightarrow>
      case apply_config ops r fmt k w1 of
        (Inl e, k', w') \<Rightarrow> (Inl (''failed to write WirePlumber config: '' @ err_msg e), k', w')
      | (Inr a, k', w') \<Rightarrow> (Inr (apply_summary a), k', w'))"

section \<open>Lemmas\<close>

lemma opposite_simps [simp]: "opposite Lua = SpaJson" "opposite SpaJson = Lua"
  "opposite (opposite f) = f" "opposite f \<noteq> f"
  by (auto simp: opposite_def split: config_format.splits)

lemma in_dir_generate: "in_dir (wc_etc_dir (generate f)) (wc_filename (generate f)) = generate_path f"
  by (simp add: in_dir_def generate_path_def wc_path_def)

lemma generate_paths_differ: "generate_path Lua \<noteq> generate_path SpaJson"
  by (simp add: generate_path_def wc_path_def generate_def)

lemma generate_path_inject [simp]: "generate_path f = generate_path g \<longleftrightarrow> f = g"
  using generate_paths_differ by (cases f; cases g) (auto dest: sym)

lemma generate_path_not_tmp:
  "generate_path (opposite f) \<noteq> tmp_path (wc_etc_dir (generate f)) (wc_filename (generate f))"
  by (cases f) (simp_all add: generate_path_def wc_path_def generate_def tmp_path_def)

context fs
begin

lemma apply_config_ok:
  assumes "apply_config ops r fmt k w = (Inr a, k', w')" "good k"
  shows "contents k' (generate_path fmt) = Some (wc_contents (generate fmt))
    \<and> contents k' (generate_path (opposite fmt)) = None
    \<and> written_path a = generate_path fmt \<and> removed_stale_path a = generate_path (opposite fmt)
    \<and> readable k' = readable k \<and> good k'"
proof -
  let ?c = "generate fmt" and ?s = "generate (opposite fmt)"
  obtain k1 where rm: "remove_file ops k (wc_etc_dir ?s) (wc_filename ?s) = (Inr (), k1)"
    and wr: "write_atomic ops k1 (wc_etc_dir ?c) (wc_filename ?c) (wc_contents ?c) = (Inr (), k')"
    and a: "written_path a = generate_path fmt" "removed_stale_path a = generate_path (opposite fmt)"
    using assms(1) by (auto simp: apply_config_def Let_def generate_path_def split: prod.splits sum.splits)
  have "contents k1 (generate_path (opposite fmt)) = None"
    using remove_ok[OF assms(2) rm] by (simp add: in_dir_generate)
  moreover have "contents k' (generate_path (opposite fmt)) = contents k1 (generate_path (opposite fmt))"
    using write_frame[OF wr, of "generate_path (opposite fmt)"]
    by (simp add: in_dir_generate generate_path_not_tmp)
  ultimately show ?thesis
    using write_ok[OF wr] a remove_readable[OF rm] write_readable[OF wr] remove_good[OF rm]
      write_good[OF wr] assms(2) by (simp add: in_dir_generate)
qed

lemma apply_config_err:
  assumes "apply_config ops r fmt k w = (Inl e, k', w')"
  shows "contents k' (generate_path fmt) = contents k (generate_path fmt) \<and> w' = w"
proof -
  let ?c = "generate fmt" and ?s = "generate (opposite fmt)"
  have frame: "contents k1 (generate_path fmt) = contents k (generate_path fmt)"
    if "remove_file ops k (wc_etc_dir ?s) (wc_filename ?s) = (x, k1)" for x k1
    using remove_frame[OF that, of "generate_path fmt"] opposite_simps(4)[of fmt]
    by (simp add: in_dir_generate)
  consider "remove_file ops k (wc_etc_dir ?s) (wc_filename ?s) = (Inl e, k')" "w' = w"
    | k1 where "remove_file ops k (wc_etc_dir ?s) (wc_filename ?s) = (Inr (), k1)" "w' = w"
      "write_atomic ops k1 (wc_etc_dir ?c) (wc_filename ?c) (wc_contents ?c) = (Inl e, k')"
    using assms by (auto simp: apply_config_def Let_def split: prod.splits sum.splits)
  then show ?thesis
  proof cases
    case 1
    then show ?thesis using frame by blast
  next
    case 2
    then show ?thesis using frame[OF 2(1)] write_err[OF 2(3)] by (simp add: in_dir_generate)
  qed
qed

lemma format_on_disk_applied:
  assumes "contents k (generate_path fmt) = Some c" "contents k (generate_path (opposite fmt)) = None"
    "readable k (generate_path fmt)"
  shows "format_on_disk ops k = fmt"
proof -
  have "read_to_string ops k (generate_path fmt) = Inr c"
    by (rule read_present[OF assms(3,1)])
  moreover have "\<exists>e. read_to_string ops k (generate_path (opposite fmt)) = Inl e"
    using read_Inr[of k "generate_path (opposite fmt)"] assms(2)
    by (cases "read_to_string ops k (generate_path (opposite fmt))") auto
  ultimately show ?thesis by (cases fmt) (auto simp: format_on_disk_def is_ok_def)
qed

text \<open>What the guarded probe finds, once one configuration is in place.\<close>

lemma guarded_finds_applied:
  assumes "contents k (generate_path fmt) = Some c" "contents k (generate_path (opposite fmt)) = None"
    "readable k (generate_path fmt)"
    "\<And>out v. fst (r w ''wireplumber'' [''--version'']) = Inr out \<Longrightarrow> banner_version out = Some v \<Longrightarrow>
       format_of_version v = fmt"
  shows "fst (detect_config_format_guarded r ops k w) = fmt"
  using assms(4) format_on_disk_applied[OF assms(1-3)]
  by (auto simp: detect_config_format_guarded_def split: prod.splits sum.splits option.splits)

end

text \<open>The parser of the banner.\<close>

lemma first_version_append:
  "(\<forall>t \<in> set ts. parse_version_token t = None) \<Longrightarrow> first_version (ts @ us) = first_version us"
  by (induction ts) auto

lemma is_digit_ne_dot: "is_digit c \<Longrightarrow> c \<noteq> CHR ''.''"
  by (auto simp: is_digit_def)

lemma parse_version_token_show:
  assumes "major < 2 ^ 32" "minor < 2 ^ 32" "rest = [] \<or> hd rest = CHR ''.''"
  shows "parse_version_token (show_nat major @ CHR ''.'' # show_nat minor @ rest) =
    Some \<lparr>wp_major = major, wp_minor = minor\<rparr>"
proof -
  have nodot: "\<forall>c \<in> set (show_nat n). c \<noteq> CHR ''.''" for n
    using show_nat_no_ws is_digit_ne_dot by blast
  have "\<exists>ws. split_on CHR ''.'' (show_nat minor @ rest) = show_nat minor # ws"
  proof (cases rest)
    case Nil
    then show ?thesis using split_by_no_sep[OF nodot] by simp
  next
    case (Cons c cs)
    then show ?thesis using assms(3) split_by_append_sep[OF nodot, of "CHR ''.''" minor cs] by simp
  qed
  then show ?thesis
    using split_by_append_sep[OF nodot, of "CHR ''.''" major "show_nat minor @ rest"] assms
    by (auto simp: parse_version_token_def parse_uint_show)
qed

text \<open>Words and a version separated by white space; no word is a version itself.\<close>

lemma split_by_words:
  assumes "list_all (\<lambda>t. list_all (\<lambda>c. \<not> is_ws c) t) ts" "\<forall>c \<in> set v. \<not> is_ws c" "is_ws sep"
  shows "split_by is_ws (concat (map (\<lambda>t. t @ [sep]) ts) @ v @ CHR 0x0A # s)
    = ts @ v # split_by is_ws s"
proof -
  have nl: "is_ws CHR 0x0A" by (simp add: is_ws_def)
  have "split_by is_ws (v @ CHR 0x0A # s) = v # split_by is_ws s"
    by (rule split_by_append_sep[OF assms(2) nl])
  with assms(1) show ?thesis
  proof (induction ts)
    case (Cons t ts)
    then show ?case
      using split_by_append_sep[of t is_ws sep "concat (map (\<lambda>t. t @ [sep]) ts) @ v @ CHR 0x0A # s"]
        assms(3) by (auto simp: list_all_iff)
  qed simp
qed

lemma contains_concat:
  "l \<in> set ls \<Longrightarrow> contains l p \<Longrightarrow> contains (unlines ls) p"
proof -
  assume "l \<in> set ls" "contains l p"
  then obtain xs ys a b where "ls = xs @ l # ys" "l = a @ p @ b"
    by (auto simp: contains_iff dest: split_list)
  then have "unlines ls = (unlines xs @ a) @ p @ (b @ [CHR 0x0A] @ unlines ys)"
    by (simp add: unlines_def)
  then show ?thesis unfolding contains_iff by blast
qed

section \<open>Properties\<close>


definition demo_wp_runner :: "string \<Rightarrow> unit runner" where
  "demo_wp_runner banner w p as =
     (Inr \<lparr>status = 0, stdout = (if p = ''wireplumber'' then banner else []), stderr = []\<rparr>, w)"

definition demo_etc :: "config_format \<Rightarrow> disk" where
  "demo_etc fmt = \<lparr>files = [generate_path fmt \<mapsto> ''old''], sys_fault = (\<lambda>_. None),
                   read_fault = (\<lambda>_. None), torn = None\<rparr>"

lemma demo_etc_honest: "honest_faults (demo_etc fmt)"
  by (simp add: demo_etc_def honest_faults_def)


text \<open>
  The version is found.  The first token that looks like a version decides, whatever words stand
  before it and whatever follows it, and it is read back as the numbers that were printed.
\<close>

theorem banner_version_found:
  assumes "major < 2 ^ 32" "minor < 2 ^ 32" "patch = [] \<or> hd patch = CHR ''.''"
    "\<forall>c \<in> set patch. \<not> is_ws c" "is_ws sep"
    "list_all (\<lambda>t. list_all (\<lambda>c. \<not> is_ws c) t \<and> parse_version_token t = None) ts"
  shows "parse_wp_version (concat (map (\<lambda>t. t @ [sep]) ts)
      @ (show_nat major @ CHR ''.'' # show_nat minor @ patch) @ CHR 0x0A # s) =
    Some \<lparr>wp_major = major, wp_minor = minor\<rparr>"
proof -
  let ?v = "show_nat major @ CHR ''.'' # show_nat minor @ patch"
  have "\<not> is_ws c" if "c \<in> set (show_nat n)" for c n
    using show_nat_no_ws[OF that] is_digit_not by blast
  then have v: "\<forall>c \<in> set ?v. \<not> is_ws c" using assms(4) by (auto simp: is_ws_def)
  have ts: "list_all (\<lambda>t. list_all (\<lambda>c. \<not> is_ws c) t) ts" "\<forall>t \<in> set ts. parse_version_token t = None"
    using assms(6) by (auto simp: list_all_iff)
  show ?thesis
    unfolding parse_wp_version_def split_by_words[OF ts(1) v assms(5)] first_version_append[OF ts(2)]
    by (simp add: parse_version_token_show[OF assms(1-3)])
qed

lemma format_of_version_mono:
  "wp_major v < wp_major u \<or> (wp_major v = wp_major u \<and> wp_minor v \<le> wp_minor u) \<Longrightarrow>
     format_of_version v = SpaJson \<Longrightarrow> format_of_version u = SpaJson"
  by (auto simp: format_of_version_def split: if_splits)

end
