(* ===== verification/Config.thy ===== *)
theory Config
  imports FileSystem CastSession
begin

text \<open>
  What the process reads before it starts anything: the subcommand (src/src/cli.rs), the
  settings of the environment (src/src/config.rs), the Bluetooth adapter
  (src/src/adapter_id.rs), and the resolvers of src/src/main.rs for the device name, the
  address of this host and the shutdown backstop.

  The environment is a map from variable names to values; a directory listing is the answer of
  \<open>read_dir\<close>, in the order the system gives it.
\<close>

type_synonym environment = "string \<Rightarrow> string option"

section \<open>The command line\<close>

datatype cli_command =
    Run
  | Doctor
  | ApplyWpConfig
  | ApplyAdapterConfig
  | Version
  | Help

definition parse_args :: "string list \<Rightarrow> cli_command" where
  "parse_args args =
     (case args of
        [] \<Rightarrow> Run
      | a # _ \<Rightarrow>
          if a = ''doctor'' then Doctor
          else if a = ''apply-wireplumber-config'' then ApplyWpConfig
          else if a = ''apply-adapter-config'' then ApplyAdapterConfig
          else if a \<in> {''version'', ''--version'', ''-V''} then Version
          else if a \<in> {''help'', ''--help'', ''-h''} then Help
          else Help)"

section \<open>Settings of the environment\<close>

definition DEFAULT_BIND :: string where "DEFAULT_BIND = ''0.0.0.0:8080''"

definition DEFAULT_WEB_DIR :: string where "DEFAULT_WEB_DIR = ''/usr/share/soundsync/webui''"

definition DEFAULT_NAME :: string where "DEFAULT_NAME = ''SoundSync''"

text \<open>
  The debug print of a string, on ASCII text: quotes around it; a quote, a backslash and the
  control characters escaped.
\<close>

definition hex_char :: "nat \<Rightarrow> char" where
  "hex_char d = ''0123456789abcdef'' ! d"

definition escape_debug :: "char \<Rightarrow> string" where
  "escape_debug c =
     (if c = CHR 0x00 then [CHR 0x5C, CHR ''0'']
      else if c = CHR 0x09 then [CHR 0x5C, CHR ''t'']
      else if c = CHR 0x0D then [CHR 0x5C, CHR ''r'']
      else if c = CHR 0x0A then [CHR 0x5C, CHR ''n'']
      else if c = CHR 0x22 \<or> c = CHR 0x5C then [CHR 0x5C, c]
      else let n = of_char c :: nat in
        if n < 16 then [CHR 0x5C, CHR ''u'', CHR 0x7B, hex_char n, CHR 0x7D]
        else if n < 32 \<or> n = 127
        then [CHR 0x5C, CHR ''u'', CHR 0x7B, hex_char (n div 16), hex_char (n mod 16), CHR 0x7D]
        else [c])"

definition debug_str :: "string \<Rightarrow> string" where
  "debug_str s = CHR 0x22 # concat (map escape_debug s) @ [CHR 0x22]"

text \<open>The socket-address parser of the standard library is the argument \<open>parse_addr\<close>.\<close>

record socket_addr =
  sa_ip :: string
  sa_port :: nat

definition resolve_bind ::
    "(string \<Rightarrow> string + socket_addr) \<Rightarrow> string option \<Rightarrow> string + socket_addr" where
  "resolve_bind parse_addr env_val =
     (let s = (case env_val of Some v \<Rightarrow> v | None \<Rightarrow> DEFAULT_BIND) in
      case parse_addr s of
        Inr a \<Rightarrow> Inr a
      | Inl e \<Rightarrow> Inl (''SOUNDSYNC_BIND='' @ debug_str s @ '' is not a valid socket address: '' @ e))"

definition resolve_web_dir :: "string option \<Rightarrow> string" where
  "resolve_web_dir env_val = (case env_val of Some v \<Rightarrow> v | None \<Rightarrow> DEFAULT_WEB_DIR)"

definition resolve_name :: "string option \<Rightarrow> string option \<Rightarrow> string" where
  "resolve_name env_val persisted =
     (case persisted of
        Some p \<Rightarrow> if p \<noteq> [] then p
                  else (case env_val of Some e \<Rightarrow> if e \<noteq> [] then e else DEFAULT_NAME
                                      | None \<Rightarrow> DEFAULT_NAME)
      | None \<Rightarrow> (case env_val of Some e \<Rightarrow> if e \<noteq> [] then e else DEFAULT_NAME
                              | None \<Rightarrow> DEFAULT_NAME))"

text \<open>The name kept on disk, as both callers of \<open>resolve_name\<close> read it.\<close>

definition home_dir :: "environment \<Rightarrow> string" where
  "home_dir env = (case env ''HOME'' of Some h \<Rightarrow> h | None \<Rightarrow> ''/root'')"

definition persisted_name :: "disk \<Rightarrow> string \<Rightarrow> string option" where
  "persisted_name k home =
     (case std_read k (device_name_path home) of
        Inl _ \<Rightarrow> None
      | Inr s \<Rightarrow> (let n = trim s in if n \<noteq> [] then Some n else None))"

definition boot_name :: "environment \<Rightarrow> disk \<Rightarrow> string" where
  "boot_name env k = resolve_name (env ''SOUNDSYNC_NAME'') (persisted_name k (home_dir env))"

definition DEFAULT_SHUTDOWN_TIMEOUT_SECS :: nat where "DEFAULT_SHUTDOWN_TIMEOUT_SECS = 8"

definition resolve_shutdown_timeout :: "environment \<Rightarrow> duration" where
  "resolve_shutdown_timeout env =
     secs (case Option.bind (env ''SOUNDSYNC_SHUTDOWN_TIMEOUT'') (\<lambda>s. parse_u64 (trim s)) of
             Some s \<Rightarrow> if 0 < s then s else DEFAULT_SHUTDOWN_TIMEOUT_SECS
           | None \<Rightarrow> DEFAULT_SHUTDOWN_TIMEOUT_SECS)"

section \<open>The adapter\<close>

definition SYS_BLUETOOTH_DIR :: string where "SYS_BLUETOOTH_DIR = ''/sys/class/bluetooth''"

definition FALLBACK_ADAPTER :: string where "FALLBACK_ADAPTER = ''hci0''"

text \<open>
  A listing fails, or gives entries each of which may fail; the name of an entry may not be
  UTF-8 (\<open>None\<close>).
\<close>

type_synonym dir_listing = "io_error + (io_error + string option) list"

definition list_sys_adapters :: "(string \<Rightarrow> dir_listing) \<Rightarrow> string list" where
  "list_sys_adapters read_dir =
     sort (case read_dir SYS_BLUETOOTH_DIR of
             Inr entries \<Rightarrow>
               filter (\<lambda>n. starts_with n ''hci'')
                 (List.map_filter (\<lambda>e. case e of Inr n \<Rightarrow> n | Inl _ \<Rightarrow> None) entries)
           | Inl _ \<Rightarrow> [])"

definition resolve_adapter_from :: "string option \<Rightarrow> string list \<Rightarrow> string" where
  "resolve_adapter_from env adapters =
     (let found = (case adapters of a # _ \<Rightarrow> a | [] \<Rightarrow> FALLBACK_ADAPTER) in
      case env of
        Some h \<Rightarrow> if trim h \<noteq> [] then trim h else found
      | None \<Rightarrow> found)"

definition resolve_adapter :: "environment \<Rightarrow> (string \<Rightarrow> dir_listing) \<Rightarrow> string" where
  "resolve_adapter env read_dir =
     resolve_adapter_from (env ''SOUNDSYNC_HCI'') (list_sys_adapters read_dir)"

section \<open>The address of this host\<close>

definition resolve_lan_ip :: "'w runner \<Rightarrow> 'w \<Rightarrow> string \<times> 'w" where
  "resolve_lan_ip r w =
     (case r w ''hostname'' [''-I''] of
        (Inr out, w') \<Rightarrow>
          (if success out
           then (case server_lan_ip (stdout out) of Some ip \<Rightarrow> ip | None \<Rightarrow> [])
           else [], w')
      | (Inl _, w') \<Rightarrow> ([], w'))"

section \<open>Lemmas\<close>

lemma DEFAULT_NAME_ne [simp]: "DEFAULT_NAME \<noteq> []"
  by (simp add: DEFAULT_NAME_def)

lemma default_names_agree: "DEFAULT_NAME = DEFAULT_DEVICE_NAME"
  by (simp add: DEFAULT_NAME_def DEFAULT_DEVICE_NAME_def)

lemma resolve_name_cases:
  "resolve_name env_val persisted =
     (if persisted \<noteq> None \<and> persisted \<noteq> Some [] then the persisted
      else if env_val \<noteq> None \<and> env_val \<noteq> Some [] then the env_val
      else DEFAULT_NAME)"
  by (cases persisted; cases env_val) (auto simp: resolve_name_def)

lemma resolve_name_ne: "resolve_name env_val persisted \<noteq> []"
  by (auto simp: resolve_name_cases split: if_splits)

lemma home_dir_default: "(case env ''HOME'' of Some h \<Rightarrow> h | None \<Rightarrow> ''/root'') = home_dir env"
  by (simp add: home_dir_def)

text \<open>The two readers of the name file agree, up to what they do without a name.\<close>

lemma load_device_name_persisted:
  "load_device_name k (env ''HOME'') =
     (case persisted_name k (home_dir env) of Some n \<Rightarrow> n | None \<Rightarrow> DEFAULT_DEVICE_NAME)"
  by (auto simp: load_device_name_def load_device_name_from_def persisted_name_def home_dir_default
      Let_def split: sum.splits)

lemma persisted_name_of_file:
  "read_fault k (device_name_path h) = None \<Longrightarrow> files k (device_name_path h) = Some s \<Longrightarrow>
     persisted_name k h = (if trim s = [] then None else Some (trim s))"
  by (simp add: persisted_name_def std_read_def Let_def)

lemma save_device_name_files:
  assumes "save_device_name k home_var name = (Inr (), k')"
  shows "k' = k\<lparr>files := (files k)(device_name_path
      (case home_var of Some h \<Rightarrow> h | None \<Rightarrow> ''/root'') := Some name)\<rparr>"
  using assms
  by (auto simp: save_device_name_def save_device_name_to_def path_parent_device_name std_defs
      split: option.splits)

lemma adapters_hci: "a \<in> set (list_sys_adapters read_dir) \<Longrightarrow> starts_with a ''hci''"
  by (auto simp: list_sys_adapters_def split: sum.splits)

lemma adapters_least:
  "list_sys_adapters read_dir = a # as \<Longrightarrow> b \<in> set (list_sys_adapters read_dir) \<Longrightarrow> a \<le> b"
  using sorted_sort[of "case read_dir SYS_BLUETOOTH_DIR of
             Inr entries \<Rightarrow>
               filter (\<lambda>n. starts_with n ''hci'')
                 (List.map_filter (\<lambda>e. case e of Inr n \<Rightarrow> n | Inl _ \<Rightarrow> None) entries)
           | Inl _ \<Rightarrow> []"]
  by (auto simp: list_sys_adapters_def)

section \<open>Properties\<close>



text \<open>
  The adapter is the override, trimmed, when there is one; else the least of the
  \<open>hci\<close> entries of the system; else \<open>hci0\<close>.  It does not depend on the order of the listing,
  and it is never empty.
\<close>

theorem adapter_choice:
  "(let a = resolve_adapter env read_dir; found = set (list_sys_adapters read_dir);
        h = (case env ''SOUNDSYNC_HCI'' of Some h \<Rightarrow> trim h | None \<Rightarrow> [])
    in a \<noteq> [] \<and> (if h \<noteq> [] then a = h
                 else if found = {} then a = FALLBACK_ADAPTER
                 else a \<in> found \<and> starts_with a ''hci'' \<and> list_all (\<lambda>b. a \<le> b) (list_sys_adapters read_dir)))"
proof (cases "list_sys_adapters read_dir")
  case Nil
  then show ?thesis
    by (auto simp: resolve_adapter_def resolve_adapter_from_def FALLBACK_ADAPTER_def Let_def
        split: option.splits)
next
  case (Cons a as)
  have "starts_with a ''hci''" "a \<noteq> []" using adapters_hci[of a read_dir] Cons by auto
  moreover have "\<forall>b \<in> set (a # as). a \<le> b"
    using adapters_least[OF Cons] Cons by simp
  ultimately show ?thesis
    by (auto simp: resolve_adapter_def resolve_adapter_from_def Let_def Cons list_all_iff
        split: option.splits)
qed

text \<open>
  The backstop is never zero, and without the variable it is below the 15 seconds after which
  systemd kills the process.
\<close>

lemma shutdown_timeout_bounds:
  "0 < resolve_shutdown_timeout env"
  "env ''SOUNDSYNC_SHUTDOWN_TIMEOUT'' = None \<Longrightarrow> resolve_shutdown_timeout env < secs 15"
  by (auto simp: resolve_shutdown_timeout_def DEFAULT_SHUTDOWN_TIMEOUT_SECS_def secs_def
      split: option.splits)

end
