(* ===== verification/SelfCheck.thy ===== *)
theory SelfCheck
  imports WirePlumber Config
begin

text \<open>
  The read-only self-check \<open>soundsync doctor\<close> (src/src/doctor.rs): its five checks in order, each a
  definition of its own, the report and its print.

  The file system is only read; its type \<open>'k\<close> does not occur in a result.  The adapter is resolved
  from the environment and the directory listing, as the daemon does.
\<close>

definition REQUIRED_WP_KEYS :: "string list" where
  "REQUIRED_WP_KEYS =
     [''seat-monitoring = disabled'', ''a2dp_sink'', ''bluez5.codecs'', ''enable-hw-volume'']"

datatype check_status = Pass | Warn | Fail

record check =
  ck_name :: string
  ck_status :: check_status
  ck_detail :: string

type_synonym doctor_report = "check list"

definition report_ok :: "doctor_report \<Rightarrow> bool" where
  "report_ok checks \<longleftrightarrow> list_all (\<lambda>c. ck_status c \<noteq> Fail) checks"

text \<open>The icons are the bytes of U+2713, U+26A0 and U+2717.\<close>

definition status_icon :: "check_status \<Rightarrow> string" where
  "status_icon st =
     (case st of
        Pass \<Rightarrow> [CHR 0xE2, CHR 0x9C, CHR 0x93]
      | Warn \<Rightarrow> [CHR 0xE2, CHR 0x9A, CHR 0xA0]
      | Fail \<Rightarrow> [CHR 0xE2, CHR 0x9C, CHR 0x97])"

definition show_check :: "check \<Rightarrow> string" where
  "show_check c = status_icon (ck_status c) @ '' ['' @ ck_name c @ ''] '' @ ck_detail c"

definition show_report :: "doctor_report \<Rightarrow> string" where
  "show_report checks = unlines (map show_check checks)"

section \<open>The checks\<close>

definition REQUIRED_BINS :: "string list" where
  "REQUIRED_BINS =
     [''parec'', ''pw-cat'', ''pactl'', ''wpctl'', ''pw-link'', ''pw-metadata'', ''ffmpeg'',
      ''hciconfig'', ''pipewire'', ''wireplumber'']"

definition ran_ok :: "io_error + command_output \<Rightarrow> bool" where
  "ran_ok res = (case res of Inr out \<Rightarrow> success out | Inl _ \<Rightarrow> False)"

fun missing_bins :: "'w runner \<Rightarrow> string list \<Rightarrow> 'w \<Rightarrow> string list \<times> 'w" where
  "missing_bins r [] w = ([], w)"
| "missing_bins r (bin # bins) w =
     (case r w ''sh'' [''-c'', ''command -v '' @ bin] of
        (res, w1) \<Rightarrow>
          (case missing_bins r bins w1 of
             (missing, w2) \<Rightarrow> (if ran_ok res then missing else bin # missing, w2)))"

definition check_binaries :: "'w runner \<Rightarrow> 'w \<Rightarrow> check \<times> 'w" where
  "check_binaries r w =
     (case missing_bins r REQUIRED_BINS w of
        (missing, w') \<Rightarrow>
          (if missing = []
           then \<lparr>ck_name = ''binaries'', ck_status = Pass,
                 ck_detail = ''all required binaries present''\<rparr>
           else \<lparr>ck_name = ''binaries'', ck_status = Fail,
                 ck_detail = ''missing: '' @ join '', '' missing\<rparr>, w'))"

definition check_pipewire :: "'w runner \<Rightarrow> 'w \<Rightarrow> check \<times> 'w" where
  "check_pipewire r w =
     (case r w ''pactl'' [''info''] of
        (res, w') \<Rightarrow>
          (if ran_ok res
           then \<lparr>ck_name = ''pipewire-running'', ck_status = Pass,
                 ck_detail = ''PipeWire reachable via pactl''\<rparr>
           else \<lparr>ck_name = ''pipewire-running'', ck_status = Fail,
                 ck_detail = ''PipeWire not reachable; is the user session up?''\<rparr>, w'))"

definition expected_keys :: "config_format \<Rightarrow> string list" where
  "expected_keys fmt = filter (\<lambda>k. contains (wc_contents (generate fmt)) k) REQUIRED_WP_KEYS"

definition APPLY_HINT :: string where
  "APPLY_HINT = ''run: sudo soundsync apply-wireplumber-config''"

text \<open>The verdict on the file at the path of the expected format.\<close>

definition judge_wp_config :: "config_format \<Rightarrow> io_error + string \<Rightarrow> check" where
  "judge_wp_config fmt res =
     (let path = generate_path fmt in
      case res of
        Inr on_disk \<Rightarrow>
          (let missing = filter (\<lambda>k. \<not> contains on_disk k) (expected_keys fmt) in
           if missing = []
           then \<lparr>ck_name = ''wp-config'', ck_status = Pass,
                 ck_detail = ''WirePlumber A2DP config present and valid at '' @ path\<rparr>
           else \<lparr>ck_name = ''wp-config'', ck_status = Fail,
                 ck_detail = ''WirePlumber A2DP config at '' @ path
                   @ '' is present but drifted (missing: '' @ join '', '' missing
                   @ ''); '' @ APPLY_HINT\<rparr>)
      | Inl _ \<Rightarrow>
          \<lparr>ck_name = ''wp-config'', ck_status = Fail,
           ck_detail = ''WirePlumber A2DP config absent at '' @ path @ ''; '' @ APPLY_HINT\<rparr>)"

definition check_wp_config :: "'w runner \<Rightarrow> 'k fs_ops \<Rightarrow> 'k \<Rightarrow> 'w \<Rightarrow> check \<times> 'w" where
  "check_wp_config r ops k w =
     (case detect_config_format_guarded r ops k w of
        (fmt, w') \<Rightarrow> (judge_wp_config fmt (read_to_string ops k (generate_path fmt)), w'))"

definition check_adapter :: "'w runner \<Rightarrow> string \<Rightarrow> 'w \<Rightarrow> check \<times> 'w" where
  "check_adapter r hci w =
     (case r w ''hciconfig'' [hci] of
        (res, w') \<Rightarrow>
          (if ran_ok res
           then \<lparr>ck_name = ''bt-adapter'', ck_status = Pass, ck_detail = hci @ '' adapter present''\<rparr>
           else \<lparr>ck_name = ''bt-adapter'', ck_status = Warn, ck_detail = ''no '' @ hci @ '' adapter''\<rparr>,
           w'))"

definition check_web_dir :: "'k fs_ops \<Rightarrow> 'k \<Rightarrow> string \<Rightarrow> check" where
  "check_web_dir ops k web_dir =
     (let index = web_dir @ ''/index.html'' in
      if is_ok (read_to_string ops k index)
      then \<lparr>ck_name = ''web-dir'', ck_status = Pass, ck_detail = ''SPA found at '' @ index\<rparr>
      else \<lparr>ck_name = ''web-dir'', ck_status = Warn,
            ck_detail = ''SPA not found at '' @ web_dir @ ''; set SOUNDSYNC_WEB_DIR''\<rparr>)"

definition run_checks ::
    "'w runner \<Rightarrow> 'k fs_ops \<Rightarrow> environment \<Rightarrow> (string \<Rightarrow> dir_listing) \<Rightarrow> string \<Rightarrow> 'k \<Rightarrow> 'w
      \<Rightarrow> doctor_report \<times> 'w" where
  "run_checks r ops env read_dir web_dir k w =
     (case check_binaries r w of (c1, w1) \<Rightarrow>
      case check_pipewire r w1 of (c2, w2) \<Rightarrow>
      case check_wp_config r ops k w2 of (c3, w3) \<Rightarrow>
      case check_adapter r (resolve_adapter env read_dir) w3 of (c4, w4) \<Rightarrow>
      ([c1, c2, c3, c4, check_web_dir ops k web_dir], w4))"

section \<open>Lemmas\<close>

lemma is_ok_simps [simp]: "is_ok (Inr x)" "\<not> is_ok (Inl e)"
  by (simp_all add: is_ok_def)

lemma contains_unlines:
  "list_all (\<lambda>k. list_ex (\<lambda>l. contains l k) ls) ks \<Longrightarrow> list_all (contains (unlines ls)) ks"
  by (auto simp: list_all_iff list_ex_iff intro: contains_concat)

lemma generated_keys:
  "list_all (\<lambda>k. list_ex (\<lambda>l. contains l k) SPA_LINES) REQUIRED_WP_KEYS"
  "list_all (\<lambda>k. list_ex (\<lambda>l. contains l k) LUA_LINES) (tl REQUIRED_WP_KEYS)"
  "\<not> contains LUA_TEXT (hd REQUIRED_WP_KEYS)"
  by code_simp+

lemma expected_keys_SpaJson: "expected_keys SpaJson = REQUIRED_WP_KEYS"
  using contains_unlines[OF generated_keys(1)]
  by (simp add: expected_keys_def generate_def SPA_JSON_def list_all_iff)

lemma expected_keys_Lua: "expected_keys Lua = tl REQUIRED_WP_KEYS"
  using contains_unlines[OF generated_keys(2)] generated_keys(3)
  by (simp add: expected_keys_def generate_def LUA_TEXT_def REQUIRED_WP_KEYS_def)

text \<open>The answers the search for the binaries gets, one per binary.\<close>

fun bin_answers :: "'w runner \<Rightarrow> string list \<Rightarrow> 'w \<Rightarrow> (string \<times> (io_error + command_output)) list" where
  "bin_answers r [] w = []"
| "bin_answers r (bin # bins) w =
     (case r w ''sh'' [''-c'', ''command -v '' @ bin] of
        (res, w1) \<Rightarrow> (bin, res) # bin_answers r bins w1)"

lemma missing_bins_answers:
  "fst (missing_bins r bins w) = map fst (filter (\<lambda>(b, res). \<not> ran_ok res) (bin_answers r bins w))"
  by (induction bins arbitrary: w) (auto simp: split_beta)

lemma bin_answers_fst: "map fst (bin_answers r bins w) = bins"
  by (induction bins arbitrary: w) (auto split: prod.splits)

lemma ck_name_checks:
  "ck_name (fst (check_binaries r w)) = ''binaries''"
  "ck_name (fst (check_pipewire r w)) = ''pipewire-running''"
  "ck_name (fst (check_wp_config r ops k w)) = ''wp-config''"
  "ck_name (fst (check_adapter r hci w)) = ''bt-adapter''"
  "ck_name (check_web_dir ops k web_dir) = ''web-dir''"
  by (auto simp: check_binaries_def check_pipewire_def check_wp_config_def judge_wp_config_def
      check_adapter_def check_web_dir_def Let_def split: prod.splits sum.splits)

lemma soft_checks:
  "ck_status (fst (check_adapter r hci w)) \<noteq> Fail" "ck_status (check_web_dir ops k web_dir) \<noteq> Fail"
  by (auto simp: check_adapter_def check_web_dir_def Let_def split: prod.splits)

lemma judge_status:
  "ck_status (judge_wp_config fmt res) =
     (case res of
        Inr t \<Rightarrow> if list_all (contains t) (expected_keys fmt) then Pass else Fail
      | Inl _ \<Rightarrow> Fail)"
  by (auto simp: judge_wp_config_def Let_def list_all_iff filter_empty_conv split: sum.splits)

lemma expected_keys_generated: "list_all (contains (wc_contents (generate fmt))) (expected_keys fmt)"
  by (auto simp: expected_keys_def list_all_iff)

text \<open>The world in which the third check runs.\<close>

definition wp_world :: "'w runner \<Rightarrow> 'w \<Rightarrow> 'w" where
  "wp_world r w = snd (check_pipewire r (snd (check_binaries r w)))"

lemma run_checks_nth:
  "fst (run_checks r ops env read_dir web_dir k w) =
     [fst (check_binaries r w), fst (check_pipewire r (snd (check_binaries r w))),
      fst (check_wp_config r ops k (wp_world r w)),
      fst (check_adapter r (resolve_adapter env read_dir) (snd (check_wp_config r ops k (wp_world r w)))),
      check_web_dir ops k web_dir]"
  by (simp add: run_checks_def wp_world_def split: prod.splits)

text \<open>The generated text without the line that disables seat monitoring.\<close>

lemma drifted_lines:
  "list_all (\<lambda>k. list_ex (\<lambda>l. contains l k)
     (filter (\<lambda>l. l \<noteq> ''        monitor.bluez.seat-monitoring = disabled'') SPA_LINES)) REQUIRED_WP_KEYS"
  by code_simp

lemma drifted_keys:
  "list_all (contains (unlines (filter (\<lambda>l. l \<noteq> ''        monitor.bluez.seat-monitoring = disabled'')
     SPA_LINES))) REQUIRED_WP_KEYS"
  by (rule contains_unlines[OF drifted_lines])

section \<open>Properties\<close>

text \<open>
  What the verdict means.  The report has the five checks in their order; it is ok exactly when
  every required binary was found, PipeWire answered, and the file of the expected format could
  be read and holds every expected key.  A missing adapter or web directory never fails it, and
  the first detail lists exactly the binaries that were not found.
\<close>

theorem doctor_verdict:
  "(let rep = fst (run_checks r ops env read_dir web_dir k w);
        bins = bin_answers r REQUIRED_BINS w;
        fmt = fst (detect_config_format_guarded r ops k (wp_world r w))
    in map ck_name rep = [''binaries'', ''pipewire-running'', ''wp-config'', ''bt-adapter'', ''web-dir'']
     \<and> report_ok rep =
         (list_all (\<lambda>(b, res). ran_ok res) bins
          \<and> ran_ok (fst (r (snd (check_binaries r w)) ''pactl'' [''info'']))
          \<and> (case read_to_string ops k (generate_path fmt) of
               Inr t \<Rightarrow> list_all (contains t) (expected_keys fmt) | Inl _ \<Rightarrow> False))
     \<and> (if list_all (\<lambda>(b, res). ran_ok res) bins then True
        else ck_detail (rep ! 0) =
          ''missing: '' @ join '', '' (map fst (filter (\<lambda>(b, res). \<not> ran_ok res) bins))))"
proof -
  let ?bins = "bin_answers r REQUIRED_BINS w"
  let ?fmt = "fst (detect_config_format_guarded r ops k (wp_world r w))"
  have none: "fst (missing_bins r REQUIRED_BINS w) = [] \<longleftrightarrow> list_all (\<lambda>(b, res). ran_ok res) ?bins"
    by (auto simp: missing_bins_answers filter_empty_conv list_all_iff)
  have 1: "ck_status (fst (check_binaries r w)) \<noteq> Fail \<longleftrightarrow> list_all (\<lambda>(b, res). ran_ok res) ?bins"
    using none by (auto simp: check_binaries_def split: prod.splits)
  have 2: "ck_status (fst (check_pipewire r w2)) \<noteq> Fail \<longleftrightarrow> ran_ok (fst (r w2 ''pactl'' [''info'']))" for w2
    by (auto simp: check_pipewire_def split: prod.splits)
  have 3: "ck_status (fst (check_wp_config r ops k (wp_world r w))) \<noteq> Fail \<longleftrightarrow>
      (case read_to_string ops k (generate_path ?fmt) of
         Inr t \<Rightarrow> list_all (contains t) (expected_keys ?fmt) | Inl _ \<Rightarrow> False)"
    by (auto simp: check_wp_config_def judge_status split: prod.splits sum.splits)
  have 4: "ck_detail (fst (check_binaries r w)) =
      ''missing: '' @ join '', '' (map fst (filter (\<lambda>(b, res). \<not> ran_ok res) ?bins))"
    if "\<not> list_all (\<lambda>(b, res). ran_ok res) ?bins"
    using that none by (auto simp: check_binaries_def missing_bins_answers[symmetric] split: prod.splits)
  show ?thesis
    unfolding Let_def run_checks_nth using 1 2 3 4
    by (simp add: ck_name_checks report_ok_def soft_checks)
qed

text \<open>
  C36 (the self-check accepts what the install command wrote).  After a successful install, on any disk
  whose files can be read, the third check passes, whether the version can be read again or not,
  as long as a version that is read calls for the same format.
\<close>

theorem doctor_accepts_installed:
  assumes "apply_wireplumber_config system_fs r k w = (Inr s, k', w')" "honest_faults k"
    "\<And>p. read_fault k p = None"
    "\<And>w2 out v. fst (r2 w2 ''wireplumber'' [''--version'']) = Inr out \<Longrightarrow>
       banner_version out = Some v \<Longrightarrow> format_of_version v = fst (detect_config_format r w)"
  shows "ck_status (fst (run_checks r2 system_fs env read_dir web_dir k' v2) ! 2) = Pass"
proof -
  obtain fmt w1 where d: "detect_config_format r w = (fmt, w1)" by fastforce
  obtain a where a: "apply_config system_fs r fmt k w1 = (Inr a, k', w')"
    using assms(1) by (auto simp: apply_wireplumber_config_def d split: prod.splits sum.splits)
  note H = sysfs.apply_config_ok[OF a assms(2)]
  have rd: "read_fault k' p = None" for p using H assms(3) by meson
  have "fst (detect_config_format_guarded r2 system_fs k' w2) = fmt" for w2
    using sysfs.guarded_finds_applied[where k = k' and fmt = fmt and r = r2 and w = w2] H rd assms(4) d
    by simp
  moreover have "read_to_string system_fs k' (generate_path fmt) = Inr (wc_contents (generate fmt))"
    using sysfs.read_present H rd by blast
  ultimately have "ck_status (fst (check_wp_config r2 system_fs k' w2)) = Pass" for w2
    by (simp add: check_wp_config_def split_beta judge_status expected_keys_generated)
  then show ?thesis by (simp add: run_checks_nth)
qed

definition demo_installed :: disk where
  "demo_installed =
     fst (snd (apply_wireplumber_config system_fs (demo_wp_runner ''wireplumber 0.5.2'') (demo_etc Lua) ()))"

lemma demo_install_succeeds:
  "\<exists>s w'. apply_wireplumber_config system_fs (demo_wp_runner ''wireplumber 0.5.2'') (demo_etc Lua) ()
     = (Inr s, demo_installed, w')"
  unfolding demo_installed_def apply_wireplumber_config_def apply_config_def
  by (simp add: system_fs_def sys_remove_file_cases sys_write_atomic_cases demo_etc_def Let_def
      split_beta)

lemma garbage_has_no_version: "parse_wp_version ''garbage'' = None" "parse_wp_version [] = None"
  by code_simp+

theorem doctor_accepts_installed_witness:
  "ck_status (fst (run_checks (demo_wp_runner ''garbage'') system_fs Map.empty (\<lambda>_. Inr []) ''/web''
     demo_installed ()) ! 2) = Pass"
proof -
  obtain s w' where s: "apply_wireplumber_config system_fs (demo_wp_runner ''wireplumber 0.5.2'')
      (demo_etc Lua) () = (Inr s, demo_installed, w')"
    using demo_install_succeeds by (elim exE)
  show ?thesis
  proof (rule doctor_accepts_installed[OF s demo_etc_honest])
    show "read_fault (demo_etc Lua) p = None" for p by (simp add: demo_etc_def)
    show "fst (demo_wp_runner ''garbage'' w2 ''wireplumber'' [''--version'']) = Inr out \<Longrightarrow>
        banner_version out = Some v \<Longrightarrow>
        format_of_version v = fst (detect_config_format (demo_wp_runner ''wireplumber 0.5.2'') ())" for w2 out v
      by (auto simp: demo_wp_runner_def banner_version_def garbage_has_no_version)
  qed
qed

text \<open>
  The drift check can be fooled: a file from which the line that disables seat monitoring has
  been deleted passes, because the comment above it quotes the setting.
\<close>

theorem doctor_misses_dropped_setting:
  "ck_status (judge_wp_config SpaJson (Inr (unlines
     (filter (\<lambda>l. l \<noteq> ''        monitor.bluez.seat-monitoring = disabled'') SPA_LINES)))) = Pass"
  by (simp add: judge_status expected_keys_SpaJson drifted_keys)

end
