(* ===== verification/Entry.thy ===== *)
theory Entry
  imports SelfCheck Bluetooth Supervisor
begin

text \<open>
  The entry point (src/src/main.rs): the subcommands with their output and exit codes, the
  adapter command of src/src/install.rs, and the select at the end of \<open>main\<close>, which races the
  daemon against the shutdown backstop and the supervisor of the critical tasks.

  Standard output and standard error are the texts written to them.  The process ends with the
  exit code, or falls through to the daemon.
\<close>

section \<open>Subcommands\<close>

definition debug_list :: "string list \<Rightarrow> string" where
  "debug_list ss = ''['' @ join '', '' (map debug_str ss) @ '']''"

definition apply_adapter_config ::
    "'w runner \<Rightarrow> string \<Rightarrow> string \<Rightarrow> 'w \<Rightarrow> (string + unit) \<times> 'w" where
  "apply_adapter_config r hci name w =
     (case set_class_of_device debug_list r hci w of
        (Inl e, w1) \<Rightarrow> (Inl e, w1)
      | (Inr _, w1) \<Rightarrow>
          (case set_hci_name debug_list r hci name w1 of
             (Inl e, w2) \<Rightarrow> (Inl e, w2)
           | (Inr _, w2) \<Rightarrow> (Inr (), w2)))"

definition HELP_TEXT :: string where
  "HELP_TEXT =
     unlines
       [''soundsync '' @ VERSION,
        '''',
        ''USAGE:'',
        ''    soundsync [SUBCOMMAND]'',
        '''',
        ''SUBCOMMANDS:'',
        ''    (default)                 Run the daemon (Bluetooth A2DP receiver + web UI)'',
        ''    doctor                    Self-check: verify binaries, PipeWire, WP config, adapter, web dir'',
        ''    apply-wireplumber-config  Write the WirePlumber A2DP config (run as root at install)'',
        ''    apply-adapter-config      Set Bluetooth adapter Class-of-Device + HCI name (run as root at boot)'',
        ''    version, --version, -V    Print version and exit'',
        ''    help, --help, -h          Print this help'',
        '''',
        ''ENVIRONMENT:'',
        ''    SOUNDSYNC_BIND      Bind address (default: 0.0.0.0:8080)'',
        ''    SOUNDSYNC_WEB_DIR   Web UI directory (default: /usr/share/soundsync/webui)'',
        ''    SOUNDSYNC_NAME      Initial device name (overridden by persisted ~/.config/soundsync/device-name)'',
        ''    SOUNDSYNC_SHUTDOWN_TIMEOUT  Hard-exit backstop in seconds (default: 8; must stay < unit TimeoutStopSec)'']"

record process_output =
  po_stdout :: string
  po_stderr :: string
  po_code :: nat

definition printed :: "string \<Rightarrow> nat \<Rightarrow> process_output" where
  "printed out code = \<lparr>po_stdout = out, po_stderr = [], po_code = code\<rparr>"

definition failed_with :: "string \<Rightarrow> process_output" where
  "failed_with msg = \<lparr>po_stdout = [], po_stderr = unlines [msg], po_code = 1\<rparr>"

text \<open>The dispatch; \<open>None\<close> is the fall-through to the daemon.\<close>

definition run_subcommand ::
    "'w runner \<Rightarrow> environment \<Rightarrow> (string \<Rightarrow> dir_listing) \<Rightarrow> cli_command \<Rightarrow> disk \<Rightarrow> 'w
      \<Rightarrow> process_output option \<times> disk \<times> 'w" where
  "run_subcommand r env read_dir c k w =
     (case c of
        Version \<Rightarrow> (Some (printed (unlines [''soundsync '' @ VERSION]) 0), k, w)
      | Help \<Rightarrow> (Some (printed HELP_TEXT 0), k, w)
      | Doctor \<Rightarrow>
          (case run_checks r system_fs env read_dir (resolve_web_dir (env ''SOUNDSYNC_WEB_DIR'')) k w of
             (report, w') \<Rightarrow>
               (Some (printed (show_report report) (if report_ok report then 0 else 1)), k, w'))
      | ApplyWpConfig \<Rightarrow>
          (case apply_wireplumber_config system_fs r k w of
             (Inr summary, k', w') \<Rightarrow> (Some (printed (unlines [summary]) 0), k', w')
           | (Inl e, k', w') \<Rightarrow>
               (Some (failed_with (''soundsync apply-wireplumber-config: '' @ e)), k', w'))
      | ApplyAdapterConfig \<Rightarrow>
          (let name = boot_name env k; hci = resolve_adapter env read_dir in
           case apply_adapter_config r hci name w of
             (Inr _, w') \<Rightarrow>
               (Some (printed (unlines [''adapter configured: '' @ hci @ '' name='' @ debug_str name]) 0),
                k, w')
           | (Inl e, w') \<Rightarrow>
               (Some (failed_with (''soundsync apply-adapter-config: '' @ e)), k, w'))
      | Run \<Rightarrow> (None, k, w))"

text \<open>The first step of the daemon: the bind address, or the end of the process.\<close>

definition start_bind ::
    "(string \<Rightarrow> string + socket_addr) \<Rightarrow> environment \<Rightarrow> process_output + socket_addr" where
  "start_bind parse_addr env =
     (case resolve_bind parse_addr (env ''SOUNDSYNC_BIND'') of
        Inr a \<Rightarrow> Inr a
      | Inl e \<Rightarrow> Inl (failed_with (''soundsync: '' @ e)))"

section \<open>The select at the end of \<open>main\<close>\<close>

datatype task_exit = Expected | Fatal string

definition classify_task_exit :: "bool \<Rightarrow> string \<Rightarrow> task_exit" where
  "classify_task_exit shutdown_requested name = (if shutdown_requested then Expected else Fatal name)"

definition CRITICAL_TASKS :: "string list" where
  "CRITICAL_TASKS =
     [''spectrum'', ''webrtc'', ''bluetooth'', ''media'', ''eq'', ''output'', ''web'']"

text \<open>
  The watch channel holds the flag; its sender lives in the signal task, which sends \<open>true\<close> and
  ends on the first signal, or ends at once when the handler cannot be installed.  The select
  polls three futures: the daemon; the backstop, which is parked until the flag is seen, then
  counts to its deadline, and is parked for ever when the sender is gone without a request; and
  the supervisor, which waits for the first critical task to end, yields, and classifies the end by
  the flag it reads then.  A branch that completes drops the other futures.
\<close>

datatype backstop_state = BkParked | BkCounting nat | BkForever

datatype supervisor_state = Watching | Yielded string

datatype exit_reason =
    DaemonReturned
  | DaemonFailed string
  | ForcedExit
  | TaskDied string

datatype main_phase = Selecting | ParkedForever | Ended exit_reason

record main_loop =
  ml_phase :: main_phase
  ml_flag :: bool
  ml_sender :: bool
  ml_requested_at :: "nat option"
  ml_backstop :: backstop_state
  ml_supervisor :: supervisor_state
  ml_clock :: nat

text \<open>\<open>ml_requested_at\<close> records when the flag was set; no code reads it.\<close>

datatype main_event =
    Terminate
  | HandlerNotInstalled
  | TimePasses nat
  | TaskEnded nat
  | SupervisorPolled
  | BackstopPolled
  | DaemonEnded "string + unit"

definition main_start :: main_loop where
  "main_start = \<lparr>ml_phase = Selecting, ml_flag = False, ml_sender = True, ml_requested_at = None,
     ml_backstop = BkParked, ml_supervisor = Watching, ml_clock = 0\<rparr>"

definition poll_backstop :: "duration \<Rightarrow> main_loop \<Rightarrow> main_loop" where
  "poll_backstop timeout s =
     (case ml_backstop s of
        BkParked \<Rightarrow>
          if ml_flag s then s\<lparr>ml_backstop := BkCounting (ml_clock s + timeout)\<rparr>
          else if \<not> ml_sender s then s\<lparr>ml_backstop := BkForever\<rparr>
          else s
      | BkCounting deadline \<Rightarrow>
          if deadline \<le> ml_clock s then s\<lparr>ml_phase := Ended ForcedExit\<rparr> else s
      | BkForever \<Rightarrow> s)"

definition poll_supervisor :: "main_loop \<Rightarrow> main_loop" where
  "poll_supervisor s =
     (case ml_supervisor s of
        Watching \<Rightarrow> s
      | Yielded name \<Rightarrow>
          (case classify_task_exit (ml_flag s) name of
             Expected \<Rightarrow> s\<lparr>ml_phase := ParkedForever\<rparr>
           | Fatal n \<Rightarrow> s\<lparr>ml_phase := Ended (TaskDied n)\<rparr>))"

fun main_step :: "duration \<Rightarrow> main_loop \<Rightarrow> main_event \<Rightarrow> main_loop" where
  "main_step timeout s Terminate =
     (if ml_sender s
      then s\<lparr>ml_flag := True, ml_sender := False, ml_requested_at := Some (ml_clock s)\<rparr> else s)"
| "main_step timeout s HandlerNotInstalled = s\<lparr>ml_sender := False\<rparr>"
| "main_step timeout s (TimePasses d) = s\<lparr>ml_clock := ml_clock s + d\<rparr>"
| "main_step timeout s (TaskEnded i) =
     (if ml_phase s = Selecting \<and> ml_supervisor s = Watching \<and> i < length CRITICAL_TASKS
      then s\<lparr>ml_supervisor := Yielded (CRITICAL_TASKS ! i)\<rparr> else s)"
| "main_step timeout s SupervisorPolled =
     (if ml_phase s = Selecting then poll_supervisor s else s)"
| "main_step timeout s BackstopPolled =
     (if ml_phase s = Selecting then poll_backstop timeout s else s)"
| "main_step timeout s (DaemonEnded res) =
     (if ml_phase s = Selecting
      then s\<lparr>ml_phase := Ended (case res of Inr _ \<Rightarrow> DaemonReturned | Inl e \<Rightarrow> DaemonFailed e)\<rparr>
      else s)"

definition exit_code :: "exit_reason \<Rightarrow> nat" where
  "exit_code x =
     (case x of DaemonReturned \<Rightarrow> 0 | DaemonFailed _ \<Rightarrow> 1 | ForcedExit \<Rightarrow> 0 | TaskDied _ \<Rightarrow> 1)"

section \<open>Lemmas\<close>

lemma main_phase_final:
  "ml_phase s \<noteq> Selecting \<Longrightarrow> ml_phase (main_step timeout s e) = ml_phase s"
  by (cases e) auto

lemma main_phase_final_run:
  "ml_phase s \<noteq> Selecting \<Longrightarrow> ml_phase (run (main_step timeout) s es) = ml_phase s"
  by (induction es arbitrary: s) (auto simp: main_phase_final)

fun event_time :: "main_event \<Rightarrow> nat" where
  "event_time (TimePasses d) = d"
| "event_time _ = 0"

definition elapsed :: "main_event list \<Rightarrow> nat" where
  "elapsed es = sum_list (map event_time es)"

lemma elapsed_simps [simp]:
  "elapsed [] = 0" "elapsed (e # es) = event_time e + elapsed es"
  "elapsed (es @ ds) = elapsed es + elapsed ds"
  by (simp_all add: elapsed_def)

lemma poll_clock [simp]:
  "ml_clock (poll_backstop timeout s) = ml_clock s" "ml_clock (poll_supervisor s) = ml_clock s"
  by (auto simp: poll_backstop_def poll_supervisor_def split: backstop_state.splits
      supervisor_state.splits task_exit.splits)

interpretation main_clock: counted_machine "main_step timeout" ml_clock event_time for timeout
  by unfold_locales (case_tac e; simp)

lemma main_clock_elapsed: "ml_clock (run (main_step timeout) main_start es) = elapsed es"
  using main_clock.run_count[of timeout main_start es] by (simp add: main_start_def elapsed_def)

text \<open>A request that some prefix of the events made, and the task that ended.\<close>

definition requested_in :: "main_event list \<Rightarrow> nat \<Rightarrow> bool" where
  "requested_in es t0 \<longleftrightarrow> (\<exists>es1 es2. es = es1 @ Terminate # es2 \<and> t0 = elapsed es1)"

definition task_ended_in :: "main_event list \<Rightarrow> string \<Rightarrow> bool" where
  "task_ended_in es n \<longleftrightarrow>
     (\<exists>i. TaskEnded i \<in> set es \<and> i < length CRITICAL_TASKS \<and> n = CRITICAL_TASKS ! i)"

lemma requested_in_snoc:
  "requested_in es t0 \<Longrightarrow> requested_in (es @ [e]) t0" "requested_in (es @ [Terminate]) (elapsed es)"
  unfolding requested_in_def by force+

lemma task_ended_in_snoc:
  "task_ended_in es n \<Longrightarrow> task_ended_in (es @ [e]) n"
  "i < length CRITICAL_TASKS \<Longrightarrow> task_ended_in (es @ [TaskEnded i]) (CRITICAL_TASKS ! i)"
  unfolding task_ended_in_def by force+

definition explained :: "duration \<Rightarrow> main_event list \<Rightarrow> exit_reason \<Rightarrow> bool" where
  "explained timeout es x =
     (case x of
        DaemonReturned \<Rightarrow> DaemonEnded (Inr ()) \<in> set es
      | DaemonFailed e \<Rightarrow> DaemonEnded (Inl e) \<in> set es
      | ForcedExit \<Rightarrow> (\<exists>es1 es2. es = es1 @ Terminate # es2 \<and> timeout \<le> elapsed es2)
      | TaskDied n \<Rightarrow> task_ended_in es n)"

lemma explained_simps [simp]:
  "explained timeout es (TaskDied n) = task_ended_in es n"
  "explained timeout es DaemonReturned = (DaemonEnded (Inr ()) \<in> set es)"
  "explained timeout es (DaemonFailed m) = (DaemonEnded (Inl m) \<in> set es)"
  by (simp_all add: explained_def)

lemma explained_snoc: "explained timeout es x \<Longrightarrow> explained timeout (es @ [e]) x"
proof (cases x)
  case ForcedExit
  assume "explained timeout es x"
  then obtain es1 es2 where "es = es1 @ Terminate # es2" "timeout \<le> elapsed es2"
    using ForcedExit by (auto simp: explained_def)
  then have "es @ [e] = es1 @ Terminate # (es2 @ [e])" "timeout \<le> elapsed (es2 @ [e])" by simp_all
  then show ?thesis unfolding explained_def ForcedExit exit_reason.case by blast
qed (auto simp: explained_def intro: task_ended_in_snoc)

definition main_inv :: "duration \<Rightarrow> main_event list \<Rightarrow> main_loop \<Rightarrow> bool" where
  "main_inv timeout es s \<longleftrightarrow>
     ml_clock s = elapsed es
     \<and> (ml_flag s \<longrightarrow> ml_requested_at s \<noteq> None)
     \<and> (\<forall>t0. ml_requested_at s = Some t0 \<longrightarrow> \<not> ml_sender s \<and> requested_in es t0)
     \<and> (\<forall>d. ml_backstop s = BkCounting d \<longrightarrow> (\<exists>t0. ml_requested_at s = Some t0 \<and> t0 + timeout \<le> d))
     \<and> (\<forall>n. ml_supervisor s = Yielded n \<longrightarrow> task_ended_in es n)
     \<and> (ml_phase s = ParkedForever \<longrightarrow> Terminate \<in> set es \<and> (\<exists>n. task_ended_in es n))
     \<and> (\<forall>x. ml_phase s = Ended x \<longrightarrow> explained timeout es x)"

lemma requested_in_Terminate: "requested_in es t0 \<Longrightarrow> Terminate \<in> set es"
  by (auto simp: requested_in_def)

lemma requested_in_le: "requested_in es t0 \<Longrightarrow> t0 \<le> elapsed es"
  by (auto simp: requested_in_def)

lemma forced_explained:
  assumes "requested_in es t0" "t0 + timeout \<le> elapsed es"
  shows "explained timeout es ForcedExit"
proof -
  obtain es1 es2 where e: "es = es1 @ Terminate # es2" "t0 = elapsed es1"
    using assms(1) by (auto simp: requested_in_def)
  then have "timeout \<le> elapsed es2" using assms(2) by simp
  then show ?thesis using e unfolding explained_def exit_reason.case by blast
qed

lemma main_inv_step:
  assumes "main_inv timeout es s"
  shows "main_inv timeout (es @ [e]) (main_step timeout s e)"
proof -
  have mono: "requested_in (es @ [e]) t0" if "requested_in es t0" for t0
    using that by (rule requested_in_snoc)
  have mono': "task_ended_in (es @ [e]) n" "\<exists>n. task_ended_in (es @ [e]) n"
    if "task_ended_in es n" for n using task_ended_in_snoc(1)[OF that] by blast+
  have mono'': "explained timeout (es @ [e]) x" if "explained timeout es x" for x
    using that by (rule explained_snoc)
  note H = assms[unfolded main_inv_def] and M = mono mono' mono''
  show ?thesis
  proof (cases e)
    case Terminate
    then show ?thesis using H M requested_in_snoc(2)[of es]
      by (auto simp: main_inv_def)
  next
    case (TaskEnded i)
    then show ?thesis using H M task_ended_in_snoc(2)[of i es] by (auto simp: main_inv_def)
  next
    case SupervisorPolled
    then show ?thesis using H M
      by (auto simp: main_inv_def poll_supervisor_def classify_task_exit_def
          dest: requested_in_Terminate split: supervisor_state.splits if_splits)
  next
    case BackstopPolled
    have F: "explained timeout (es @ [e]) ForcedExit"
      if b: "ml_backstop s = BkCounting d" and c: "d \<le> ml_clock s" for d
    proof -
      obtain t0 where t0: "ml_requested_at s = Some t0" "t0 + timeout \<le> d"
        using H b by blast
      then have "requested_in es t0" "t0 + timeout \<le> elapsed es" using H c by auto
      then show ?thesis by (intro mono'' forced_explained)
    qed
    then show ?thesis using H M BackstopPolled
      by (auto simp: main_inv_def poll_backstop_def dest: requested_in_le
          split: backstop_state.splits if_splits)
  next
    case (DaemonEnded res)
    then show ?thesis using H M
      by (auto simp: main_inv_def split: sum.splits)
  qed (use H M in \<open>auto simp: main_inv_def\<close>)
qed

lemma main_inv_run: "main_inv timeout es (run (main_step timeout) main_start es)"
proof (induction es rule: rev_induct)
  case Nil
  show ?case by (simp add: main_inv_def main_start_def)
next
  case (snoc e es)
  from main_inv_step[OF this, of e] show ?case by simp
qed

section \<open>Properties\<close>


text \<open>
  A critical task that ends while no shutdown is requested restarts the process: exit code 1 at once,
  with the name of the task, whatever else is under way.  The flag that counts is the one read after
  the yield, so a signal that arrives in between makes the end an expected one.
\<close>

theorem dead_task_is_fatal:
  assumes "ml_phase s = Selecting" "ml_supervisor s = Watching" "i < length CRITICAL_TASKS"
  shows "ml_phase (run (main_step timeout) s (TaskEnded i # late @ [SupervisorPolled])) =
    (if ml_phase (run (main_step timeout) (main_step timeout s (TaskEnded i)) late) \<noteq> Selecting
     then ml_phase (run (main_step timeout) (main_step timeout s (TaskEnded i)) late)
     else if ml_flag (run (main_step timeout) (main_step timeout s (TaskEnded i)) late) then ParkedForever
     else Ended (TaskDied (CRITICAL_TASKS ! i)))"
proof -
  have keep: "ml_supervisor (run (main_step timeout) s' late) = Yielded n
      \<or> ml_phase (run (main_step timeout) s' late) \<noteq> Selecting"
    if "ml_supervisor s' = Yielded n" for s' n
    using that
  proof (induction late arbitrary: s')
    case (Cons e es)
    have "ml_supervisor (main_step timeout s' e) = Yielded n"
      using Cons.prems by (cases e) (auto simp: poll_backstop_def poll_supervisor_def
          classify_task_exit_def split: backstop_state.splits)
    then show ?case using Cons.IH by simp
  qed simp
  let ?s = "run (main_step timeout) (main_step timeout s (TaskEnded i)) late"
  show ?thesis
    using keep[of "main_step timeout s (TaskEnded i)" "CRITICAL_TASKS ! i"] assms
    by (auto simp: poll_supervisor_def classify_task_exit_def)
qed

text \<open>
  How a requested shutdown ends.  As long as no critical task has been seen to end, a wedged daemon is
  cut off: the backstop ends the process once its time has passed.  But when the end of a critical
  task is seen first, which every shutdown causes, the select has dropped the daemon and the
  backstop: the process is parked, and nothing that happens later ends it.
\<close>

theorem shutdown_ends_or_parks:
  assumes "ml_phase s = Selecting" "ml_flag s" "ml_supervisor s = Watching" "ml_backstop s = BkParked"
    "timeout \<le> d" "i < length CRITICAL_TASKS"
  shows "ml_phase (run (main_step timeout) s [BackstopPolled, TimePasses d, BackstopPolled])
      = Ended ForcedExit
    \<and> ml_phase (run (main_step timeout) s (TaskEnded i # SupervisorPolled # es)) = ParkedForever"
proof -
  have "ml_phase (run (main_step timeout) s [TaskEnded i, SupervisorPolled]) = ParkedForever"
    using assms by (simp add: poll_supervisor_def classify_task_exit_def)
  then have "ml_phase (run (main_step timeout) (run (main_step timeout) s [TaskEnded i, SupervisorPolled]) es)
      = ParkedForever"
    using main_phase_final_run[of "run (main_step timeout) s [TaskEnded i, SupervisorPolled]"] by simp
  then show ?thesis using assms by (simp add: poll_backstop_def)
qed

definition demo_shutdown :: main_loop where
  "demo_shutdown = main_step (secs 8) main_start Terminate"

theorem shutdown_ends_or_parks_witness:
  "ml_phase (run (main_step (secs 8)) demo_shutdown [BackstopPolled, TimePasses (secs 9), BackstopPolled])
      = Ended ForcedExit
    \<and> ml_phase (run (main_step (secs 8)) demo_shutdown
        (TaskEnded 0 # SupervisorPolled # [DaemonEnded (Inr ()), BackstopPolled])) = ParkedForever"
  by (rule shutdown_ends_or_parks)
    (simp_all add: demo_shutdown_def main_start_def secs_def CRITICAL_TASKS_def)

theorem dead_task_is_fatal_witness:
  "ml_phase (run (main_step (secs 8)) main_start (TaskEnded 1 # [TimePasses 5] @ [SupervisorPolled])) =
    (if ml_phase (run (main_step (secs 8)) (main_step (secs 8) main_start (TaskEnded 1)) [TimePasses 5]) \<noteq> Selecting
     then ml_phase (run (main_step (secs 8)) (main_step (secs 8) main_start (TaskEnded 1)) [TimePasses 5])
     else if ml_flag (run (main_step (secs 8)) (main_step (secs 8) main_start (TaskEnded 1)) [TimePasses 5])
       then ParkedForever
     else Ended (TaskDied (CRITICAL_TASKS ! 1)))"
  by (rule dead_task_is_fatal) (simp_all add: main_start_def CRITICAL_TASKS_def)

text \<open>
  When the signal handler cannot be installed, the backstop never fires; but the tasks take the
  dropped sender for a shutdown, and the first of them that ends is then fatal, because no
  shutdown was requested.
\<close>

theorem missing_handler_restarts:
  assumes "i < length CRITICAL_TASKS"
  shows "wait_for_shutdown [Value False, SenderDropped]
   \<and> ml_phase (run (main_step timeout) main_start [HandlerNotInstalled, BackstopPolled, TimePasses d, BackstopPolled])
      = Selecting
   \<and> ml_phase (run (main_step timeout) main_start [HandlerNotInstalled, TaskEnded i, SupervisorPolled])
      = Ended (TaskDied (CRITICAL_TASKS ! i))"
  using assms by (simp add: main_start_def poll_backstop_def poll_supervisor_def classify_task_exit_def)

text \<open>
  The exit code of \<open>soundsync doctor\<close> is the verdict, and neither it nor the help, the version
  or the adapter command touches the disk; a failed install command ends with code 1.
\<close>

theorem subcommands_report:
  "(case run_subcommand r env read_dir c k w of (res, k', w') \<Rightarrow>
      (res = None) = (c = Run)
      \<and> (if c = ApplyWpConfig then True else k' = k)
      \<and> (case res of None \<Rightarrow> True | Some out \<Rightarrow>
           (case c of
              Doctor \<Rightarrow> (po_code out = 0) = report_ok (fst (run_checks r system_fs env read_dir
                 (resolve_web_dir (env ''SOUNDSYNC_WEB_DIR'')) k w))
            | ApplyWpConfig \<Rightarrow> (po_code out = 0) = is_ok (fst (apply_wireplumber_config system_fs r k w))
            | ApplyAdapterConfig \<Rightarrow> (po_code out = 0) =
                is_ok (fst (apply_adapter_config r (resolve_adapter env read_dir) (boot_name env k) w))
            | _ \<Rightarrow> po_code out = 0)))"
  by (cases c) (auto simp: run_subcommand_def printed_def failed_with_def is_ok_def Let_def
      split: prod.splits sum.splits)

end
