(* ===== verification/DaemonRun.thy ===== *)
theory DaemonRun
  imports Daemon Entry
begin

text \<open>
  The daemon as a whole (\<open>run_daemon\<close> of src/src/daemon.rs): after the set-up it supervises the capture
  unit and the event source, and runs the reconcile loop and the command handler until both have
  returned; then it aborts the supervised tasks.  The last theorem puts it under the select of
  \<open>main\<close>.

  The two loops run on one task and share the world and the route.  As in the reconcile loop, a
  bring-up that a client asked for is an await point, \<open>dm_reassert\<close>, with the route it read; no other
  command is received meanwhile.
\<close>

record 'w dm =
  dm_rc :: "'w rc"
  dm_reassert :: "desired_route option"
  dm_commands_done :: bool
  dm_capture :: supervised
  dm_events :: supervised
  dm_result :: "(string + unit) option"

datatype dm_event =
    DmGraph graph_event
  | DmWindowElapsed
  | DmSourceGone
  | DmBroughtUp
  | DmRoute desired_route
  | DmCommand daemon_command
  | DmReasserted
  | DmCommandsClosed
  | DmCapture sv_event
  | DmEventSource sv_event
  | DmShutdown

definition abort_unit :: "supervised \<Rightarrow> supervised" where
  "abort_unit u = u\<lparr>sv_phase := Stopped\<rparr>"

text \<open>What follows the join of the two loops.\<close>

definition settle :: "'w dm \<Rightarrow> 'w dm" where
  "settle s =
     (if rc_phase (dm_rc s) = Returned \<and> dm_commands_done s
      then s\<lparr>dm_capture := abort_unit (dm_capture s), dm_events := abort_unit (dm_events s),
             dm_result := Some (Inr ())\<rparr>
      else s)"

definition run_command :: "('w, 'c) spawner \<Rightarrow> daemon_command \<Rightarrow> 'w dm \<Rightarrow> 'w dm" where
  "run_command sp c s =
     (case c of
        ReassertRouting \<Rightarrow> s\<lparr>dm_reassert := Some (rc_route (dm_rc s))\<rparr>
      | Identify \<Rightarrow> s\<lparr>dm_rc := (dm_rc s)\<lparr>rc_world := identify sp (rc_world (dm_rc s))\<rparr>\<rparr>)"

text \<open>The bring-up of a command is over; its error is only logged.\<close>

definition reasserted :: "'w runner \<Rightarrow> 'w timer \<Rightarrow> 'w dm \<Rightarrow> 'w dm" where
  "reasserted r t s =
     (case dm_reassert s of
        None \<Rightarrow> s
      | Some route \<Rightarrow> s\<lparr>dm_reassert := None, dm_rc := assert_route r t route (dm_rc s)\<rparr>)"

definition commands_wait :: "'w dm \<Rightarrow> bool" where
  "commands_wait s \<longleftrightarrow> dm_result s = None \<and> \<not> dm_commands_done s \<and> dm_reassert s = None"

definition loops_step ::
    "'w runner \<Rightarrow> 'w timer \<Rightarrow> ('w, 'c) spawner \<Rightarrow> 'w dm \<Rightarrow> dm_event \<Rightarrow> 'w dm" where
  "loops_step r t sp s e =
     (case e of
        DmGraph g \<Rightarrow> s\<lparr>dm_rc := rc_step r t (dm_rc s) (GraphEv g)\<rparr>
      | DmWindowElapsed \<Rightarrow> s\<lparr>dm_rc := rc_step r t (dm_rc s) WindowElapsed\<rparr>
      | DmSourceGone \<Rightarrow> s\<lparr>dm_rc := rc_step r t (dm_rc s) SourceGone\<rparr>
      | DmRoute route \<Rightarrow> s\<lparr>dm_rc := rc_step r t (dm_rc s) (RouteSent route)\<rparr>
      | DmBroughtUp \<Rightarrow> s\<lparr>dm_rc := rc_step r t (dm_rc s) BroughtUp\<rparr>
      | DmCommand c \<Rightarrow> if commands_wait s then run_command sp c s else s
      | DmReasserted \<Rightarrow> reasserted r t s
      | DmCommandsClosed \<Rightarrow> if commands_wait s then s\<lparr>dm_commands_done := True\<rparr> else s
      | DmCapture x \<Rightarrow> s\<lparr>dm_capture := supervise_step default_policy (dm_capture s) x\<rparr>
      | DmEventSource x \<Rightarrow> s\<lparr>dm_events := supervise_step default_policy (dm_events s) x\<rparr>
      | DmShutdown \<Rightarrow>
          s\<lparr>dm_rc := rc_step r t (dm_rc s) RcShutdown, dm_reassert := None, dm_commands_done := True,
            dm_capture := supervise_step default_policy (dm_capture s) ShutdownSeen,
            dm_events := supervise_step default_policy (dm_events s) ShutdownSeen\<rparr>)"

definition dm_step ::
    "'w runner \<Rightarrow> 'w timer \<Rightarrow> ('w, 'c) spawner \<Rightarrow> 'w dm \<Rightarrow> dm_event \<Rightarrow> 'w dm" where
  "dm_step r t sp s e = (if dm_result s \<noteq> None then s else settle (loops_step r t sp s e))"

text \<open>The start of the daemon: its set-up, and the units and loops if it got that far.\<close>

definition set_up :: "string + command_line option \<Rightarrow> bool" where
  "set_up res = (case res of Inr (Some cmd) \<Rightarrow> True | _ \<Rightarrow> False)"

definition dm_start :: "'w runner \<Rightarrow> 'w timer \<Rightarrow> desired_route \<Rightarrow> bool \<Rightarrow> 'w \<Rightarrow> 'w dm" where
  "dm_start r t route interrupted w =
     (case daemon_setup r t route interrupted w of
        (res, w') \<Rightarrow>
          \<lparr>dm_rc = rc_start route w', dm_reassert = None, dm_commands_done = False,
           dm_capture = supervise_start default_policy (\<not> set_up res),
           dm_events = supervise_start default_policy (\<not> set_up res),
           dm_result = (case res of
                          Inl e \<Rightarrow> Some (Inl e)
                        | Inr None \<Rightarrow> Some (Inr ())
                        | Inr (Some cmd) \<Rightarrow> None)\<rparr>)"

section \<open>Lemmas\<close>

definition started :: "'w dm \<Rightarrow> bool" where
  "started s \<longleftrightarrow> (dm_result s = None \<longrightarrow> \<not> (rc_phase (dm_rc s) = Returned \<and> dm_commands_done s))"

lemma started_settle: "dm_result s = None \<Longrightarrow> started (settle s)"
  by (simp add: started_def settle_def)

lemma loops_step_result [simp]: "dm_result (loops_step r t sp s e) = dm_result s"
  by (simp add: loops_step_def run_command_def reasserted_def split: dm_event.split daemon_command.split option.split)

interpretation daemon: halting_machine "dm_step r t sp" started "\<lambda>s. dm_result s \<noteq> None" for r t sp
  by unfold_locales (auto simp: dm_step_def started_settle)

lemma dm_start_started: "started (dm_start r t route interrupted w)"
  by (simp add: started_def dm_start_def rc_start_def split: prod.split)

text \<open>A step that ends the loops stops both units and reports success.\<close>

lemma dm_step_result:
  "dm_result s = None \<Longrightarrow> dm_result (dm_step r t sp s e) =
     (if rc_phase (dm_rc (loops_step r t sp s e)) = Returned \<and> dm_commands_done (loops_step r t sp s e)
      then Some (Inr ()) else None)"
  by (simp add: dm_step_def settle_def)

lemma dm_shutdown_returns:
  "dm_result s = None \<Longrightarrow>
     (let s' = dm_step r t sp s DmShutdown in dm_result s' = Some (Inr ())
        \<and> sv_phase (dm_capture s') = Stopped \<and> sv_phase (dm_events s') = Stopped
        \<and> rc_world (dm_rc s') = rc_world (dm_rc s))"
  by (simp add: dm_step_def settle_def loops_step_def abort_unit_def Let_def)

text \<open>While neither shutdown nor the end of the commands is seen, the daemon goes on.\<close>

definition keeps_going :: "dm_event \<Rightarrow> bool" where
  "keeps_going e \<longleftrightarrow> e \<noteq> DmShutdown \<and> e \<noteq> DmCommandsClosed"

lemma commands_open_step:
  "keeps_going e \<Longrightarrow> \<not> dm_commands_done s \<Longrightarrow> dm_result s = None \<Longrightarrow>
     \<not> dm_commands_done (dm_step r t sp s e) \<and> dm_result (dm_step r t sp s e) = None"
  by (cases e) (auto simp: dm_step_def settle_def loops_step_def run_command_def reasserted_def keeps_going_def
      split: daemon_command.split option.split)

lemma commands_open_run:
  "list_all keeps_going es \<Longrightarrow> \<not> dm_commands_done s \<Longrightarrow> dm_result s = None \<Longrightarrow>
     \<not> dm_commands_done (run (dm_step r t sp) s es) \<and> dm_result (run (dm_step r t sp) s es) = None"
  by (induction es arbitrary: s) (auto simp: commands_open_step)

lemma rc_returned_step:
  "rc_phase s = Returned \<Longrightarrow> rc_phase (rc_step r t s e) = Returned \<and> rc_routes (rc_step r t s e) = rc_routes s"
  by (cases e) auto

lemma loops_returned:
  "rc_phase (dm_rc s) = Returned \<Longrightarrow> e \<noteq> DmReasserted \<Longrightarrow>
     rc_phase (dm_rc (dm_step r t sp s e)) = Returned
     \<and> rc_routes (dm_rc (dm_step r t sp s e)) = rc_routes (dm_rc s)"
  using rc_returned_step[of "dm_rc s" r t]
  by (cases e) (auto simp: dm_step_def settle_def loops_step_def run_command_def split: daemon_command.split)

lemma loops_returned_run:
  "rc_phase (dm_rc s) = Returned \<Longrightarrow> DmReasserted \<notin> set es \<Longrightarrow>
     rc_routes (dm_rc (run (dm_step r t sp) s es)) = rc_routes (dm_rc s)"
  by (induction es arbitrary: s) (auto simp: loops_returned)

text \<open>The select of \<open>main\<close> takes over the result of the daemon.\<close>

definition daemon_reported :: "'w dm \<Rightarrow> main_event list" where
  "daemon_reported s = (case dm_result s of Some res \<Rightarrow> [DaemonEnded res] | None \<Rightarrow> [])"

section \<open>Properties\<close>


text \<open>
  The loss of the event source is not noticed.  The reconcile loop returns when the source is gone, but
  the daemon waits for both loops: it goes on, and brings the graph up again only when a client asks.
\<close>

theorem lost_event_source_goes_unnoticed:
  assumes "dm_result s = None" "rc_phase (dm_rc s) = Waiting" "\<not> dm_commands_done s"
    "list_all keeps_going es" "DmReasserted \<notin> set es"
  shows "dm_result (run (dm_step r t sp) s (DmSourceGone # es)) = None
    \<and> rc_routes (dm_rc (run (dm_step r t sp) s (DmSourceGone # es))) = rc_routes (dm_rc s)"
proof -
  let ?s = "dm_step r t sp s DmSourceGone"
  have "dm_result ?s = None" "\<not> dm_commands_done ?s" "rc_phase (dm_rc ?s) = Returned"
    "rc_routes (dm_rc ?s) = rc_routes (dm_rc s)"
    using assms by (simp_all add: dm_step_def settle_def loops_step_def)
  then show ?thesis
    using commands_open_run[OF assms(4), of ?s r t sp] loops_returned_run[of ?s es r t sp] assms(5)
    by simp
qed

end
