(* ===== verification/Float32.thy ===== *)
theory Float32
  imports Values "HOL-Library.Log_Nat"
begin

text \<open>
  The arithmetic of \<open>f32\<close>: rounding of a rational to the nearest single-precision number, ties to
  even, with overflow to an infinity, and the operations as exact results rounded once.  The two
  zeros are identified, as in Values; the functions of the mathematical library are arguments of
  the definitions that use them.

  \<open>exact_rounding\<close> is what the clients need of rounding: it is monotone and leaves the two bounds
  of the unit interval alone.
\<close>

section \<open>Rounding\<close>

text \<open>
  The quantum of a number is \<open>2 ^ n\<close> times the least subnormal, \<open>2 ^ -149\<close>: the least \<open>n\<close> with
  which the number has at most 24 binary digits.
\<close>

definition f32_quantum :: "rat \<Rightarrow> nat" where
  "f32_quantum x = floorlog 2 (nat \<lfloor>x * 2 ^ 149\<rfloor>) - 24"

definition f32_step :: "nat \<Rightarrow> rat" where
  "f32_step n = 2 ^ n / 2 ^ 149"

definition round_abs :: "rat \<Rightarrow> rat" where
  "round_abs x = of_int (round_half_even (x / f32_step (f32_quantum x))) * f32_step (f32_quantum x)"

definition round_f32 :: "rat \<Rightarrow> flt" where
  "round_f32 x =
     (let r = round_abs \<bar>x\<bar>
      in if 2 ^ 128 \<le> r then (if x < 0 then NegInf else PosInf)
         else Fin (if x < 0 then - r else r))"

section \<open>Operations\<close>

fun f32_neg :: "flt \<Rightarrow> flt" where
  "f32_neg NaN = NaN"
| "f32_neg NegInf = PosInf"
| "f32_neg PosInf = NegInf"
| "f32_neg (Fin x) = Fin (- x)"

fun f32_add :: "flt \<Rightarrow> flt \<Rightarrow> flt" where
  "f32_add NaN _ = NaN"
| "f32_add _ NaN = NaN"
| "f32_add (Fin x) (Fin y) = round_f32 (x + y)"
| "f32_add (Fin x) y = y"
| "f32_add x (Fin y) = x"
| "f32_add PosInf PosInf = PosInf"
| "f32_add NegInf NegInf = NegInf"
| "f32_add _ _ = NaN"

definition f32_sub :: "flt \<Rightarrow> flt \<Rightarrow> flt" where
  "f32_sub x y = f32_add x (f32_neg y)"

text \<open>The sign of a non-zero number, and the infinity of a sign.\<close>

fun f32_sgn :: "flt \<Rightarrow> rat" where
  "f32_sgn NaN = 0"
| "f32_sgn NegInf = -1"
| "f32_sgn PosInf = 1"
| "f32_sgn (Fin x) = sgn x"

definition signed_inf :: "rat \<Rightarrow> flt" where
  "signed_inf s = (if s = 0 then NaN else if s < 0 then NegInf else PosInf)"

fun f32_mul :: "flt \<Rightarrow> flt \<Rightarrow> flt" where
  "f32_mul NaN _ = NaN"
| "f32_mul _ NaN = NaN"
| "f32_mul (Fin x) (Fin y) = round_f32 (x * y)"
| "f32_mul x y = signed_inf (f32_sgn x * f32_sgn y)"

text \<open>Division; a zero divisor counts as positive.\<close>

fun f32_div :: "flt \<Rightarrow> flt \<Rightarrow> flt" where
  "f32_div NaN _ = NaN"
| "f32_div _ NaN = NaN"
| "f32_div (Fin x) (Fin y) = (if y = 0 then signed_inf (sgn x) else round_f32 (x / y))"
| "f32_div (Fin x) _ = Fin 0"
| "f32_div x (Fin y) = signed_inf (f32_sgn x * (if y < 0 then -1 else 1))"
| "f32_div _ _ = NaN"

definition f32_of_nat :: "nat \<Rightarrow> flt" where
  "f32_of_nat n = round_f32 (of_nat n)"

definition f32_sum :: "flt list \<Rightarrow> flt" where
  "f32_sum xs = foldl f32_add (Fin 0) xs"

fun f32_floor :: "flt \<Rightarrow> flt" where
  "f32_floor (Fin x) = Fin (of_int \<lfloor>x\<rfloor>)"
| "f32_floor x = x"

fun f32_ceil :: "flt \<Rightarrow> flt" where
  "f32_ceil (Fin x) = Fin (of_int \<lceil>x\<rceil>)"
| "f32_ceil x = x"

text \<open>The cast to \<open>usize\<close> saturates, and takes NaN to zero.\<close>

fun f32_to_usize :: "flt \<Rightarrow> nat" where
  "f32_to_usize NaN = 0"
| "f32_to_usize NegInf = 0"
| "f32_to_usize PosInf = 2 ^ 64 - 1"
| "f32_to_usize (Fin x) = min (nat \<lfloor>x\<rfloor>) (2 ^ 64 - 1)"

section \<open>Lemmas on rounding\<close>

lemma round_half_even_of_int [simp]: "round_half_even (of_int i) = i"
  by (simp add: round_half_even_def Let_def)

lemma round_half_even_mono:
  assumes "x \<le> y"
  shows "round_half_even x \<le> round_half_even y"
proof (cases "\<lfloor>x\<rfloor> = \<lfloor>y\<rfloor>")
  case True
  then show ?thesis using assms by (auto simp: round_half_even_def Let_def)
next
  case False
  then have "\<lfloor>x\<rfloor> + 1 \<le> \<lfloor>y\<rfloor>" using floor_mono[OF assms] by linarith
  moreover have "round_half_even x \<le> \<lfloor>x\<rfloor> + 1" "\<lfloor>y\<rfloor> \<le> round_half_even y"
    by (auto simp: round_half_even_def Let_def)
  ultimately show ?thesis by linarith
qed

lemma f32_step_pos [simp]: "0 < f32_step n" "f32_step n \<noteq> 0"
  by (simp_all add: f32_step_def)

lemma quantum_le_iff: "0 \<le> x \<Longrightarrow> f32_quantum x \<le> n \<longleftrightarrow> x < 2 ^ 24 * f32_step n"
proof -
  assume x: "0 \<le> x"
  let ?m = "nat \<lfloor>x * 2 ^ 149\<rfloor>"
  have "f32_quantum x \<le> n \<longleftrightarrow> floorlog 2 ?m \<le> n + 24" by (auto simp: f32_quantum_def)
  also have "\<dots> \<longleftrightarrow> ?m < 2 ^ (n + 24)" by (simp add: floorlog_le_iff)
  also have "\<dots> \<longleftrightarrow> \<lfloor>x * 2 ^ 149\<rfloor> < 2 ^ (n + 24)" by (simp add: nat_less_iff x)
  also have "\<dots> \<longleftrightarrow> x * 2 ^ 149 < of_int (2 ^ (n + 24))" by (rule floor_less_iff)
  also have "\<dots> \<longleftrightarrow> x < 2 ^ 24 * f32_step n" by (simp add: f32_step_def field_simps power_add)
  finally show ?thesis .
qed

lemma quantum_mono: "0 \<le> x \<Longrightarrow> x \<le> y \<Longrightarrow> f32_quantum x \<le> f32_quantum y"
  unfolding f32_quantum_def
  by (intro diff_le_mono floorlog_mono nat_mono floor_mono) simp

text \<open>A number above its quantum's range has all 24 digits.\<close>

lemma quantum_lower: "0 \<le> x \<Longrightarrow> n < f32_quantum x \<Longrightarrow> 2 ^ 24 * f32_step n \<le> x"
  using quantum_le_iff[of x n] by linarith

lemma round_abs_le:
  assumes "0 \<le> x" "x \<le> of_int k * f32_step (f32_quantum x)"
  shows "round_abs x \<le> of_int k * f32_step (f32_quantum x)"
proof -
  have "x / f32_step (f32_quantum x) \<le> of_int k" using assms by (simp add: divide_le_eq)
  from round_half_even_mono[OF this] have "round_half_even (x / f32_step (f32_quantum x)) \<le> k" by simp
  then have "(of_int (round_half_even (x / f32_step (f32_quantum x))) :: rat) \<le> of_int k"
    by (simp only: of_int_le_iff)
  then show ?thesis unfolding round_abs_def
    by (rule mult_right_mono) (simp add: less_imp_le)
qed

lemma round_abs_ge:
  assumes "0 \<le> x" "of_int k * f32_step (f32_quantum x) \<le> x"
  shows "of_int k * f32_step (f32_quantum x) \<le> round_abs x"
proof -
  have "of_int k \<le> x / f32_step (f32_quantum x)" using assms by (simp add: le_divide_eq)
  from round_half_even_mono[OF this] have "k \<le> round_half_even (x / f32_step (f32_quantum x))" by simp
  then have "(of_int k :: rat) \<le> of_int (round_half_even (x / f32_step (f32_quantum x)))"
    by (simp only: of_int_le_iff)
  then show ?thesis unfolding round_abs_def
    by (rule mult_right_mono) (simp add: less_imp_le)
qed

lemma f32_step_Suc: "f32_step (Suc n) = 2 * f32_step n"
  by (simp add: f32_step_def)

lemma f32_step_mono: "m \<le> n \<Longrightarrow> f32_step m \<le> f32_step n"
  by (simp add: f32_step_def divide_right_mono)

lemma round_abs_mono:
  assumes "0 \<le> x" "x \<le> y"
  shows "round_abs x \<le> round_abs y"
proof (cases "f32_quantum x = f32_quantum y")
  case True
  have "x / f32_step (f32_quantum y) \<le> y / f32_step (f32_quantum y)"
    using assms by (intro divide_right_mono) (simp_all add: less_imp_le)
  from round_half_even_mono[OF this] show ?thesis
    unfolding round_abs_def True by (intro mult_right_mono) (simp_all add: less_imp_le)
next
  case False
  then have less: "f32_quantum x < f32_quantum y" using quantum_mono[OF assms] by simp
  then obtain m where m: "f32_quantum y = Suc m" "f32_quantum x \<le> m" by (cases "f32_quantum y") auto
  have "x \<le> of_int (2 ^ 24) * f32_step (f32_quantum x)"
    using quantum_le_iff[OF assms(1), of "f32_quantum x"] by simp
  then have "round_abs x \<le> of_int (2 ^ 24) * f32_step (f32_quantum x)" by (rule round_abs_le[OF assms(1)])
  also have "\<dots> \<le> of_int (2 ^ 24) * f32_step m"
    using f32_step_mono[OF m(2)] by (intro mult_left_mono) simp_all
  also have "\<dots> = of_int (2 ^ 23) * f32_step (f32_quantum y)" by (simp add: m(1) f32_step_Suc)
  also have "\<dots> \<le> round_abs y"
  proof (rule round_abs_ge)
    show "0 \<le> y" using assms by simp
    show "of_int (2 ^ 23) * f32_step (f32_quantum y) \<le> y"
      using quantum_lower[of y m] assms m(1) by (simp add: f32_step_Suc)
  qed
  finally show ?thesis .
qed

lemma round_abs_exact:
  assumes "0 \<le> k" "k < 2 ^ 24"
  shows "round_abs (of_int k * f32_step n) = of_int k * f32_step n"
proof -
  define x where "x = (of_int k * f32_step n :: rat)"
  define q where "q = f32_quantum x"
  have "(of_int k :: rat) < of_int (2 ^ 24)" using assms(2) by (simp only: of_int_less_iff)
  then have "x < 2 ^ 24 * f32_step n" unfolding x_def by (intro mult_strict_right_mono) simp_all
  moreover have "0 \<le> x" using assms(1) by (simp add: x_def less_imp_le)
  ultimately have "q \<le> n" unfolding q_def using quantum_le_iff by blast
  then obtain d where d: "n = q + d" using le_Suc_ex by blast
  have "f32_step n = 2 ^ d * f32_step q" by (simp add: d f32_step_def power_add)
  then have "x = of_int (k * 2 ^ d) * f32_step q" by (simp add: x_def)
  then have "x / f32_step q = of_int (k * 2 ^ d)" by simp
  then have "round_abs x = x / f32_step q * f32_step q"
    unfolding round_abs_def q_def[symmetric] by (simp only: round_half_even_of_int)
  then show ?thesis by (simp add: x_def)
qed

lemma round_abs_0 [simp]: "round_abs 0 = 0"
  using round_abs_exact[of 0 0] by simp

lemma round_abs_1 [simp]: "round_abs 1 = 1"
proof -
  have "(1 :: rat) = of_int (2 ^ 23) * f32_step 126" by (simp add: f32_step_def)
  then show ?thesis using round_abs_exact[of "2 ^ 23" 126] by simp
qed

lemma round_abs_nonneg: "0 \<le> x \<Longrightarrow> 0 \<le> round_abs x"
  using round_abs_mono[of 0 x] by simp

lemma round_f32_not_NaN [simp]: "round_f32 x \<noteq> NaN"
  by (simp add: round_f32_def Let_def)

lemma round_f32_neg: "round_f32 (- x) = f32_neg (round_f32 x)"
  by (cases "x = 0") (auto simp: round_f32_def Let_def)

lemma round_f32_nonneg: "0 \<le> x \<Longrightarrow> round_f32 x = (if 2 ^ 128 \<le> round_abs x then PosInf else Fin (round_abs x))"
  by (simp add: round_f32_def Let_def)

text \<open>The digits of a number of known size.\<close>

lemma quantum_eqI:
  assumes "2 ^ 23 * f32_step (Suc n) \<le> x" "x < 2 ^ 24 * f32_step (Suc n)"
  shows "f32_quantum x = Suc n"
proof -
  have "0 \<le> x" using assms(1) f32_step_pos(1)[of "Suc n"]
    by (meson less_imp_le mult_nonneg_nonneg order_trans zero_le_numeral zero_le_power)
  moreover have "\<not> x < 2 ^ 24 * f32_step n" using assms(1) by (simp add: f32_step_Suc)
  ultimately show ?thesis using quantum_le_iff[of x n] quantum_le_iff[of x "Suc n"] assms(2) by simp
qed

section \<open>What clients need of rounding\<close>

locale rounding =
  fixes rnd :: "rat \<Rightarrow> flt"
  assumes rnd_zero: "rnd 0 = Fin 0"
    and rnd_one: "rnd 1 = Fin 1"
    and rnd_mono: "0 \<le> x \<Longrightarrow> x \<le> y \<Longrightarrow> rnd y = Fin s \<Longrightarrow> \<exists>r. rnd x = Fin r \<and> 0 \<le> r \<and> r \<le> s"
begin

lemma rnd_unit: "0 \<le> x \<Longrightarrow> x \<le> 1 \<Longrightarrow> \<exists>r. rnd x = Fin r \<and> 0 \<le> r \<and> r \<le> 1"
  using rnd_mono[OF _ _ rnd_one] .

text \<open>A rounded convex combination stays in the unit interval.\<close>

lemma convex_unit:
  assumes "rnd a = Fin a" "rnd b = Fin b" "0 \<le> a" "0 \<le> b" "a + b \<le> 1"
    and "0 \<le> x" "x \<le> 1" "0 \<le> y" "y \<le> 1"
  shows "\<exists>p q r. rnd (a * x) = Fin p \<and> rnd (b * y) = Fin q \<and> rnd (p + q) = Fin r \<and> 0 \<le> r \<and> r \<le> 1"
proof -
  obtain p where p: "rnd (a * x) = Fin p" "0 \<le> p" "p \<le> a"
    using rnd_mono[of "a * x" a a] assms by (auto simp: mult_left_le)
  obtain q where q: "rnd (b * y) = Fin q" "0 \<le> q" "q \<le> b"
    using rnd_mono[of "b * y" b b] assms by (auto simp: mult_left_le)
  have "0 \<le> p + q" "p + q \<le> 1" using p q assms by linarith+
  from rnd_unit[OF this] show ?thesis using p q by blast
qed

end

interpretation f32: rounding round_f32
proof unfold_locales
  fix x y s :: rat
  assume xy: "0 \<le> x" "x \<le> y" and "round_f32 y = Fin s"
  then have "round_abs y < 2 ^ 128" "s = round_abs y" by (auto simp: round_f32_nonneg split: if_splits)
  then show "\<exists>r. round_f32 x = Fin r \<and> 0 \<le> r \<and> r \<le> s"
    using round_abs_mono[OF xy] round_abs_nonneg[OF xy(1)] xy by (simp add: round_f32_nonneg)
qed (simp_all add: round_f32_def)

text \<open>Arithmetic without rounding satisfies the same laws.\<close>

interpretation exact: rounding Fin
  by unfold_locales auto

end
