(* ===== verification/Spectrum.thy ===== *)
theory Spectrum
  imports State Float32
begin

text \<open>
  The spectrum analyser (src/src/audio/spectrum.rs): the accumulation of PCM into blocks, the
  windowed transform of a block, its mapping to 64 logarithmic bands, the smoothing, and the task
  that publishes the bands, throttled.

  Arithmetic is that of Float32.  The mathematical library and the transform of the crate
  \<open>rustfft\<close> are arguments.  A slice or clamp that would panic is \<open>None\<close>.  An \<open>Instant\<close> is an
  integer number of nanoseconds.
\<close>

section \<open>Constants\<close>

definition SPECTRUM_MIN_INTERVAL :: duration where "SPECTRUM_MIN_INTERVAL = millis 50"
definition FFT_SIZE :: nat where "FFT_SIZE = 2048"
definition SPECTRUM_SAMPLE_RATE :: flt where "SPECTRUM_SAMPLE_RATE = Fin 48000"
definition NUM_SPECTRUM_BANDS :: nat where "NUM_SPECTRUM_BANDS = 64"
definition SMOOTHING_ALPHA :: flt where "SMOOTHING_ALPHA = round_f32 (35/100)"
definition MIN_DB :: flt where "MIN_DB = Fin (-80)"

definition PI_F32 :: flt where "PI_F32 = round_f32 (31415926535897932384 / 10 ^ 19)"

text \<open>The functions of the mathematical library; \<open>lm_norm\<close> is the modulus of a complex number.\<close>

record libm =
  lm_ln :: "flt \<Rightarrow> flt"
  lm_exp :: "flt \<Rightarrow> flt"
  lm_log10 :: "flt \<Rightarrow> flt"
  lm_cos :: "flt \<Rightarrow> flt"
  lm_norm :: "flt \<times> flt \<Rightarrow> flt"

type_synonym fft = "(flt \<times> flt) list \<Rightarrow> (flt \<times> flt) list"

section \<open>Bands\<close>

text \<open>\<open>Ord::clamp\<close> panics when the bounds are out of order.\<close>

definition clamp_usize :: "nat \<Rightarrow> nat \<Rightarrow> nat \<Rightarrow> nat option" where
  "clamp_usize lo hi x =
     (if hi < lo then None else Some (if x < lo then lo else if hi < x then hi else x))"

definition band_freq :: "libm \<Rightarrow> nat \<Rightarrow> nat \<Rightarrow> flt" where
  "band_freq lm num_bands i =
     (let log_min = lm_ln lm (Fin 20); log_max = lm_ln lm (Fin 20000)
      in lm_exp lm (f32_add log_min
           (f32_div (f32_mul (f32_sub log_max log_min) (f32_of_nat i)) (f32_of_nat num_bands))))"

text \<open>The range of bins of a band.\<close>

definition band_bins :: "libm \<Rightarrow> flt \<Rightarrow> nat \<Rightarrow> nat \<Rightarrow> nat \<Rightarrow> (nat \<times> nat) option" where
  "band_bins lm sample_rate half num_bands i =
     (let bin_width = f32_div sample_rate (f32_mul (Fin 2) (f32_of_nat half)) in
      case clamp_usize 1 (half - 1)
             (f32_to_usize (f32_floor (f32_div (band_freq lm num_bands i) bin_width))) of
        None \<Rightarrow> None
      | Some lo \<Rightarrow>
          (case clamp_usize (lo + 1) half
                  (f32_to_usize (f32_ceil (f32_div (band_freq lm num_bands (i + 1)) bin_width))) of
             None \<Rightarrow> None
           | Some hi \<Rightarrow> Some (lo, hi)))"

definition level_of :: "libm \<Rightarrow> flt \<Rightarrow> flt" where
  "level_of lm avg =
     (let db = (if flt_less (Fin 0) avg then f32_mul (Fin 20) (lm_log10 lm avg) else MIN_DB)
      in flt_clamp (Fin 0) (Fin 1) (f32_div (f32_sub db MIN_DB) (f32_neg MIN_DB)))"

definition band_level :: "libm \<Rightarrow> flt list \<Rightarrow> flt \<Rightarrow> nat \<Rightarrow> nat \<Rightarrow> flt option" where
  "band_level lm magnitudes sample_rate num_bands i =
     (case band_bins lm sample_rate (length magnitudes) num_bands i of
        None \<Rightarrow> None
      | Some (lo, hi) \<Rightarrow>
          if hi < lo \<or> length magnitudes < hi then None
          else Some (level_of lm
            (f32_div (f32_sum (take (hi - lo) (drop lo magnitudes))) (f32_of_nat (hi - lo)))))"

definition map_to_bands :: "libm \<Rightarrow> flt list \<Rightarrow> flt \<Rightarrow> nat \<Rightarrow> flt list option" where
  "map_to_bands lm magnitudes sample_rate num_bands =
     those (map (band_level lm magnitudes sample_rate num_bands) [0..<num_bands])"

section \<open>Blocks\<close>

definition hann_window :: "libm \<Rightarrow> flt list" where
  "hann_window lm =
     map (\<lambda>i. f32_mul (Fin (1/2)) (f32_sub (Fin 1) (lm_cos lm
            (f32_div (f32_mul (f32_mul (Fin 2) PI_F32) (f32_of_nat i)) (f32_of_nat (FFT_SIZE - 1))))))
       [0..<FFT_SIZE]"

definition smooth :: "flt \<Rightarrow> flt \<Rightarrow> flt" where
  "smooth x old =
     f32_add (f32_mul SMOOTHING_ALPHA x) (f32_mul (f32_sub (Fin 1) SMOOTHING_ALPHA) old)"

text \<open>The bands of a block and the new smoothed bands, which are what is returned.\<close>

definition process_frame ::
    "libm \<Rightarrow> fft \<Rightarrow> flt list \<Rightarrow> flt list \<Rightarrow> (flt list \<times> flt list) option" where
  "process_frame lm ft samples smoothed =
     (let buffer = ft (map (\<lambda>(s, w). (f32_mul s w, Fin 0)) (zip samples (hann_window lm)));
          half = FFT_SIZE div 2
      in if length buffer < half then None
         else case map_to_bands lm (map (\<lambda>c. f32_div (lm_norm lm c) (f32_of_nat half)) (take half buffer))
                     SPECTRUM_SAMPLE_RATE NUM_SPECTRUM_BANDS of
             None \<Rightarrow> None
           | Some bands \<Rightarrow>
               (let smoothed' = map (\<lambda>(b, old). smooth b old) (zip bands smoothed)
                        @ drop (length bands) smoothed
                in Some (smoothed', smoothed')))"

text \<open>\<open>chunks(2)\<close> averages stereo pairs; a last odd sample stands alone.\<close>

fun to_mono :: "flt list \<Rightarrow> flt list" where
  "to_mono (l # r # xs) = f32_mul (f32_add l r) (Fin (1/2)) # to_mono xs"
| "to_mono [x] = [x]"
| "to_mono [] = []"

text \<open>
  The loop that takes block after block off the accumulator, over the function that processes one:
  what it put out, its state, and what is left.
\<close>

function drain_blocks ::
    "(flt list \<Rightarrow> 's \<Rightarrow> ('o \<times> 's) option) \<Rightarrow> flt list \<Rightarrow> 's \<Rightarrow> ('o list \<times> 's \<times> flt list) option" where
  "drain_blocks p acc s =
     (if FFT_SIZE \<le> length acc
      then case p (take FFT_SIZE acc) s of
          None \<Rightarrow> None
        | Some (x, s1) \<Rightarrow>
            (case drain_blocks p (drop FFT_SIZE acc) s1 of
               None \<Rightarrow> None
             | Some (xs, s2, rest) \<Rightarrow> Some (x # xs, s2, rest))
      else Some ([], s, acc))"
  by pat_completeness auto

termination drain_blocks
  by (relation "measure (\<lambda>(p, acc, s). length acc)") (auto simp: FFT_SIZE_def)

declare drain_blocks.simps [simp del]

record analyzer =
  smoothed_bands :: "flt list"
  accumulator :: "flt list"

definition new_analyzer :: analyzer where
  "new_analyzer = \<lparr>smoothed_bands = replicate NUM_SPECTRUM_BANDS (Fin 0), accumulator = []\<rparr>"

definition analyzer_push :: "libm \<Rightarrow> fft \<Rightarrow> flt list \<Rightarrow> analyzer \<Rightarrow> (flt list list \<times> analyzer) option" where
  "analyzer_push lm ft interleaved a =
     (case drain_blocks (process_frame lm ft) (accumulator a @ to_mono interleaved) (smoothed_bands a) of
        None \<Rightarrow> None
      | Some (out, sm, rest) \<Rightarrow> Some (out, \<lparr>smoothed_bands = sm, accumulator = rest\<rparr>))"

section \<open>The task\<close>

definition should_publish :: "int \<Rightarrow> int \<Rightarrow> duration \<Rightarrow> bool" where
  "should_publish last_at now_at min_interval \<longleftrightarrow> min_interval \<le> nat (now_at - last_at)"

text \<open>
  The clock is read once per band frame; \<open>clk n\<close> is the reading number \<open>n\<close>.  When the sender of the
  shutdown channel is gone, \<open>changed()\<close> is always ready and, the select being biased, nothing else is
  received any more.  \<open>sp_times\<close> records when something was published.
\<close>

datatype spectrum_phase = SpRunning | SpSpinning | SpReturned | SpPanicked

record spectrum_task =
  sp_phase :: spectrum_phase
  sp_analyzer :: analyzer
  sp_last :: int
  sp_reads :: nat
  sp_times :: "int list"
  sp_handle :: app_handle

datatype spectrum_event =
    PcmFrame "flt list"
  | PcmLagged nat
  | PcmClosed
  | ShutdownChanged bool
  | ShutdownSenderGone

definition publish_bands :: "(nat \<Rightarrow> int) \<Rightarrow> spectrum_task \<Rightarrow> flt list \<Rightarrow> spectrum_task" where
  "publish_bands clk s bands =
     (let now_at = clk (sp_reads s); s1 = s\<lparr>sp_reads := sp_reads s + 1\<rparr> in
      if should_publish (sp_last s) now_at SPECTRUM_MIN_INTERVAL
      then s1\<lparr>sp_last := now_at, sp_times := sp_times s @ [now_at],
              sp_handle := publish (SpectrumData bands) (sp_handle s)\<rparr>
      else s1)"

fun spectrum_step ::
    "libm \<Rightarrow> fft \<Rightarrow> (nat \<Rightarrow> int) \<Rightarrow> spectrum_task \<Rightarrow> spectrum_event \<Rightarrow> spectrum_task" where
  "spectrum_step lm ft clk s (PcmFrame frame) =
     (if sp_phase s = SpRunning
      then case analyzer_push lm ft frame (sp_analyzer s) of
          None \<Rightarrow> s\<lparr>sp_phase := SpPanicked\<rparr>
        | Some (out, a) \<Rightarrow> foldl (publish_bands clk) (s\<lparr>sp_analyzer := a\<rparr>) out
      else s)"
| "spectrum_step lm ft clk s (PcmLagged n) = s"
| "spectrum_step lm ft clk s PcmClosed =
     (if sp_phase s = SpRunning then s\<lparr>sp_phase := SpReturned\<rparr> else s)"
| "spectrum_step lm ft clk s (ShutdownChanged requested) =
     (if sp_phase s = SpRunning \<and> requested then s\<lparr>sp_phase := SpReturned\<rparr> else s)"
| "spectrum_step lm ft clk s ShutdownSenderGone =
     (if sp_phase s = SpRunning then s\<lparr>sp_phase := SpSpinning\<rparr> else s)"

definition spectrum_start :: "int \<Rightarrow> app_handle \<Rightarrow> spectrum_task" where
  "spectrum_start started h =
     \<lparr>sp_phase = SpRunning, sp_analyzer = new_analyzer,
      sp_last = started - int SPECTRUM_MIN_INTERVAL - int (millis 1), sp_reads = 0, sp_times = [],
      sp_handle = h\<rparr>"

section \<open>Lemmas\<close>

fun in_unit :: "flt \<Rightarrow> bool" where
  "in_unit (Fin r) = (0 \<le> r \<and> r \<le> 1)"
| "in_unit _ = False"

text \<open>The smoothing constant, digit by digit.\<close>

lemma alpha_value: "SMOOTHING_ALPHA = Fin (11744051 / 2 ^ 25)"
proof -
  have "f32_quantum (35/100) = Suc 123" by (rule quantum_eqI) (simp_all add: f32_step_def)
  then have "round_abs (35/100) = of_int (round_half_even (35/100 * 2 ^ 25)) / 2 ^ 25"
    by (simp add: round_abs_def f32_step_def)
  also have "\<lfloor>35/100 * 2 ^ 25 :: rat\<rfloor> = 11744051" by (simp add: floor_eq_iff)
  then have "round_half_even (35/100 * 2 ^ 25) = 11744051"
    unfolding round_half_even_def by (simp only: Let_def) simp
  finally show ?thesis by (simp add: SMOOTHING_ALPHA_def round_f32_nonneg)
qed

lemma beta_value: "f32_sub (Fin 1) SMOOTHING_ALPHA = Fin (21810380 / 2 ^ 25)"
proof -
  have "f32_quantum (21810381 / 2 ^ 25) = Suc 124" by (rule quantum_eqI) (simp_all add: f32_step_def)
  then have "round_abs (21810381 / 2 ^ 25) = of_int (round_half_even (21810381 / 2)) / 2 ^ 24"
    by (simp add: round_abs_def f32_step_def)
  also have "\<lfloor>21810381 / 2 :: rat\<rfloor> = 10905190" by (simp add: floor_eq_iff)
  then have "round_half_even (21810381 / 2) = 10905190"
    unfolding round_half_even_def by (simp only: Let_def) simp
  finally show ?thesis by (simp add: f32_sub_def alpha_value round_f32_nonneg)
qed

lemma alpha_exact: "round_f32 (11744051 / 2 ^ 25) = Fin (11744051 / 2 ^ 25)"
  using round_abs_exact[of 11744051 124] by (simp add: round_f32_nonneg f32_step_def)

lemma beta_exact: "round_f32 (21810380 / 2 ^ 25) = Fin (21810380 / 2 ^ 25)"
  using round_abs_exact[of 10905190 125] by (simp add: round_f32_nonneg f32_step_def)

lemma smooth_unit: "in_unit x \<Longrightarrow> in_unit y \<Longrightarrow> in_unit (smooth x y)"
proof -
  assume "in_unit x" "in_unit y"
  then obtain a b where ab: "x = Fin a" "y = Fin b" "0 \<le> a" "a \<le> 1" "0 \<le> b" "b \<le> 1"
    by (cases x; cases y) auto
  have "smooth x y = f32_add (round_f32 (11744051 / 2 ^ 25 * a)) (round_f32 (21810380 / 2 ^ 25 * b))"
    unfolding smooth_def beta_value ab by (simp only: alpha_value f32_mul.simps)
  moreover have "\<exists>p q r. round_f32 (11744051 / 2 ^ 25 * a) = Fin p
      \<and> round_f32 (21810380 / 2 ^ 25 * b) = Fin q \<and> round_f32 (p + q) = Fin r \<and> 0 \<le> r \<and> r \<le> 1"
    by (rule f32.convex_unit[OF alpha_exact beta_exact _ _ _ ab(3-6)]) simp_all
  ultimately show ?thesis by auto
qed

lemma clamp_unit: "x \<noteq> NaN \<Longrightarrow> in_unit (flt_clamp (Fin 0) (Fin 1) x)"
  by (cases x) (auto simp: flt_clamp_def)

definition log10_ok :: "libm \<Rightarrow> bool" where
  "log10_ok lm \<longleftrightarrow> (\<forall>x. flt_less (Fin 0) x \<longrightarrow> lm_log10 lm x \<noteq> NaN)"

lemma signed_inf_ne [simp]: "signed_inf 1 = PosInf" "signed_inf (-1) = NegInf"
  by (simp_all add: signed_inf_def)

lemma level_unit:
  assumes "log10_ok lm"
  shows "in_unit (level_of lm avg)"
proof -
  have m: "f32_mul (Fin 20) x \<noteq> NaN" if "x \<noteq> NaN" for x using that by (cases x) auto
  have d: "f32_div (f32_sub x MIN_DB) (f32_neg MIN_DB) \<noteq> NaN" if "x \<noteq> NaN" for x
  proof -
    have "f32_sub x MIN_DB \<noteq> NaN" using that by (cases x) (auto simp: f32_sub_def MIN_DB_def)
    then show ?thesis by (cases "f32_sub x MIN_DB") (auto simp: MIN_DB_def)
  qed
  show ?thesis using assms unfolding level_of_def Let_def
    by (intro clamp_unit d) (auto simp: log10_ok_def MIN_DB_def intro!: m)
qed

lemma clamp_usize_Some:
  "clamp_usize lo hi x = Some y \<Longrightarrow> lo \<le> y \<and> y \<le> hi"
  "lo \<le> hi \<Longrightarrow> clamp_usize lo hi x \<noteq> None"
  by (auto simp: clamp_usize_def split: if_splits)

text \<open>With at least two bins every band has a bin of its own range: nothing panics.\<close>

lemma band_bins_ok:
  assumes "2 \<le> half"
  shows "\<exists>lo hi. band_bins lm rt half n i = Some (lo, hi) \<and> 1 \<le> lo \<and> lo < hi \<and> hi \<le> half"
proof -
  let ?bw = "f32_div rt (f32_mul (Fin 2) (f32_of_nat half))"
  obtain lo where lo: "clamp_usize 1 (half - 1) (f32_to_usize (f32_floor (f32_div (band_freq lm n i) ?bw)))
      = Some lo"
    using clamp_usize_Some(2)[of 1 "half - 1"] assms by fastforce
  then have b: "1 \<le> lo" "lo \<le> half - 1" using clamp_usize_Some(1) by blast+
  obtain hi where hi: "clamp_usize (lo + 1) half
      (f32_to_usize (f32_ceil (f32_div (band_freq lm n (i + 1)) ?bw))) = Some hi"
    using clamp_usize_Some(2)[of "lo + 1" half] b assms by fastforce
  then have "lo + 1 \<le> hi" "hi \<le> half" using clamp_usize_Some(1) by blast+
  then show ?thesis using lo hi b by (auto simp: band_bins_def Let_def)
qed

lemma those_map_Some: "(\<And>x. x \<in> set xs \<Longrightarrow> f x = Some (g x)) \<Longrightarrow> those (map f xs) = Some (map g xs)"
  by (induction xs) auto

lemma map_to_bands_ok:
  assumes "2 \<le> length mags" "log10_ok lm"
  shows "\<exists>bands. map_to_bands lm mags rt n = Some bands \<and> length bands = n \<and> list_all in_unit bands"
proof -
  have ex: "\<exists>v. band_level lm mags rt n i = Some v \<and> in_unit v" for i
    using band_bins_ok[OF assms(1), of lm rt n i] level_unit[OF assms(2)]
    by (auto simp: band_level_def)
  then obtain g where g: "\<And>i. band_level lm mags rt n i = Some (g i) \<and> in_unit (g i)" by metis
  then have "map_to_bands lm mags rt n = Some (map g [0..<n])"
    unfolding map_to_bands_def by (intro those_map_Some) simp
  then show ?thesis using g by (auto simp: list_all_iff)
qed

definition keeps_length :: "fft \<Rightarrow> bool" where
  "keeps_length ft \<longleftrightarrow> (\<forall>xs. length (ft xs) = length xs)"

definition bands_ok :: "flt list \<Rightarrow> bool" where
  "bands_ok bands \<longleftrightarrow> length bands = NUM_SPECTRUM_BANDS \<and> list_all in_unit bands"

lemma process_frame_ok:
  assumes "keeps_length ft" "log10_ok lm" "length samples = FFT_SIZE" "bands_ok smoothed"
  shows "\<exists>bands. process_frame lm ft samples smoothed = Some (bands, bands) \<and> bands_ok bands"
proof -
  let ?buf = "ft (map (\<lambda>(s, w). (f32_mul s w, Fin 0)) (zip samples (hann_window lm)))"
  let ?mags = "map (\<lambda>c. f32_div (lm_norm lm c) (f32_of_nat (FFT_SIZE div 2))) (take (FFT_SIZE div 2) ?buf)"
  have len: "length ?buf = FFT_SIZE"
    using assms(1,3) by (simp add: keeps_length_def hann_window_def)
  then have "2 \<le> length ?mags" by (simp add: FFT_SIZE_def)
  then obtain bands where b: "map_to_bands lm ?mags SPECTRUM_SAMPLE_RATE NUM_SPECTRUM_BANDS = Some bands"
    "length bands = NUM_SPECTRUM_BANDS" "list_all in_unit bands"
    using map_to_bands_ok[OF _ assms(2)] by blast
  have sm: "length smoothed = NUM_SPECTRUM_BANDS" "list_all in_unit smoothed"
    using assms(4) by (simp_all add: bands_ok_def)
  let ?new = "map (\<lambda>(b, old). smooth b old) (zip bands smoothed) @ drop (length bands) smoothed"
  have "\<not> length ?buf < FFT_SIZE div 2" using len by (simp add: FFT_SIZE_def)
  then have eq: "process_frame lm ft samples smoothed = Some (?new, ?new)"
    using b(1) by (simp add: process_frame_def Let_def)
  have unit: "in_unit (smooth x y)" if "(x, y) \<in> set (zip bands smoothed)" for x y
    using that b(3) sm(2) by (auto simp: list_all_iff intro!: smooth_unit dest: set_zip_leftD set_zip_rightD)
  have "bands_ok ?new"
    using b(2) sm(1) unit by (auto simp: bands_ok_def list_all_iff)
  then show ?thesis using eq by blast
qed

text \<open>The loop over the blocks.\<close>

lemma drain_short [simp]: "length acc < FFT_SIZE \<Longrightarrow> drain_blocks p acc s = Some ([], s, acc)"
  by (simp add: drain_blocks.simps)

lemma drain_ok:
  assumes "\<And>blk s. length blk = FFT_SIZE \<Longrightarrow> P s \<Longrightarrow> \<exists>x s'. p blk s = Some (x, s') \<and> Q x \<and> P s'"
    and "P s"
  shows "\<exists>xs s' rest. drain_blocks p acc s = Some (xs, s', rest) \<and> list_all Q xs \<and> P s'
    \<and> length rest < FFT_SIZE \<and> length acc = FFT_SIZE * length xs + length rest"
  using assms(2)
proof (induction "length acc" arbitrary: acc s rule: less_induct)
  case less
  show ?case
  proof (cases "FFT_SIZE \<le> length acc")
    case True
    obtain x s1 where x: "p (take FFT_SIZE acc) s = Some (x, s1)" "Q x" "P s1"
      using assms(1)[of "take FFT_SIZE acc" s] True less.prems by auto
    have "length (drop FFT_SIZE acc) < length acc" using True by (simp add: FFT_SIZE_def)
    from less.hyps[OF this x(3)] obtain xs s' rest where r:
      "drain_blocks p (drop FFT_SIZE acc) s1 = Some (xs, s', rest)" "list_all Q xs" "P s'"
      "length rest < FFT_SIZE" "length (drop FFT_SIZE acc) = FFT_SIZE * length xs + length rest"
      by blast
    have "drain_blocks p acc s = Some (x # xs, s', rest)"
      using True x(1) r(1) by (subst drain_blocks.simps) simp
    moreover have "length acc = FFT_SIZE * length (x # xs) + length rest" using r(5) True by simp
    ultimately show ?thesis using x(2) r by auto
  qed (use less.prems in simp)
qed

lemma drain_append:
  "drain_blocks p (acc @ ys) s =
     (case drain_blocks p acc s of
        None \<Rightarrow> None
      | Some (xs, s1, rest) \<Rightarrow>
          (case drain_blocks p (rest @ ys) s1 of
             None \<Rightarrow> None
           | Some (xs', s2, rest') \<Rightarrow> Some (xs @ xs', s2, rest')))"
proof (induction "length acc" arbitrary: acc s rule: less_induct)
  case less
  show ?case
  proof (cases "FFT_SIZE \<le> length acc")
    case True
    then have t: "take FFT_SIZE (acc @ ys) = take FFT_SIZE acc"
      "drop FFT_SIZE (acc @ ys) = drop FFT_SIZE acc @ ys" "FFT_SIZE \<le> length (acc @ ys)" by simp_all
    have IH: "drain_blocks p (drop FFT_SIZE acc @ ys) s1 =
        (case drain_blocks p (drop FFT_SIZE acc) s1 of None \<Rightarrow> None
         | Some (xs, s1, rest) \<Rightarrow> (case drain_blocks p (rest @ ys) s1 of None \<Rightarrow> None
             | Some (xs', s2, rest') \<Rightarrow> Some (xs @ xs', s2, rest')))" for s1
      using True by (intro less) (simp add: FFT_SIZE_def)
    show ?thesis
      unfolding drain_blocks.simps[of p "acc @ ys" s] drain_blocks.simps[of p acc s] t(1,2)
      using True t(3) by (simp add: IH split: option.split prod.split)
  next
    case False
    then show ?thesis by (cases "drain_blocks p (acc @ ys) s") auto
  qed
qed

lemma to_mono_append: "even (length xs) \<Longrightarrow> to_mono (xs @ ys) = to_mono xs @ to_mono ys"
  by (induction xs rule: to_mono.induct) auto

lemma push_ok:
  assumes "keeps_length ft" "log10_ok lm" "bands_ok (smoothed_bands a)"
  shows "\<exists>out a'. analyzer_push lm ft interleaved a = Some (out, a') \<and> list_all bands_ok out
    \<and> bands_ok (smoothed_bands a') \<and> length (accumulator a') < FFT_SIZE
    \<and> length (accumulator a) + length (to_mono interleaved) = FFT_SIZE * length out + length (accumulator a')"
proof -
  have frame: "\<And>blk s. length blk = FFT_SIZE \<Longrightarrow> bands_ok s \<Longrightarrow>
      \<exists>x s'. process_frame lm ft blk s = Some (x, s') \<and> bands_ok x \<and> bands_ok s'"
    using process_frame_ok[OF assms(1,2)] by blast
  let ?acc = "accumulator a @ to_mono interleaved"
  have "\<exists>out sm rest. drain_blocks (process_frame lm ft) ?acc (smoothed_bands a) = Some (out, sm, rest)
      \<and> list_all bands_ok out \<and> bands_ok sm \<and> length rest < FFT_SIZE
      \<and> length ?acc = FFT_SIZE * length out + length rest"
    by (rule drain_ok[where P = bands_ok]) (use frame assms(3) in blast)+
  then obtain out sm rest where "drain_blocks (process_frame lm ft) ?acc (smoothed_bands a) = Some (out, sm, rest)"
    "list_all bands_ok out" "bands_ok sm" "length rest < FFT_SIZE"
    "length ?acc = FFT_SIZE * length out + length rest" by (elim exE conjE)
  then show ?thesis by (simp add: analyzer_push_def)
qed

text \<open>The task: what it published is well formed, and spaced.\<close>

definition event_ok :: "system_event \<Rightarrow> bool" where
  "event_ok e = (case e of SpectrumData bands \<Rightarrow> bands_ok bands | _ \<Rightarrow> True)"

definition spectrum_typed :: "spectrum_task \<Rightarrow> bool" where
  "spectrum_typed s \<longleftrightarrow> sp_phase s \<noteq> SpPanicked \<and> bands_ok (smoothed_bands (sp_analyzer s))
     \<and> list_all event_ok (bus (sp_handle s))"

lemma publish_bands_keeps:
  "sp_phase (publish_bands clk s b) = sp_phase s" "sp_analyzer (publish_bands clk s b) = sp_analyzer s"
  by (simp_all add: publish_bands_def Let_def)

lemma publish_bands_typed:
  "list_all bands_ok out \<Longrightarrow> spectrum_typed s \<Longrightarrow> spectrum_typed (foldl (publish_bands clk) s out)"
proof (induction out arbitrary: s)
  case (Cons b out)
  have "spectrum_typed (publish_bands clk s b)"
    using Cons.prems
    by (auto simp: spectrum_typed_def publish_bands_keeps publish_bands_def Let_def publish_def event_ok_def)
  then show ?case using Cons by simp
qed simp

interpretation spectrum: machine "spectrum_step lm ft clk"
    "\<lambda>s. keeps_length ft \<and> log10_ok lm \<longrightarrow> spectrum_typed s" for lm ft clk
proof unfold_locales
  fix s e
  assume H: "keeps_length ft \<and> log10_ok lm \<longrightarrow> spectrum_typed s"
  show "keeps_length ft \<and> log10_ok lm \<longrightarrow> spectrum_typed (spectrum_step lm ft clk s e)"
  proof
    assume L: "keeps_length ft \<and> log10_ok lm"
    then have T: "spectrum_typed s" using H by simp
    show "spectrum_typed (spectrum_step lm ft clk s e)"
    proof (cases e)
      case (PcmFrame frame)
      obtain out a where p: "analyzer_push lm ft frame (sp_analyzer s) = Some (out, a)" "list_all bands_ok out"
        "bands_ok (smoothed_bands a)"
        using push_ok[of ft lm "sp_analyzer s" frame] L T by (auto simp: spectrum_typed_def)
      moreover have "spectrum_typed (s\<lparr>sp_analyzer := a\<rparr>)" using T p(3) by (simp add: spectrum_typed_def)
      ultimately show ?thesis using T PcmFrame by (simp add: publish_bands_typed)
    qed (use T in \<open>auto simp: spectrum_typed_def\<close>)
  qed
qed

definition spaced :: "spectrum_task \<Rightarrow> bool" where
  "spaced s \<longleftrightarrow> successively (\<lambda>a b. a + int SPECTRUM_MIN_INTERVAL \<le> b) (sp_times s)
     \<and> (sp_times s \<noteq> [] \<longrightarrow> last (sp_times s) = sp_last s)"

lemma publish_bands_spaced: "spaced s \<Longrightarrow> spaced (publish_bands clk s b)"
  by (auto simp: spaced_def publish_bands_def Let_def should_publish_def successively_append_iff
      SPECTRUM_MIN_INTERVAL_def millis_def)

lemma fold_publish_spaced: "spaced s \<Longrightarrow> spaced (foldl (publish_bands clk) s out)"
  by (induction out arbitrary: s) (auto simp: publish_bands_spaced)

interpretation throttle: machine "spectrum_step lm ft clk" spaced for lm ft clk
proof unfold_locales
  fix s e
  assume H: "spaced s"
  show "spaced (spectrum_step lm ft clk s e)"
  proof (cases e)
    case (PcmFrame frame)
    have "spaced (s\<lparr>sp_analyzer := a\<rparr>)" for a using H by (simp add: spaced_def)
    then show ?thesis using H PcmFrame
      by (auto simp: fold_publish_spaced spaced_def[of "s\<lparr>sp_phase := SpPanicked\<rparr>"] spaced_def[of s]
          split: option.splits)
  qed (use H in \<open>auto simp: spaced_def\<close>)
qed

lemma successively_span:
  "successively (\<lambda>a b. a + d \<le> b) (ts :: int list) \<Longrightarrow> ts \<noteq> [] \<Longrightarrow>
     hd ts + d * int (length ts - 1) \<le> last ts"
proof (induction ts rule: induct_list012)
  case (3 x y zs)
  then have "y + d * int (length zs) \<le> last (y # zs)" "x + d \<le> y" by auto
  then show ?case by (simp add: algebra_simps)
qed auto

lemma spinning_step: "sp_phase s \<noteq> SpRunning \<Longrightarrow> spectrum_step lm ft clk s e = s"
  by (cases e) auto

interpretation stopped: halting_machine "spectrum_step lm ft clk" "\<lambda>_. True" "\<lambda>s. sp_phase s \<noteq> SpRunning"
  for lm ft clk
  by unfold_locales (simp_all add: spinning_step)

section \<open>On the shared handle\<close>

definition sp_on :: "app_handle \<Rightarrow> spectrum_task \<Rightarrow> spectrum_task" where
  "sp_on h s = s\<lparr>sp_handle := h\<rparr>"

lemma publish_bands_on:
  "publish_bands clk (sp_on h s) bands = sp_on (fold commit
      (if should_publish (sp_last s) (clk (sp_reads s)) SPECTRUM_MIN_INTERVAL then [SpectrumData bands] else [])
      h) (publish_bands clk s bands)"
  by (simp add: publish_bands_def sp_on_def Let_def)

lemma publish_all_on:
  "\<exists>evs. (\<forall>h. foldl (publish_bands clk) (sp_on h s) out
        = sp_on (fold commit evs h) (foldl (publish_bands clk) s out))
      \<and> (\<forall>ev \<in> set evs. writer_of ev = SpectrumTask)"
proof (induction out arbitrary: s)
  case Nil
  show ?case by (intro exI[of _ "[]"]) simp
next
  case (Cons b out)
  let ?e = "if should_publish (sp_last s) (clk (sp_reads s)) SPECTRUM_MIN_INTERVAL then [SpectrumData b] else []"
  obtain evs where "\<And>h. foldl (publish_bands clk) (sp_on h (publish_bands clk s b)) out
        = sp_on (fold commit evs h) (foldl (publish_bands clk) (publish_bands clk s b) out)"
    and "\<forall>ev \<in> set evs. writer_of ev = SpectrumTask" using Cons.IH by blast
  then show ?case by (intro exI[of _ "?e @ evs"]) (auto simp: publish_bands_on)
qed

lemma spectrum_step_on:
  "\<exists>evs. (\<forall>h. spectrum_step lm ft clk (sp_on h s) e
        = sp_on (fold commit evs h) (spectrum_step lm ft clk s e))
      \<and> (\<forall>ev \<in> set evs. writer_of ev = SpectrumTask)"
proof (cases "sp_phase s = SpRunning \<and> (\<exists>f. e = PcmFrame f)")
  case True
  then obtain f where e: "e = PcmFrame f" by blast
  have on: "(sp_on h s)\<lparr>sp_analyzer := a\<rparr> = sp_on h (s\<lparr>sp_analyzer := a\<rparr>)"
    "sp_phase (sp_on h s) = sp_phase s" "sp_analyzer (sp_on h s) = sp_analyzer s"
    "(sp_on h s)\<lparr>sp_phase := ph\<rparr> = sp_on h (s\<lparr>sp_phase := ph\<rparr>)" for h a ph
    by (simp_all add: sp_on_def)
  show ?thesis
  proof (cases "analyzer_push lm ft f (sp_analyzer s)")
    case None
    then show ?thesis using True e by (intro exI[of _ "[]"]) (simp add: on)
  next
    case (Some r)
    then show ?thesis using True e publish_all_on[of clk "s\<lparr>sp_analyzer := snd r\<rparr>" "fst r"]
      by (simp add: on split_beta)
  qed
next
  case False
  then show ?thesis by (intro exI[of _ "[]"]) (cases e; simp add: sp_on_def)
qed

interpretation spectrum_user: handle_user "spectrum_step lm ft clk" sp_handle sp_on "\<lambda>_. ()" SpectrumTask
  for lm ft clk
  by unfold_locales (use spectrum_step_on in \<open>auto simp: sp_on_def\<close>)

section \<open>Properties\<close>

text \<open>
  C34 (every spectrum event is well typed).  Whatever PCM arrives (not-a-number samples and infinities
  included) and whatever the transform makes of it, every published event has 64 bands, each a finite
  number between 0 and 1, and the task never panics.  Assumed of the libraries: the transform keeps
  the length of its buffer, and the logarithm of a positive number is a number.
\<close>

theorem spectra_well_typed:
  assumes "keeps_length ft" "log10_ok lm" "list_all event_ok (bus h)"
  shows "list_all event_ok (bus (sp_handle (run (spectrum_step lm ft clk) (spectrum_start t0 h) es)))
    \<and> sp_phase (run (spectrum_step lm ft clk) (spectrum_start t0 h) es) \<noteq> SpPanicked"
proof -
  have "spectrum_typed (spectrum_start t0 h)"
    using assms(3) by (simp add: spectrum_typed_def spectrum_start_def new_analyzer_def bands_ok_def
        list_all_iff)
  then have "keeps_length ft \<and> log10_ok lm \<longrightarrow>
      spectrum_typed (run (spectrum_step lm ft clk) (spectrum_start t0 h) es)"
    by (intro spectrum.run_inv) simp
  then show ?thesis using assms(1,2) by (simp add: spectrum_typed_def)
qed

definition demo_libm :: libm where
  "demo_libm = \<lparr>lm_ln = id, lm_exp = id, lm_log10 = id, lm_cos = (\<lambda>_. Fin 0), lm_norm = fst\<rparr>"

theorem spectra_well_typed_witness:
  "list_all event_ok (bus (sp_handle (run (spectrum_step demo_libm id (\<lambda>n. int (secs n)))
       (spectrum_start 0 new_handle) [PcmFrame (replicate 5000 NaN)])))
    \<and> sp_phase (run (spectrum_step demo_libm id (\<lambda>n. int (secs n)))
       (spectrum_start 0 new_handle) [PcmFrame (replicate 5000 NaN)]) \<noteq> SpPanicked"
  by (rule spectra_well_typed)
    (auto simp: keeps_length_def log10_ok_def demo_libm_def new_handle_def)

text \<open>
  The analyser does not see how the PCM was cut.  Feeding two pieces one after the other gives
  the same band frames and leaves the same state as feeding them at once, when the first piece ends
  with a complete stereo pair.
\<close>

theorem push_ignores_chunking:
  assumes "even (length xs)"
  shows "analyzer_push lm ft (xs @ ys) a =
    (case analyzer_push lm ft xs a of
       None \<Rightarrow> None
     | Some (out1, a1) \<Rightarrow>
         (case analyzer_push lm ft ys a1 of
            None \<Rightarrow> None
          | Some (out2, a2) \<Rightarrow> Some (out1 @ out2, a2)))"
proof -
  note D = drain_append[of "process_frame lm ft" "accumulator a @ to_mono xs" "to_mono ys" "smoothed_bands a"]
  show ?thesis
    unfolding analyzer_push_def to_mono_append[OF assms] using D by (simp split: option.split prod.split)
qed

theorem push_ignores_chunking_witness:
  "analyzer_push demo_libm id ([Fin 1, Fin 0] @ [Fin 1]) new_analyzer =
    (case analyzer_push demo_libm id [Fin 1, Fin 0] new_analyzer of
       None \<Rightarrow> None
     | Some (out1, a1) \<Rightarrow>
         (case analyzer_push demo_libm id [Fin 1] a1 of
            None \<Rightarrow> None
          | Some (out2, a2) \<Rightarrow> Some (out1 @ out2, a2)))"
  by (rule push_ignores_chunking) simp


text \<open>
  The task does not survive the loss of the shutdown sender: it neither returns nor ever publishes
  again, where every other task of the program takes that for a shutdown.
\<close>

theorem spectrum_spins_without_sender:
  "(let s = run (spectrum_step lm ft clk) (spectrum_start t0 h) (ShutdownSenderGone # es) in
     sp_phase s = SpSpinning \<and> bus (sp_handle s) = bus h)"
proof -
  let ?s = "spectrum_step lm ft clk (spectrum_start t0 h) ShutdownSenderGone"
  have p: "sp_phase ?s = SpSpinning" "bus (sp_handle ?s) = bus h" by (simp_all add: spectrum_start_def)
  then have "run (spectrum_step lm ft clk) ?s es = ?s" by (intro stopped.halted_run) simp
  then show ?thesis using p by (simp add: Let_def)
qed

end
