(* ===== verification/BluezGlue.thy ===== *)
theory BluezGlue
  imports Bluetooth Pairing
begin

text \<open>
  The side of the Bluetooth service that talks to BlueZ: the adapter control
  (src/src/bluetooth/bluer_control.rs), the pairing agent and its gate
  (src/src/bluetooth/bluer_agent.rs, src/src/bluetooth/agent.rs), device operations and the passive
  watching of devices (src/src/bluetooth/bluer_devices.rs), and the set-up of the service
  (src/src/bluetooth/service.rs).

  The crate \<open>bluer\<close> is the record \<open>bluer\<close>: one fallible operation per call the sources make.  What
  BlueZ answers about a device arrives with the event that asks.
\<close>

record 'w bluer =
  bl_session :: "'w \<Rightarrow> (string + unit) \<times> 'w"
  bl_default_adapter :: "'w \<Rightarrow> (string + string) \<times> 'w"
  bl_set_powered :: "bool \<Rightarrow> 'w \<Rightarrow> (string + unit) \<times> 'w"
  bl_set_alias :: "string \<Rightarrow> 'w \<Rightarrow> (string + unit) \<times> 'w"
  bl_set_discoverable :: "bool \<Rightarrow> 'w \<Rightarrow> (string + unit) \<times> 'w"
  bl_set_discoverable_timeout :: "nat \<Rightarrow> 'w \<Rightarrow> (string + unit) \<times> 'w"
  bl_set_pairable :: "bool \<Rightarrow> 'w \<Rightarrow> (string + unit) \<times> 'w"
  bl_register_agent :: "'w \<Rightarrow> (string + unit) \<times> 'w"
  bl_parse_address :: "string \<Rightarrow> string + string"
  bl_device :: "string \<Rightarrow> 'w \<Rightarrow> string + unit"
  bl_connect :: "string \<Rightarrow> 'w \<Rightarrow> (string + unit) \<times> 'w"
  bl_set_trusted :: "string \<Rightarrow> bool \<Rightarrow> 'w \<Rightarrow> (string + unit) \<times> 'w"
  bl_disconnect :: "string \<Rightarrow> 'w \<Rightarrow> (string + unit) \<times> 'w"
  bl_remove_device :: "string \<Rightarrow> 'w \<Rightarrow> (string + unit) \<times> 'w"

section \<open>Adapter control\<close>

definition control_set_alias :: "'w bluer \<Rightarrow> string \<Rightarrow> 'w \<Rightarrow> (string + unit) \<times> 'w" where
  "control_set_alias bl name w = bl_set_alias bl name w"

definition power_and_alias :: "'w bluer \<Rightarrow> string \<Rightarrow> 'w \<Rightarrow> (string + unit) \<times> 'w" where
  "power_and_alias bl name w =
     (case bl_set_powered bl True w of
        (Inl e, w1) \<Rightarrow> (Inl e, w1)
      | (Inr _, w1) \<Rightarrow> control_set_alias bl name w1)"

definition control_set_discoverable :: "'w bluer \<Rightarrow> bool \<Rightarrow> 'w \<Rightarrow> (string + unit) \<times> 'w" where
  "control_set_discoverable bl on w =
     (case bl_set_discoverable bl on w of
        (Inl e, w1) \<Rightarrow> (Inl e, w1)
      | (Inr _, w1) \<Rightarrow>
          if on
          then (case bl_set_discoverable_timeout bl 0 w1 of
                  (Inl e, w2) \<Rightarrow> (Inl e, w2)
                | (Inr _, w2) \<Rightarrow> (Inr (), w2))
          else (Inr (), w1))"

definition control_set_pairable :: "'w bluer \<Rightarrow> bool \<Rightarrow> 'w \<Rightarrow> (string + unit) \<times> 'w" where
  "control_set_pairable bl on w =
     (case bl_set_pairable bl on w of
        (Inl e, w1) \<Rightarrow> (Inl e, w1)
      | (Inr _, w1) \<Rightarrow> (Inr (), w1))"

section \<open>The pairing gate and the agent\<close>

text \<open>
  The gate is a view of the value the pairing window publishes.  Registering the agent is given the
  gate and does not use it.
\<close>

record pairing_gate =
  gate_open :: bool

definition gate_of :: "pairing \<Rightarrow> pairing_gate" where
  "gate_of s = \<lparr>gate_open = pw_open_state s\<rparr>"

definition authorized :: "pairing_gate \<Rightarrow> bool" where
  "authorized g = gate_open g"

definition register_pairing_agent ::
    "'w bluer \<Rightarrow> pairing_gate \<Rightarrow> 'w \<Rightarrow> (string + unit) \<times> 'w" where
  "register_pairing_agent bl g w = bl_register_agent bl w"

section \<open>Operations on a device\<close>

definition device_connect :: "'w bluer \<Rightarrow> string \<Rightarrow> 'w \<Rightarrow> (string + unit) \<times> 'w" where
  "device_connect bl addr w =
     (case bl_parse_address bl addr of
        Inl e \<Rightarrow> (Inl e, w)
      | Inr a \<Rightarrow>
          (case bl_device bl a w of
             Inl e \<Rightarrow> (Inl e, w)
           | Inr _ \<Rightarrow>
               (case bl_connect bl a w of
                  (Inl e, w1) \<Rightarrow> (Inl e, w1)
                | (Inr _, w1) \<Rightarrow> (Inr (), snd (bl_set_trusted bl a True w1)))))"

definition device_disconnect :: "'w bluer \<Rightarrow> string \<Rightarrow> 'w \<Rightarrow> (string + unit) \<times> 'w" where
  "device_disconnect bl addr w =
     (case bl_parse_address bl addr of
        Inl e \<Rightarrow> (Inl e, w)
      | Inr a \<Rightarrow>
          (case bl_device bl a w of
             Inl e \<Rightarrow> (Inl e, w)
           | Inr _ \<Rightarrow> bl_disconnect bl a w))"

definition device_remove :: "'w bluer \<Rightarrow> string \<Rightarrow> 'w \<Rightarrow> (string + unit) \<times> 'w" where
  "device_remove bl addr w =
     (case bl_parse_address bl addr of
        Inl e \<Rightarrow> (Inl e, w)
      | Inr a \<Rightarrow> bl_remove_device bl a w)"

text \<open>The operations the command loop of Bluetooth uses; it only logs their results.\<close>

definition bluer_dbus :: "'w bluer \<Rightarrow> 'w dbus" where
  "bluer_dbus bl =
     \<lparr>db_connect = (\<lambda>a w. snd (device_connect bl a w)),
      db_disconnect = (\<lambda>a w. snd (device_disconnect bl a w)),
      db_remove = (\<lambda>a w. snd (device_remove bl a w)),
      db_set_alias = (\<lambda>n w. snd (control_set_alias bl n w))\<rparr>"

section \<open>Setting up the service\<close>

text \<open>
  The set-up up to the concurrent tasks: an error, or the adapter's name.  \<open>discover\<close> is
  \<open>start_discovery\<close>, whose failure is only logged, as are those of the adapter operations.
\<close>

definition bluetooth_setup ::
    "'w bluer \<Rightarrow> (string list \<Rightarrow> string) \<Rightarrow> 'w runner \<Rightarrow> ('w \<Rightarrow> 'w) \<Rightarrow> pairing_gate \<Rightarrow> string
      \<Rightarrow> app_handle \<times> 'w \<Rightarrow> (string + string) \<times> app_handle \<times> 'w" where
  "bluetooth_setup bl dbg r discover g name = (\<lambda>(h, w).
     case bl_session bl w of
       (Inl e, w1) \<Rightarrow> (Inl e, h, w1)
     | (Inr _, w1) \<Rightarrow>
         (case bl_default_adapter bl w1 of
            (Inl e, w2) \<Rightarrow> (Inl e, h, w2)
          | (Inr hci, w2) \<Rightarrow>
              (let h' = set_device_name name h;
                   w3 = snd (power_and_alias bl name w2);
                   w4 = snd (set_class_of_device dbg r hci w3);
                   w5 = snd (set_hci_name dbg r hci name w4)
               in case register_pairing_agent bl g w5 of
                    (Inl e, w6) \<Rightarrow> (Inl (''register agent: '' @ e), h', w6)
                  | (Inr _, w6) \<Rightarrow> (Inr hci, h', discover w6))))"

section \<open>Watching devices\<close>

text \<open>What BlueZ says of a device; an answer that fails counts as no.\<close>

record bz_device =
  bd_paired :: bool
  bd_connected :: bool
  bd_name :: "string option"
  bd_icon :: "string option"

datatype watch_phase = NotStarted | Seeding | Following | WatchEnded

text \<open>
  \<open>wk_watched\<close> is the set that stops a second watcher for an address; \<open>wk_live\<close> are the watchers that
  run, and \<open>wk_spawned\<close> records those the task spawned, in order.  \<open>wk_handle\<close> is whether the
  handle of the task is stored.
\<close>

record watch_task =
  wk_phase :: watch_phase
  wk_handle :: bool
  wk_watched :: "string set"
  wk_live :: "string set"
  wk_spawned :: "string list"
  wk_sent :: "bluez_event list"

definition watch_init :: watch_task where
  "watch_init = \<lparr>wk_phase = NotStarted, wk_handle = False, wk_watched = {}, wk_live = {},
                 wk_spawned = [], wk_sent = []\<rparr>"

text \<open>
  The events: the calls; a known address or an added device with what \<open>adapter.device\<close> and the
  device answer; the end of the seeding with whether \<open>adapter.events()\<close> succeeded; and what a running
  watcher sees.
\<close>

datatype watch_event =
    StartDiscovery
  | StopDiscovery
  | Seed string "bz_device option"
  | SeedingDone bool
  | DevAdded string "bz_device option"
  | DevRemoved string
  | AdapterStreamEnded
  | SawConnected string "string option" "string option"
  | SawDisconnected string
  | WatcherEnded string

definition spawn_device_watcher :: "string \<Rightarrow> watch_task \<Rightarrow> watch_task" where
  "spawn_device_watcher a s =
     (if a \<in> wk_watched s then s
      else s\<lparr>wk_watched := insert a (wk_watched s), wk_live := insert a (wk_live s),
             wk_spawned := wk_spawned s @ [a]\<rparr>)"

definition announce :: "string \<Rightarrow> bz_device \<Rightarrow> watch_task \<Rightarrow> watch_task" where
  "announce a d s =
     s\<lparr>wk_sent := wk_sent s @ DeviceAdded a (bd_name d) (bd_icon d)
         # (if bd_connected d then [BzConnected a] else [])\<rparr>"

definition active_device :: "bz_device \<Rightarrow> bool" where
  "active_device d \<longleftrightarrow> bd_paired d \<or> bd_connected d"

text \<open>The end of the task, for whatever reason, drops the set of watchers.\<close>

definition end_watching :: "watch_task \<Rightarrow> watch_task" where
  "end_watching s = s\<lparr>wk_phase := WatchEnded, wk_live := {}\<rparr>"

fun watch_step :: "watch_task \<Rightarrow> watch_event \<Rightarrow> watch_task" where
  "watch_step s StartDiscovery =
     (if wk_handle s then s
      else s\<lparr>wk_phase := Seeding, wk_handle := True, wk_watched := {}, wk_live := {},
             wk_spawned := []\<rparr>)"
| "watch_step s StopDiscovery =
     (if wk_handle s then (end_watching s)\<lparr>wk_handle := False\<rparr> else s)"
| "watch_step s (Seed a dev) =
     (if wk_phase s = Seeding
      then (case dev of
              None \<Rightarrow> s
            | Some d \<Rightarrow> if active_device d then spawn_device_watcher a (announce a d s) else s)
      else s)"
| "watch_step s (SeedingDone ok) =
     (if wk_phase s = Seeding then (if ok then s\<lparr>wk_phase := Following\<rparr> else end_watching s) else s)"
| "watch_step s (DevAdded a dev) =
     (if wk_phase s = Following
      then (case dev of
              None \<Rightarrow> s
            | Some d \<Rightarrow> (let s1 = spawn_device_watcher a s in
                         if active_device d then announce a d s1 else s1))
      else s)"
| "watch_step s (DevRemoved a) =
     (if wk_phase s = Following then s\<lparr>wk_sent := wk_sent s @ [DeviceRemoved a]\<rparr> else s)"
| "watch_step s AdapterStreamEnded = (if wk_phase s = Following then end_watching s else s)"
| "watch_step s (SawConnected a name icon) =
     (if a \<in> wk_live s
      then s\<lparr>wk_sent := wk_sent s @ [DeviceAdded a name icon, BzConnected a]\<rparr> else s)"
| "watch_step s (SawDisconnected a) =
     (if a \<in> wk_live s then s\<lparr>wk_sent := wk_sent s @ [BzDisconnected a]\<rparr> else s)"
| "watch_step s (WatcherEnded a) = s\<lparr>wk_live := wk_live s - {a}\<rparr>"

section \<open>Lemmas\<close>

definition watch_inv :: "watch_task \<Rightarrow> bool" where
  "watch_inv s \<longleftrightarrow> distinct (wk_spawned s) \<and> set (wk_spawned s) = wk_watched s
     \<and> wk_live s \<subseteq> wk_watched s
     \<and> (wk_live s \<noteq> {} \<longrightarrow> wk_phase s = Seeding \<or> wk_phase s = Following)
     \<and> (wk_phase s = Seeding \<or> wk_phase s = Following \<longrightarrow> wk_handle s)"

lemma spawn_inv: "watch_inv s \<Longrightarrow> wk_phase s = Seeding \<or> wk_phase s = Following \<Longrightarrow>
    watch_inv (spawn_device_watcher a s)"
  by (auto simp: watch_inv_def spawn_device_watcher_def)

lemma announce_inv: "watch_inv s \<Longrightarrow> watch_inv (announce a d s)"
  by (simp add: watch_inv_def announce_def)

lemma spawn_announce_keep [simp]:
  "wk_phase (spawn_device_watcher a s) = wk_phase s" "wk_phase (announce a d s) = wk_phase s"
  "wk_handle (spawn_device_watcher a s) = wk_handle s" "wk_handle (announce a d s) = wk_handle s"
  "wk_sent (spawn_device_watcher a s) = wk_sent s" "wk_watched (announce a d s) = wk_watched s"
  "wk_live (announce a d s) = wk_live s"
  by (auto simp: spawn_device_watcher_def announce_def)

lemma watch_inv_step: "watch_inv s \<Longrightarrow> watch_inv (watch_step s e)"
proof (cases e)
  case (Seed a dev)
  then show "watch_inv s \<Longrightarrow> ?thesis"
    by (auto simp: spawn_inv announce_inv split: option.splits)
next
  case (DevAdded a dev)
  then show "watch_inv s \<Longrightarrow> ?thesis"
    by (auto simp: Let_def spawn_inv announce_inv split: option.splits)
qed (auto simp: watch_inv_def end_watching_def)

interpretation watching: machine watch_step watch_inv
  by unfold_locales (rule watch_inv_step)

lemma watch_init_inv: "watch_inv watch_init"
  by (simp add: watch_inv_def watch_init_def)

text \<open>What the manager shows of a device, when it receives everything that was sent.\<close>

definition shown :: "string \<Rightarrow> watch_task \<Rightarrow> device_state option" where
  "shown a s = state_of a (bt_mgr (run bt_step bt_start (map BtEvent (wk_sent s))))"

lemma takeWhile_BtEvent [simp]: "takeWhile (\<lambda>e. \<not> ends_task e) (map BtEvent evs) = map BtEvent evs"
  by (auto simp: takeWhile_eq_all_conv ends_task_def)

lemma shown_spec: "shown a s = foldl (device_spec a) None (map BtEvent (wk_sent s))"
  unfolding shown_def using state_of_run[OF bt_start_inv, of a "map BtEvent (wk_sent s)"]
  by (simp add: bt_start_def state_of_def)

definition spec_all :: "string \<Rightarrow> device_state option \<Rightarrow> bluez_event list \<Rightarrow> device_state option" where
  "spec_all a st evs = foldl (device_spec a) st (map BtEvent evs)"

lemma shown_append: "wk_sent t = wk_sent s @ evs \<Longrightarrow> shown a t = spec_all a (shown a s) evs"
  by (simp add: shown_spec spec_all_def)

lemma shown_same: "wk_sent t = wk_sent s \<Longrightarrow> shown a t = shown a s"
  by (simp add: shown_def)

lemma shown_announce:
  "shown a (announce b d s) = spec_all a (shown a s)
     (DeviceAdded b (bd_name d) (bd_icon d) # (if bd_connected d then [BzConnected b] else []))"
  by (rule shown_append) (simp add: announce_def)

text \<open>What matters for one device, and the events that do.\<close>

definition view :: "string \<Rightarrow> watch_task \<Rightarrow> watch_phase \<times> bool \<times> bool \<times> bool \<times> device_state option" where
  "view a s = (wk_phase s, wk_handle s, a \<in> wk_watched s, a \<in> wk_live s, shown a s)"

fun concerns :: "string \<Rightarrow> watch_event \<Rightarrow> bool" where
  "concerns a (Seed b _) = (a = b)"
| "concerns a (DevAdded b _) = (a = b)"
| "concerns a (DevRemoved b) = (a = b)"
| "concerns a (SawConnected b _ _) = (a = b)"
| "concerns a (SawDisconnected b) = (a = b)"
| "concerns a (WatcherEnded b) = (a = b)"
| "concerns a _ = True"

lemma view_spawn:
  "view a (spawn_device_watcher b s) =
     (wk_phase s, wk_handle s, a = b \<or> a \<in> wk_watched s,
      (if a = b \<and> b \<notin> wk_watched s then True else a \<in> wk_live s), shown a s)"
  by (auto simp: view_def spawn_device_watcher_def shown_def)

lemma view_announce:
  "view a (announce b d s) = (wk_phase s, wk_handle s, a \<in> wk_watched s, a \<in> wk_live s,
     spec_all a (shown a s)
       (DeviceAdded b (bd_name d) (bd_icon d) # (if bd_connected d then [BzConnected b] else [])))"
  by (simp add: view_def shown_announce)

lemma shown_spawn [simp]: "shown a (spawn_device_watcher b s) = shown a s"
  by (rule shown_same) simp

lemma shown_sent_update [simp]:
  "shown a (s\<lparr>wk_sent := wk_sent s @ evs\<rparr>) = spec_all a (shown a s) evs"
  by (rule shown_append) simp

lemma shown_field_updates [simp]:
  "shown a (s\<lparr>wk_phase := p\<rparr>) = shown a s" "shown a (s\<lparr>wk_handle := b\<rparr>) = shown a s"
  "shown a (s\<lparr>wk_live := X\<rparr>) = shown a s" "shown a (s\<lparr>wk_watched := Y\<rparr>) = shown a s"
  "shown a (s\<lparr>wk_spawned := Z\<rparr>) = shown a s"
  by (rule shown_same; simp)+

lemma spec_all_simps [simp]:
  "spec_all a st [] = st"
  "spec_all a st (e # evs) = spec_all a (device_spec a st (BtEvent e)) evs"
  by (simp_all add: spec_all_def)

lemma view_other: "\<not> concerns a e \<Longrightarrow> view a (watch_step s e) = view a s"
  by (cases e) (auto simp: view_announce view_spawn Let_def view_def shown_announce spawn_device_watcher_def
      split: option.splits)

lemma view_cong:
  assumes "view a s = view a t"
  shows "concerns a e \<Longrightarrow> view a (watch_step s e) = view a (watch_step t e)"
proof -
  have eqs: "wk_phase s = wk_phase t" "wk_handle s = wk_handle t" "a \<in> wk_watched s \<longleftrightarrow> a \<in> wk_watched t"
    "a \<in> wk_live s \<longleftrightarrow> a \<in> wk_live t" "shown a s = shown a t"
    using assms by (simp_all add: view_def)
  show "concerns a e \<Longrightarrow> view a (watch_step s e) = view a (watch_step t e)"
    using eqs by (cases e) (auto simp: view_announce view_spawn Let_def view_def shown_announce
        end_watching_def spawn_device_watcher_def split: option.splits)
qed

lemma view_filter:
  "view a s = view a t \<Longrightarrow> view a (run watch_step s es) = view a (run watch_step t (filter (concerns a) es))"
proof (induction es arbitrary: s t)
  case (Cons e es)
  show ?case
  proof (cases "concerns a e")
    case True
    then show ?thesis using Cons.IH[OF view_cong[OF Cons.prems True]] by simp
  next
    case False
    then show ?thesis using Cons.IH[of "watch_step s e" t] view_other[OF False, of s] Cons.prems by simp
  qed
qed simp

text \<open>An event that brings a device to light.\<close>

fun surfaces :: "string \<Rightarrow> watch_event \<Rightarrow> bool" where
  "surfaces a (Seed b (Some d)) = (a = b \<and> active_device d)"
| "surfaces a (DevAdded b (Some d)) = (a = b \<and> active_device d)"
| "surfaces a (SawConnected b _ _) = (a = b)"
| "surfaces a (SawDisconnected b) = (a = b)"
| "surfaces a _ = False"

lemma hidden_step: "\<not> surfaces a e \<Longrightarrow> shown a s = None \<Longrightarrow> shown a (watch_step s e) = None"
  by (cases e) (auto simp: shown_announce Let_def end_watching_def split: option.splits)

lemma hidden_run:
  "list_all (\<lambda>e. \<not> surfaces a e) es \<Longrightarrow> shown a s = None \<Longrightarrow> shown a (run watch_step s es) = None"
  by (induction es arbitrary: s) (auto simp: hidden_step)

lemma shown_init: "shown a watch_init = None"
  by (simp add: shown_spec watch_init_def)

lemma ended_step:
  "wk_phase s = WatchEnded \<and> wk_handle s \<and> wk_live s = {} \<Longrightarrow> e \<noteq> StopDiscovery \<Longrightarrow>
     (let t = watch_step s e in wk_phase t = WatchEnded \<and> wk_handle t \<and> wk_live t = {} \<and> wk_sent t = wk_sent s)"
  by (cases e) (auto simp: Let_def)

lemma ended_run:
  "wk_phase s = WatchEnded \<and> wk_handle s \<and> wk_live s = {} \<Longrightarrow> StopDiscovery \<notin> set es \<Longrightarrow>
     wk_sent (run watch_step s es) = wk_sent s"
proof (induction es arbitrary: s)
  case (Cons e es)
  have "e \<noteq> StopDiscovery" using Cons.prems(2) by auto
  from ended_step[OF Cons.prems(1) this] Cons show ?case by (simp add: Let_def)
qed simp

section \<open>Properties\<close>

text \<open>
  C37 (devices do not get in each other's way).  What the manager shows of a device, after any history of
  BlueZ answers, watchers and restarts, is what it would show if nothing had happened to any
  other device; and no address is watched twice.
\<close>

theorem devices_are_independent:
  "(let s = run watch_step watch_init es in
     shown a s = shown a (run watch_step watch_init (filter (concerns a) es))
     \<and> distinct (wk_spawned s) \<and> wk_live s \<subseteq> set (wk_spawned s))"
proof -
  have "watch_inv (run watch_step watch_init es)" by (rule watching.run_inv[OF watch_init_inv])
  moreover have "shown a (run watch_step watch_init es)
      = shown a (run watch_step watch_init (filter (concerns a) es))"
    using view_filter[of a watch_init watch_init es] by (simp add: view_def)
  ultimately show ?thesis by (simp add: Let_def watch_inv_def)
qed

text \<open>
  What is shown of a device.  A device that BlueZ never reported as paired or connected is never
  shown; a connection that a running watcher sees is shown as connected, also for a phone that was
  unknown until then, a disconnection as disconnected, and a removal takes the device away.
\<close>

theorem watched_devices_are_shown:
  "(let s = run watch_step watch_init es in
     (if list_all (\<lambda>e. \<not> surfaces a e) es then shown a s = None else True)
     \<and> (if a \<in> wk_live s
        then shown a (watch_step s (SawConnected a n i)) = Some Connected
          \<and> shown a (watch_step s (SawDisconnected a)) = Some Disconnected
        else wk_sent (watch_step s (SawConnected a n i)) = wk_sent s)
     \<and> (if wk_phase s = Following then shown a (watch_step s (DevRemoved a)) = None else True))"
  using hidden_run[of a es watch_init] shown_init by (simp add: Let_def)

text \<open>
  Setting up is best effort.  It fails only when there is no session, no adapter or no agent; the
  failures of powering, naming and classing the adapter never stop it; and the name is
  published as soon as there is an adapter, also when the agent then fails.
\<close>

theorem bluetooth_setup_outcome:
  "(case bluetooth_setup bl dbg r discover g name (h, w) of (res, h', w') \<Rightarrow>
      (case bl_session bl w of
         (Inl e, _) \<Rightarrow> res = Inl e \<and> h' = h
       | (Inr _, w1) \<Rightarrow>
           (case bl_default_adapter bl w1 of
              (Inl e, _) \<Rightarrow> res = Inl e \<and> h' = h
            | (Inr hci, w2) \<Rightarrow>
                (let w5 = snd (set_hci_name dbg r hci name (snd (set_class_of_device dbg r hci
                            (snd (power_and_alias bl name w2)))))
                 in h' = set_device_name name h
                    \<and> (case fst (bl_register_agent bl w5) of
                         Inl e \<Rightarrow> res = Inl (''register agent: '' @ e)
                       | Inr _ \<Rightarrow> res = Inr hci \<and> w' = discover (snd (bl_register_agent bl w5)))))))"
  by (simp add: bluetooth_setup_def register_pairing_agent_def Let_def split: prod.splits sum.splits)

text \<open>
  The gate says what the window says, but it does not guard anything: the registration of the agent
  is the same with an open and a closed gate.
\<close>

theorem agent_ignores_gate:
  "authorized (gate_of (run (pairing_step okc) (pairing_start okc d p) es))
      = (pw_phase (run (pairing_step okc) (pairing_start okc d p) es) = PwOpen)
   \<and> register_pairing_agent bl g w = register_pairing_agent bl g' w"
  using window.run_inv[OF pairing_start_ok, of okc d p es]
  by (simp add: authorized_def gate_of_def window_ok_def register_pairing_agent_def)

text \<open>
  When \<open>adapter.events()\<close> fails, watching ends for good: the watchers of the seeded devices go with
  the task, and as its handle stays stored, starting again does nothing.
\<close>

theorem failed_events_end_watching:
  assumes "wk_phase s = Seeding" "wk_handle s" "StopDiscovery \<notin> set es"
  shows "wk_sent (run watch_step s (SeedingDone False # es)) = wk_sent s"
  using ended_run[of "watch_step s (SeedingDone False)" es] assms by (simp add: end_watching_def)

text \<open>
  A forgotten device is not watched again.  Its watcher ends when BlueZ drops the device, but the
  address stays in the set of watched ones: when it is paired anew, neither its appearance (it is not
  yet connected) nor the connection that follows is seen, until something restarts the discovery.
\<close>

definition unwatched :: "string \<Rightarrow> watch_task \<Rightarrow> bool" where
  "unwatched a s \<longleftrightarrow> wk_handle s \<and> (wk_phase s = Following \<or> wk_phase s = WatchEnded)
     \<and> a \<in> wk_watched s \<and> a \<notin> wk_live s \<and> shown a s = None"

fun reappears :: "string \<Rightarrow> watch_event \<Rightarrow> bool" where
  "reappears a StopDiscovery = True"
| "reappears a (DevAdded b (Some d)) = (a = b \<and> active_device d)"
| "reappears a _ = False"

lemma unwatched_step: "\<not> reappears a e \<Longrightarrow> unwatched a s \<Longrightarrow> unwatched a (watch_step s e)"
  by (cases e) (auto simp: unwatched_def shown_announce Let_def end_watching_def
      spawn_device_watcher_def split: option.splits)

lemma unwatched_run:
  "list_all (\<lambda>e. \<not> reappears a e) es \<Longrightarrow> unwatched a s \<Longrightarrow> unwatched a (run watch_step s es)"
  by (induction es arbitrary: s) (auto simp: unwatched_step)

theorem forgotten_device_is_lost:
  assumes "wk_handle s" "wk_phase s = Following" "a \<in> wk_watched s"
    "list_all (\<lambda>e. \<not> reappears a e) es"
  shows "shown a (run watch_step s (DevRemoved a # WatcherEnded a # es)) = None"
proof -
  have "unwatched a (run watch_step s [DevRemoved a, WatcherEnded a])"
    using assms by (simp add: unwatched_def)
  from unwatched_run[OF assms(4) this] show ?thesis by (simp add: unwatched_def)
qed

end
