(* ===== verification/BtService.thy ===== *)
theory BtService
  imports BluezGlue
begin

text \<open>
  The Bluetooth service as a whole (\<open>run_bluetooth\<close> of src/src/bluetooth/service.rs): the set-up, then the
  pairing window, the device manager, the bridge to the shared state and the command loop side by
  side, fed by the watcher of BluezGlue.

  The loops are the step functions of Pairing and Bluetooth.  Between watcher and manager lies a
  broadcast channel: \<open>bs_next\<close> is the place of the manager's receiver in all that was sent, and a
  receiver that is more than the capacity behind loses the oldest events.  Between manager and
  bridge lies a watch channel, of which the bridge sees the last value: \<open>bs_seen\<close> is the number of
  the last value it saw.  \<open>bs_received\<close> records what the manager received; no code reads it.
\<close>

record 'w service_env =
  se_bluer :: "'w bluer"
  se_debug :: "string list \<Rightarrow> string"
  se_runner :: "'w runner"
  se_save :: "string \<Rightarrow> 'w \<Rightarrow> 'w"
  se_adapter :: "nat \<Rightarrow> bool"

record 'w bt_service =
  bs_watch :: watch_task
  bs_next :: nat
  bs_mgr :: bt_task
  bs_received :: "bt_event list"
  bs_seen :: nat
  bs_bridge_done :: bool
  bs_window :: pairing
  bs_commands_done :: bool
  bs_hci :: string
  bs_handle :: app_handle
  bs_world :: 'w
  bs_returned :: bool

definition EVENTS_CAPACITY :: nat where "EVENTS_CAPACITY = 64"

datatype service_event =
    SvWatch watch_event
  | SvDeliver
  | SvProbe "io_error + command_output"
  | SvBridge
  | SvCommand bt_command
  | SvCommandsClosed
  | SvPairing pairing_event
  | SvShutdown

definition receive :: "bt_event \<Rightarrow> 'w bt_service \<Rightarrow> 'w bt_service" where
  "receive e s = s\<lparr>bs_mgr := bt_step (bs_mgr s) e, bs_received := bs_received s @ [e]\<rparr>"

text \<open>The manager takes the next event, or learns how far it lagged behind.\<close>

definition deliver :: "'w bt_service \<Rightarrow> 'w bt_service" where
  "deliver s =
     (let sent = wk_sent (bs_watch s) in
      if bt_done (bs_mgr s) \<or> length sent \<le> bs_next s then s
      else if EVENTS_CAPACITY < length sent - bs_next s
      then receive BtLagged (s\<lparr>bs_next := length sent - EVENTS_CAPACITY\<rparr>)
      else receive (BtEvent (sent ! bs_next s)) (s\<lparr>bs_next := Suc (bs_next s)\<rparr>))"

text \<open>The bridge sees the last snapshot, or that the manager is gone.\<close>

definition feed_bridge :: "bridge_event \<Rightarrow> 'w bt_service \<Rightarrow> 'w bt_service" where
  "feed_bridge e s =
     (case bridge_step (bs_handle s, bs_bridge_done s) e of
        (h, stopped) \<Rightarrow> s\<lparr>bs_handle := h, bs_bridge_done := stopped\<rparr>)"

definition bridge :: "'w bt_service \<Rightarrow> 'w bt_service" where
  "bridge s =
     (if bs_bridge_done s then s
      else if bs_seen s < length (bt_sent (bs_mgr s))
      then feed_bridge (SnapChanged (last (bt_sent (bs_mgr s))))
             (s\<lparr>bs_seen := length (bt_sent (bs_mgr s))\<rparr>)
      else if bt_done (bs_mgr s) then feed_bridge ProducerGone s
      else s)"

definition service_command :: "'w service_env \<Rightarrow> bt_command \<Rightarrow> 'w bt_service \<Rightarrow> 'w bt_service" where
  "service_command E c s =
     (if bs_commands_done s then s
      else case handle_bt_command (bluer_dbus (se_bluer E)) (se_debug E) (se_runner E) (se_save E)
                  (bs_hci s) c (bs_handle s, bs_world s) of
          (h, w) \<Rightarrow> s\<lparr>bs_handle := h, bs_world := w\<rparr>)"

definition shut_down :: "'w service_env \<Rightarrow> 'w bt_service \<Rightarrow> 'w bt_service" where
  "shut_down E s =
     feed_bridge BridgeShutdown
       ((receive BtShutdown s)\<lparr>bs_window := pairing_step (se_adapter E) (bs_window s) PwShutdown,
          bs_commands_done := True\<rparr>)"

text \<open>The service returns when all four loops have; the watcher is a task of its own and goes on.\<close>

definition joined :: "'w bt_service \<Rightarrow> bool" where
  "joined s \<longleftrightarrow> pw_phase (bs_window s) = PwReturned \<and> bt_done (bs_mgr s) \<and> bs_bridge_done s
     \<and> bs_commands_done s"

definition loops :: "'w service_env \<Rightarrow> 'w bt_service \<Rightarrow> service_event \<Rightarrow> 'w bt_service" where
  "loops E s e =
     (case e of
        SvWatch x \<Rightarrow> s
      | SvDeliver \<Rightarrow> deliver s
      | SvProbe res \<Rightarrow> if bt_done (bs_mgr s) then s else receive (BtProbe res) s
      | SvBridge \<Rightarrow> bridge s
      | SvCommand c \<Rightarrow> service_command E c s
      | SvCommandsClosed \<Rightarrow> s\<lparr>bs_commands_done := True\<rparr>
      | SvPairing x \<Rightarrow> s\<lparr>bs_window := pairing_step (se_adapter E) (bs_window s) x\<rparr>
      | SvShutdown \<Rightarrow> shut_down E s)"

definition service_step :: "'w service_env \<Rightarrow> 'w bt_service \<Rightarrow> service_event \<Rightarrow> 'w bt_service" where
  "service_step E s e =
     (case e of
        SvWatch x \<Rightarrow> s\<lparr>bs_watch := watch_step (bs_watch s) x\<rparr>
      | _ \<Rightarrow> if bs_returned s then s
            else (let s' = loops E s e in s'\<lparr>bs_returned := joined s'\<rparr>))"

text \<open>
  The start, given what the adapter's switches were before.  The receiver of the manager is there
  before watching begins, so that it misses nothing.
\<close>

definition service_start ::
    "'w service_env \<Rightarrow> bool \<Rightarrow> bool \<Rightarrow> string \<Rightarrow> app_handle \<times> 'w \<Rightarrow> string + 'w bt_service" where
  "service_start E discoverable pairable name hw =
     (case bluetooth_setup (se_bluer E) (se_debug E) (se_runner E) id \<lparr>gate_open = False\<rparr> name hw of
        (Inl e, _) \<Rightarrow> Inl e
      | (Inr hci, h, w) \<Rightarrow>
          Inr \<lparr>bs_watch = watch_step watch_init StartDiscovery, bs_next = 0, bs_mgr = bt_start,
               bs_received = [], bs_seen = 0, bs_bridge_done = False,
               bs_window = pairing_start (se_adapter E) discoverable pairable,
               bs_commands_done = False, bs_hci = hci, bs_handle = h, bs_world = w,
               bs_returned = False\<rparr>)"

section \<open>Lemmas\<close>

lemmas service_defs = receive_def deliver_def feed_bridge_def bridge_def service_command_def
  shut_down_def loops_def

fun_cases handle_bt_command_pairE: "handle_bt_command db dbg r save hci c (h, w) = (h', w')"

lemma handle_bt_command_devices:
  "handle_bt_command db dbg r save hci c (h, w) = (h', w') \<Longrightarrow>
     st_bluetooth_devices (app h') = st_bluetooth_devices (app h)"
  by (elim handle_bt_command_pairE) (simp_all add: set_device_name_def publish_def)

lemma bt_sent_grows: "\<exists>xs. bt_sent (bt_step m e) = bt_sent m @ xs"
  by (cases e) (auto simp: bt_send_def split: sum.splits)

definition service_inv :: "'w service_env \<Rightarrow> 'w bt_service \<Rightarrow> bool" where
  "service_inv E s \<longleftrightarrow> bs_mgr s = run bt_step bt_start (bs_received s)
     \<and> bs_seen s \<le> length (bt_sent (bs_mgr s))
     \<and> st_bluetooth_devices (app (bs_handle s)) =
         (if bs_seen s = 0 then [] else device_infos_from (bt_sent (bs_mgr s) ! (bs_seen s - 1)))
     \<and> window_ok (se_adapter E) (bs_window s)"

lemma seen_le: "service_inv E s \<Longrightarrow> bs_seen s \<le> length (bt_sent (bs_mgr s))"
  unfolding service_inv_def by (elim conjE)

lemma receive_inv: "service_inv E s \<Longrightarrow> service_inv E (receive e s)"
  using bt_sent_grows[of "bs_mgr s" e]
  by (auto simp: service_inv_def receive_def nth_append)

lemma service_inv_update [simp]:
  "service_inv E (s\<lparr>bs_next := n\<rparr>) = service_inv E s"
  "service_inv E (s\<lparr>bs_returned := b\<rparr>) = service_inv E s"
  "service_inv E (s\<lparr>bs_watch := wt\<rparr>) = service_inv E s"
  "service_inv E (s\<lparr>bs_commands_done := b\<rparr>) = service_inv E s"
  by (simp_all add: service_inv_def)

lemma deliver_inv: "service_inv E s \<Longrightarrow> service_inv E (deliver s)"
  by (auto simp: deliver_def Let_def intro: receive_inv)

lemma bridge_inv: "service_inv E s \<Longrightarrow> service_inv E (bridge s)"
  by (auto simp: service_inv_def bridge_def feed_bridge_def set_bluetooth_devices_def publish_def
      last_conv_nth)

lemma window_inv:
  "service_inv E s \<Longrightarrow> service_inv E (s\<lparr>bs_window := pairing_step (se_adapter E) (bs_window s) x\<rparr>)"
  using window.step_inv[of "se_adapter E" "bs_window s" x]
  by (auto simp: service_inv_def simp del: pairing_step.simps)

lemma bridge_shutdown_inv: "service_inv E s \<Longrightarrow> service_inv E (feed_bridge BridgeShutdown s)"
  by (auto simp: feed_bridge_def service_inv_def)

lemma shut_down_inv: "service_inv E s \<Longrightarrow> service_inv E (shut_down E s)"
  using window_inv[OF receive_inv, of E s BtShutdown PwShutdown]
  by (simp add: shut_down_def bridge_shutdown_inv receive_def del: pairing_step.simps bt_step.simps)

lemma loops_inv: "service_inv E s \<Longrightarrow> service_inv E (loops E s e)"
proof (cases e)
  case (SvCommand c)
  then show "service_inv E s \<Longrightarrow> ?thesis"
    by (auto simp: loops_def service_command_def service_inv_def handle_bt_command_devices
        split: prod.split)
next
  case (SvPairing x)
  then show "service_inv E s \<Longrightarrow> ?thesis"
    by (simp add: loops_def window_inv del: pairing_step.simps)
qed (auto simp: loops_def deliver_inv bridge_inv receive_inv shut_down_inv)

lemma service_step_inv: "service_inv E s \<Longrightarrow> service_inv E (service_step E s e)"
  by (cases e) (auto simp: service_step_def loops_inv Let_def)

interpretation service: machine "service_step E" "service_inv E" for E
  by unfold_locales (rule service_step_inv)

lemma service_start_inv:
  "service_start E d p name (h, w) = Inr s \<Longrightarrow> st_bluetooth_devices (app h) = [] \<Longrightarrow> service_inv E s"
  by (auto simp: service_start_def bluetooth_setup_def Let_def service_inv_def set_device_name_def
      publish_def pairing_start_ok split: prod.splits sum.splits)

text \<open>Reading a device off the published list.\<close>

definition listed :: "string \<Rightarrow> device_info list \<Rightarrow> string option" where
  "listed a ds = map_option di_state (find (\<lambda>i. di_addr i = a) ds)"

lemma listed_infos:
  "list_all entry_ok m \<Longrightarrow>
     listed a (device_infos_from (bt_snapshot m)) = map_option device_state_as_str (state_of a m)"
  by (induction m) (auto simp: listed_def device_infos_from_def bt_snapshot_def state_of_def entry_ok_def)

lemma caught_up_listed:
  assumes "service_inv E s" "bs_seen s = length (bt_sent (bs_mgr s))"
  shows "listed a (st_bluetooth_devices (app (bs_handle s)))
    = map_option device_state_as_str (state_of a (bt_mgr (bs_mgr s)))"
proof -
  have "bt_inv (bs_mgr s)" using assms(1) manager.run_inv[OF bt_start_inv] by (simp add: service_inv_def)
  then have ok: "list_all entry_ok (bt_mgr (bs_mgr s))"
    "if bt_sent (bs_mgr s) = [] then bt_mgr (bs_mgr s) = []
     else last (bt_sent (bs_mgr s)) = bt_snapshot (bt_mgr (bs_mgr s))"
    by (auto simp: bt_inv_def mgr_ok_def)
  then have "st_bluetooth_devices (app (bs_handle s)) = device_infos_from (bt_snapshot (bt_mgr (bs_mgr s)))"
    using assms by (auto simp: service_inv_def last_conv_nth device_infos_from_def bt_snapshot_def
        split: if_splits)
  then show ?thesis using listed_infos[OF ok(1)] by simp
qed

lemma run_state_of:
  "service_inv E s \<Longrightarrow> state_of a (bt_mgr (bs_mgr s))
     = foldl (device_spec a) None (takeWhile (\<lambda>e. \<not> ends_task e) (bs_received s))"
  using state_of_run[OF bt_start_inv, of a "bs_received s"]
  by (simp add: service_inv_def bt_start_def state_of_def)

text \<open>One connection that a watcher sees, on its way to the shared state.\<close>

definition in_step :: "'w bt_service \<Rightarrow> bool" where
  "in_step s \<longleftrightarrow> \<not> bs_returned s \<and> \<not> bt_done (bs_mgr s) \<and> \<not> bs_bridge_done s
     \<and> bs_next s = length (wk_sent (bs_watch s))"

lemma deliver_next:
  "\<not> bs_returned s \<Longrightarrow> \<not> bt_done (bs_mgr s) \<Longrightarrow> \<not> bs_bridge_done s \<Longrightarrow>
   wk_sent (bs_watch s) = take (bs_next s) (wk_sent (bs_watch s)) @ ev # rest \<Longrightarrow>
   bs_next s \<le> length (wk_sent (bs_watch s)) \<Longrightarrow> length rest < EVENTS_CAPACITY \<Longrightarrow>
     service_step E s SvDeliver
       = receive (BtEvent ev) (s\<lparr>bs_next := Suc (bs_next s), bs_returned := False\<rparr>)"
proof -
  assume a: "\<not> bs_returned s" "\<not> bt_done (bs_mgr s)" "\<not> bs_bridge_done s"
    and w: "wk_sent (bs_watch s) = take (bs_next s) (wk_sent (bs_watch s)) @ ev # rest"
      "bs_next s \<le> length (wk_sent (bs_watch s))" "length rest < EVENTS_CAPACITY"
  have len: "length (wk_sent (bs_watch s)) = bs_next s + Suc (length rest)"
    using arg_cong[OF w(1), of length] w(2) by simp
  then have nth: "wk_sent (bs_watch s) ! bs_next s = ev"
    using arg_cong[OF w(1), of "\<lambda>xs. xs ! bs_next s"] by (simp add: nth_append)
  have "deliver s = receive (BtEvent ev) (s\<lparr>bs_next := Suc (bs_next s)\<rparr>)"
    using a len nth w(3) by (simp add: deliver_def Let_def)
  then show ?thesis
    using a by (simp add: service_step_def loops_def joined_def receive_def)
qed

lemma received_mgr [simp]:
  "bs_mgr (receive e s) = bt_step (bs_mgr s) e" "bs_watch (receive e s) = bs_watch s"
  "bs_next (receive e s) = bs_next s" "bs_bridge_done (receive e s) = bs_bridge_done s"
  "bs_returned (receive e s) = bs_returned s" "bs_seen (receive e s) = bs_seen s"
  by (simp_all add: receive_def)

lemma bridge_catches_up:
  assumes "\<not> bs_returned s" "\<not> bs_bridge_done s" "bs_seen s < length (bt_sent (bs_mgr s))"
  shows "bs_seen (service_step E s SvBridge) = length (bt_sent (bs_mgr s))
    \<and> bs_mgr (service_step E s SvBridge) = bs_mgr s
    \<and> last (bus (bs_handle (service_step E s SvBridge)))
        = BluetoothDevices (st_bluetooth_devices (app (bs_handle (service_step E s SvBridge))))"
  using assms by (simp add: service_step_def loops_def bridge_def feed_bridge_def Let_def
      set_bluetooth_devices_def publish_def)

lemma connection_reaches_manager:
  assumes "in_step s" "a \<in> wk_live (bs_watch s)"
  shows "(let t = run (service_step E) s [SvWatch (SawConnected a n i), SvDeliver, SvDeliver] in
    \<not> bs_returned t \<and> \<not> bs_bridge_done t \<and> bs_seen t = bs_seen s
    \<and> bs_mgr t = bt_step (bt_step (bs_mgr s) (BtEvent (DeviceAdded a n i))) (BtEvent (BzConnected a)))"
proof -
  let ?DA = "DeviceAdded a n i" and ?BC = "BzConnected a" and ?L = "wk_sent (bs_watch s)"
  obtain s1 where s1: "s1 = service_step E s (SvWatch (SawConnected a n i))" by blast
  have 1: "\<not> bs_returned s1" "\<not> bt_done (bs_mgr s1)" "\<not> bs_bridge_done s1" "bs_next s1 = length ?L"
    "wk_sent (bs_watch s1) = ?L @ [?DA, ?BC]" "bs_mgr s1 = bs_mgr s" "bs_seen s1 = bs_seen s"
    using assms by (simp_all add: s1 service_step_def in_step_def)
  obtain s2 where s2: "s2 = service_step E s1 SvDeliver" by blast
  have "s2 = receive (BtEvent ?DA) (s1\<lparr>bs_next := Suc (bs_next s1), bs_returned := False\<rparr>)"
    using deliver_next[of s1 ?DA "[?BC]" E] 1 by (simp add: s2 EVENTS_CAPACITY_def)
  then have 2: "\<not> bs_returned s2" "\<not> bt_done (bs_mgr s2)" "\<not> bs_bridge_done s2"
    "bs_next s2 = Suc (length ?L)" "wk_sent (bs_watch s2) = ?L @ [?DA, ?BC]"
    "bs_mgr s2 = bt_step (bs_mgr s) (BtEvent ?DA)" "bs_seen s2 = bs_seen s"
    using 1 by (simp_all add: bt_send_def)
  have "service_step E s2 SvDeliver
      = receive (BtEvent ?BC) (s2\<lparr>bs_next := Suc (bs_next s2), bs_returned := False\<rparr>)"
    using deliver_next[of s2 ?BC "[]" E] 2 by (simp add: EVENTS_CAPACITY_def)
  then show ?thesis using 2 by (simp add: Let_def flip: s1 s2 del: bt_step.simps)
qed

section \<open>On the shared handle\<close>

definition bs_on :: "app_handle \<Rightarrow> 'w bt_service \<Rightarrow> 'w bt_service" where
  "bs_on h s = s\<lparr>bs_handle := h\<rparr>"

lemma bs_on_simps [simp]:
  "bs_watch (bs_on h s) = bs_watch s" "bs_next (bs_on h s) = bs_next s" "bs_mgr (bs_on h s) = bs_mgr s"
  "bs_received (bs_on h s) = bs_received s" "bs_seen (bs_on h s) = bs_seen s"
  "bs_bridge_done (bs_on h s) = bs_bridge_done s" "bs_window (bs_on h s) = bs_window s"
  "bs_commands_done (bs_on h s) = bs_commands_done s" "bs_hci (bs_on h s) = bs_hci s"
  "bs_world (bs_on h s) = bs_world s" "bs_returned (bs_on h s) = bs_returned s"
  "bs_handle (bs_on h s) = h" "bs_on h (bs_on h' s) = bs_on h s" "bs_on (bs_handle s) s = s"
  by (simp_all add: bs_on_def)

text \<open>The bridge publishes the devices and a command the name; nothing else is written.\<close>

definition service_writes :: "'w bt_service \<Rightarrow> service_event \<Rightarrow> system_event list" where
  "service_writes s e =
     (case e of
        SvBridge \<Rightarrow>
          if \<not> bs_bridge_done s \<and> bs_seen s < length (bt_sent (bs_mgr s))
          then [BluetoothDevices (device_infos_from (last (bt_sent (bs_mgr s))))] else []
      | SvCommand (BtSetName n) \<Rightarrow> if bs_commands_done s then [] else [DeviceNameChanged n]
      | _ \<Rightarrow> [])"

lemma loops_on: "loops E (bs_on h s) e = bs_on (fold commit (service_writes s e) h) (loops E s e)"
proof (cases e)
  case (SvCommand c)
  then show ?thesis
    by (cases c) (simp_all add: loops_def service_command_def service_writes_def bs_on_def)
next
  case SvBridge
  then show ?thesis
    by (simp add: loops_def bridge_def feed_bridge_def service_writes_def bs_on_def)
next
  case SvDeliver
  then show ?thesis
    by (simp add: loops_def deliver_def receive_def service_writes_def bs_on_def Let_def del: bt_step.simps)
next
  case SvShutdown
  then show ?thesis
    by (simp add: loops_def shut_down_def receive_def feed_bridge_def service_writes_def bs_on_def
        del: bt_step.simps pairing_step.simps)
qed (simp_all add: loops_def receive_def service_writes_def bs_on_def del: bt_step.simps pairing_step.simps)

lemma bs_on_updates:
  "(bs_on h s)\<lparr>bs_returned := b\<rparr> = bs_on h (s\<lparr>bs_returned := b\<rparr>)"
  "(bs_on h s)\<lparr>bs_watch := wt\<rparr> = bs_on h (s\<lparr>bs_watch := wt\<rparr>)"
  by (simp_all add: bs_on_def)

lemma joined_on: "joined (bs_on h s) = joined s"
  by (simp add: joined_def)

lemma step_of_loops:
  "\<nexists>x. e = SvWatch x \<Longrightarrow>
   service_step E s e = (if bs_returned s then s else (loops E s e)\<lparr>bs_returned := joined (loops E s e)\<rparr>)"
  by (cases e) (simp_all add: service_step_def Let_def)

lemma service_step_on:
  "service_step E (bs_on h s) e =
     bs_on (fold commit (if bs_returned s then [] else service_writes s e) h) (service_step E s e)"
proof (cases "\<exists>x. e = SvWatch x")
  case True
  then obtain x where e: "e = SvWatch x" by blast
  have "service_writes s e = []" by (simp add: e service_writes_def)
  moreover have "service_step E t e = t\<lparr>bs_watch := watch_step (bs_watch t) x\<rparr>" for t
    by (simp only: e service_step_def service_event.case)
  ultimately show ?thesis by (simp only: if_cancel fold_simps bs_on_simps bs_on_updates)
next
  case False
  then show ?thesis
    by (simp only: step_of_loops[OF False] bs_on_simps loops_on joined_on bs_on_updates fold_simps
        if_True if_False split: if_split) simp
qed

interpretation service_user: handle_user "service_step E" bs_handle bs_on
    "\<lambda>a. (st_bluetooth_devices a, st_device_name a)" BluetoothTask for E
proof unfold_locales
  fix s :: "'a bt_service" and e ev and h h' :: app_handle
  have "\<forall>ev \<in> set (service_writes s e). writer_of ev = BluetoothTask"
    by (auto simp: service_writes_def split: service_event.split bt_command.split)
  then show "\<exists>evs. (\<forall>h. (st_bluetooth_devices (app h), st_device_name (app h))
        = (st_bluetooth_devices (app (bs_handle s)), st_device_name (app (bs_handle s))) \<longrightarrow>
        service_step E (bs_on h s) e = bs_on (fold commit evs h) (service_step E s e))
      \<and> (\<forall>ev \<in> set evs. writer_of ev = BluetoothTask)"
    using service_step_on[of E _ s e] by (metis empty_iff list.set(1))
  show "writer_of ev = BluetoothTask \<Longrightarrow>
      (st_bluetooth_devices (app h), st_device_name (app h)) = (st_bluetooth_devices (app h'), st_device_name (app h'))
      \<Longrightarrow> (st_bluetooth_devices (app (commit ev h)), st_device_name (app (commit ev h)))
        = (st_bluetooth_devices (app (commit ev h')), st_device_name (app (commit ev h')))"
    "writer_of ev \<noteq> BluetoothTask \<Longrightarrow>
      (st_bluetooth_devices (app (commit ev h)), st_device_name (app (commit ev h)))
        = (st_bluetooth_devices (app h), st_device_name (app h))"
    by (cases ev; simp add: setter_defs)+
qed simp_all

section \<open>Properties\<close>

text \<open>
  C31 (the browsers see what the manager knows).  Whatever the interleaving of watcher, manager, bridge,
  commands and pairing, as soon as the bridge has seen the last snapshot the shared state lists a
  device exactly with the state that the events received so far give it, and lists no other.
\<close>

theorem service_shows_devices:
  "(case service_start E d p name (new_handle, w) of
      Inl e \<Rightarrow> True
    | Inr s0 \<Rightarrow>
        (let s = run (service_step E) s0 es in
         if bs_seen s = length (bt_sent (bs_mgr s))
         then listed a (st_bluetooth_devices (app (bs_handle s))) = map_option device_state_as_str
                (foldl (device_spec a) None (takeWhile (\<lambda>e. \<not> ends_task e) (bs_received s)))
         else bs_seen s < length (bt_sent (bs_mgr s))))"
proof (cases "service_start E d p name (new_handle, w)")
  case (Inr s0)
  have "st_bluetooth_devices (app new_handle) = []"
    by (simp add: new_handle_def default_app_state_def)
  with Inr have "service_inv E (run (service_step E) s0 es)"
    by (intro service.run_inv) (rule service_start_inv)
  from caught_up_listed[OF this, of a] run_state_of[OF this, of a] seen_le[OF this] show ?thesis
    by (auto simp: Inr Let_def)
qed simp

text \<open>
  A phone that connects reaches the browsers.  When the manager is up to date and a watcher of the
  device runs, the connection it sees is listed as soon as the manager took the two events and the
  bridge the snapshot, and the last event on the bus carries that list.
\<close>

theorem connected_phone_is_listed:
  "(case service_start E d p name (new_handle, w) of
      Inl e \<Rightarrow> True
    | Inr s0 \<Rightarrow>
        (let s = run (service_step E) s0 es;
             t = run (service_step E) s [SvWatch (SawConnected a n i), SvDeliver, SvDeliver, SvBridge] in
         if in_step s \<and> a \<in> wk_live (bs_watch s)
         then listed a (st_bluetooth_devices (app (bs_handle t))) = Some ''connected''
           \<and> last (bus (bs_handle t)) = BluetoothDevices (st_bluetooth_devices (app (bs_handle t)))
         else True))"
proof (cases "service_start E d p name (new_handle, w)")
  case (Inr s0)
  have "st_bluetooth_devices (app new_handle) = []"
    by (simp add: new_handle_def default_app_state_def)
  with Inr have inv: "service_inv E (run (service_step E) s0 xs)" for xs
    by (intro service.run_inv) (rule service_start_inv)
  let ?s = "run (service_step E) s0 es"
  let ?u = "run (service_step E) ?s [SvWatch (SawConnected a n i), SvDeliver, SvDeliver]"
  let ?t = "service_step E ?u SvBridge"
  have "listed a (st_bluetooth_devices (app (bs_handle ?t))) = Some ''connected''
      \<and> last (bus (bs_handle ?t)) = BluetoothDevices (st_bluetooth_devices (app (bs_handle ?t)))"
    if up: "in_step ?s" "a \<in> wk_live (bs_watch ?s)"
  proof -
    note U = connection_reaches_manager[OF up, of E n i, unfolded Let_def]
    have "bs_seen ?s \<le> length (bt_sent (bs_mgr ?s))" by (rule seen_le[OF inv])
    then have "bs_seen ?u < length (bt_sent (bs_mgr ?u))"
      using U up by (simp add: in_step_def bt_send_def)
    note B = bridge_catches_up[OF conjunct1[OF U] conjunct1[OF conjunct2[OF U]] this, of E]
    have "state_of a (bt_mgr (bs_mgr ?t)) = Some Connected"
      using B U up by (simp add: in_step_def bt_send_def set_state_def state_of_def map_of_bt_insert
          split: option.split)
    then show ?thesis
      using B caught_up_listed[OF inv[of "es @ [SvWatch (SawConnected a n i), SvDeliver, SvDeliver, SvBridge]"]]
      by simp
  qed
  then show ?thesis by (simp add: Inr Let_def)
qed simp

text \<open>
  A shutdown ends the service.  Whatever was under way, at the signal the service returns with the
  pairing window closed and, when the adapter obeys, neither discoverable nor pairable; afterwards
  nothing but the watcher changes, and a command is no longer carried out.
\<close>

definition apart :: "'w bt_service \<Rightarrow> 'w bt_service" where
  "apart s = s\<lparr>bs_watch := watch_init\<rparr>"

lemma returned_step: "bs_returned s \<Longrightarrow> apart (service_step E s e) = apart s"
  by (cases e) (simp_all add: service_step_def apart_def)

lemma apart_returned: "apart s = apart t \<Longrightarrow> bs_returned s = bs_returned t \<and> bs_window s = bs_window t"
  unfolding apart_def by (drule arg_cong[of _ _ "\<lambda>x. (bs_returned x, bs_window x)"]) simp

lemma returned_run: "bs_returned s \<Longrightarrow> apart (run (service_step E) s es) = apart s"
proof (induction es arbitrary: s)
  case (Cons e es)
  note step = returned_step[OF Cons.prems, of E e]
  then have "bs_returned (service_step E s e)" using apart_returned[OF step] Cons.prems by simp
  from Cons.IH[OF this] step show ?case by simp
qed simp

definition only_joined :: "'w bt_service \<Rightarrow> bool" where
  "only_joined s \<longleftrightarrow> (bs_returned s \<longrightarrow> joined s)"

interpretation ending: machine "service_step E" only_joined for E
  by unfold_locales (auto simp: only_joined_def service_step_def joined_def Let_def split: service_event.split)

lemma service_start_joined: "service_start E d p name hw = Inr s \<Longrightarrow> only_joined s"
  by (auto simp: service_start_def only_joined_def split: prod.splits sum.splits)

lemma shut_down_window:
  "pw_phase (bs_window (shut_down E s)) = PwReturned"
  "bt_done (bs_mgr (shut_down E s))" "bs_bridge_done (shut_down E s)" "bs_commands_done (shut_down E s)"
  "bs_world (shut_down E s) = bs_world s" "bs_handle (shut_down E s) = bs_handle s"
  by (simp_all add: shut_down_def feed_bridge_def receive_def split: pw_phase.split)

theorem service_shutdown_completes:
  "(case service_start E d p name (new_handle, w) of
      Inl e \<Rightarrow> True
    | Inr s0 \<Rightarrow>
        (let s = service_step E (run (service_step E) s0 es) SvShutdown in
         bs_returned s \<and> pw_phase (bs_window s) = PwReturned \<and> \<not> pw_open_state (bs_window s)
         \<and> (if \<forall>k. se_adapter E k
            then \<not> pw_discoverable (bs_window s) \<and> \<not> pw_pairable (bs_window s) else True)
         \<and> apart (run (service_step E) s later) = apart s))"
proof (cases "service_start E d p name (new_handle, w)")
  case (Inr s0)
  let ?r = "run (service_step E) s0 es" and ?s = "service_step E (run (service_step E) s0 es) SvShutdown"
  have "st_bluetooth_devices (app new_handle) = []"
    by (simp add: new_handle_def default_app_state_def)
  with Inr have "service_inv E ?r" by (intro service.run_inv) (rule service_start_inv)
  from service_step_inv[OF this, of SvShutdown]
  have ok: "window_ok (se_adapter E) (bs_window ?s)" by (simp add: service_inv_def)
  have "only_joined ?r" by (rule ending.run_inv[OF service_start_joined[OF Inr]])
  then have "bs_returned ?s \<and> pw_phase (bs_window ?s) = PwReturned"
    by (auto simp: service_step_def loops_def Let_def only_joined_def joined_def shut_down_window)
  with ok returned_run[of ?s E later] show ?thesis
    by (auto simp: Inr Let_def window_ok_def)
qed simp

text \<open>
  A lost event is lost for good.  The manager ignores how much it missed: when a device disconnects
  and at least 64 events of other devices follow before the manager takes the next one, the device
  stays connected for it, although everything that was sent says otherwise.
\<close>

lemma deliver_others:
  assumes "\<not> bs_returned s" "\<not> bt_done (bs_mgr s)" "bt_inv (bs_mgr s)"
    "wk_sent (bs_watch s) = take (bs_next s) (wk_sent (bs_watch s)) @ others"
    "bs_next s \<le> length (wk_sent (bs_watch s))" "length others \<le> EVENTS_CAPACITY"
    "\<forall>e \<in> set others. device_spec a st (BtEvent e) = st" "state_of a (bt_mgr (bs_mgr s)) = st"
    "\<not> bs_bridge_done s"
  shows "state_of a (bt_mgr (bs_mgr (run (service_step E) s (replicate (length others) SvDeliver)))) = st"
  using assms
proof (induction others arbitrary: s)
  case (Cons ev rest)
  let ?s = "service_step E s SvDeliver"
  have s: "?s = receive (BtEvent ev) (s\<lparr>bs_next := Suc (bs_next s), bs_returned := False\<rparr>)"
    using deliver_next[of s ev rest E] Cons.prems by simp
  have len: "length (wk_sent (bs_watch s)) = bs_next s + Suc (length rest)"
    using arg_cong[OF Cons.prems(4), of length] Cons.prems(5) by simp
  have "drop (bs_next s) (wk_sent (bs_watch s)) = ev # rest"
    using Cons.prems(4) by (metis append_same_eq append_take_drop_id same_append_eq)
  then have "drop (Suc (bs_next s)) (wk_sent (bs_watch s)) = rest"
    by (metis drop_Suc list.sel(3) tl_drop)
  then have split: "wk_sent (bs_watch s) = take (Suc (bs_next s)) (wk_sent (bs_watch s)) @ rest"
    by (metis append_take_drop_id)
  have st: "state_of a (bt_mgr (bt_step (bs_mgr s) (BtEvent ev))) = st"
    using state_of_step[OF Cons.prems(3,2), of a "BtEvent ev"] Cons.prems(7,8) by simp
  have "state_of a (bt_mgr (bs_mgr (run (service_step E) ?s (replicate (length rest) SvDeliver)))) = st"
  proof (rule Cons.IH)
    show "wk_sent (bs_watch ?s) = take (bs_next ?s) (wk_sent (bs_watch ?s)) @ rest"
      using split by (simp add: s)
    show "bt_inv (bs_mgr ?s)" using bt_inv_step[OF Cons.prems(3), of "BtEvent ev"] by (simp add: s)
    show "state_of a (bt_mgr (bs_mgr ?s)) = st" using st by (simp add: s)
  qed (use Cons.prems len in \<open>auto simp: s bt_send_def\<close>)
  then show ?case by simp
qed simp

theorem lagging_manager_keeps_device:
  assumes "\<not> bs_returned s" "\<not> bt_done (bs_mgr s)" "\<not> bs_bridge_done s" "bt_inv (bs_mgr s)"
    "wk_sent (bs_watch s) = take (bs_next s) (wk_sent (bs_watch s)) @ BzDisconnected a # others"
    "bs_next s \<le> length (wk_sent (bs_watch s))" "length others = EVENTS_CAPACITY"
    "\<forall>e \<in> set others. device_spec a (Some Connected) (BtEvent e) = Some Connected
       \<and> device_spec a (Some Disconnected) (BtEvent e) = Some Disconnected"
    "state_of a (bt_mgr (bs_mgr s)) = Some Connected"
  shows "state_of a (bt_mgr (bs_mgr (run (service_step E) s
      (SvDeliver # replicate EVENTS_CAPACITY SvDeliver)))) = Some Connected"
proof -
  let ?s = "service_step E s SvDeliver"
  have len: "length (wk_sent (bs_watch s)) = bs_next s + Suc EVENTS_CAPACITY"
    using arg_cong[OF assms(5), of length] assms(6,7) by simp
  have s: "?s = receive BtLagged (s\<lparr>bs_next := Suc (bs_next s), bs_returned := False\<rparr>)"
    using assms(1-3) len by (simp add: service_step_def loops_def deliver_def Let_def joined_def receive_def)
  have "drop (bs_next s) (wk_sent (bs_watch s)) = BzDisconnected a # others"
    using assms(5) by (metis append_take_drop_id same_append_eq)
  then have "drop (Suc (bs_next s)) (wk_sent (bs_watch s)) = others"
    by (metis drop_Suc list.sel(3) tl_drop)
  then have split: "wk_sent (bs_watch s) = take (Suc (bs_next s)) (wk_sent (bs_watch s)) @ others"
    by (metis append_take_drop_id)
  have "state_of a (bt_mgr (bs_mgr (run (service_step E) ?s (replicate (length others) SvDeliver)))) = Some Connected"
  proof (rule deliver_others)
    show "wk_sent (bs_watch ?s) = take (bs_next ?s) (wk_sent (bs_watch ?s)) @ others"
      using split by (simp add: s)
    show "\<forall>e \<in> set others. device_spec a (Some Connected) (BtEvent e) = Some Connected" using assms(8) by blast
  qed (use assms len in \<open>auto simp: s\<close>)
  then show ?thesis using assms(7) by simp
qed

end
