(* ===== verification/CastConnect.thy ===== *)
theory CastConnect
  imports CastSession
begin

text \<open>
  The outside of a cast session (src/src/cast/client.rs): the TLS configuration that accepts every
  certificate, the connection to the device, the handle that stops the session when it is told to
  or dropped, and the session task from the connection on.

  The network and the TLS library are the record \<open>cast_net\<close>; a certificate is any value \<open>'cert\<close>.
\<close>

section \<open>TLS without verification\<close>

record 'cert tls_config =
  tc_schemes :: "nat list"
  tc_verify_server_cert :: "'cert \<Rightarrow> string + unit"
  tc_verify_tls12_signature :: "bytes \<Rightarrow> 'cert \<Rightarrow> string + unit"
  tc_verify_tls13_signature :: "bytes \<Rightarrow> 'cert \<Rightarrow> string + unit"
  tc_client_auth :: bool

definition insecure_tls_config :: "nat list \<Rightarrow> 'cert tls_config" where
  "insecure_tls_config schemes =
     \<lparr>tc_schemes = schemes, tc_verify_server_cert = (\<lambda>_. Inr ()),
      tc_verify_tls12_signature = (\<lambda>_ _. Inr ()), tc_verify_tls13_signature = (\<lambda>_ _. Inr ()),
      tc_client_auth = False\<rparr>"

section \<open>The connection\<close>

record ('cert, 'tcp, 'tls) cast_net =
  cn_connect :: "string \<Rightarrow> io_error + 'tcp"
  cn_parse_ip :: "string \<Rightarrow> string + string"
  cn_handshake :: "'cert tls_config \<Rightarrow> string \<Rightarrow> 'tcp \<Rightarrow> io_error + 'tls"
  cn_schemes :: "nat list"

definition socket_target :: "string \<Rightarrow> nat \<Rightarrow> string" where
  "socket_target ip port = ip @ '':'' @ show_nat port"

definition cast_connect :: "('cert, 'tcp, 'tls) cast_net \<Rightarrow> string \<Rightarrow> nat \<Rightarrow> 'tls option" where
  "cast_connect net ip port =
     (case cn_connect net (socket_target ip port) of
        Inl e \<Rightarrow> None
      | Inr tcp \<Rightarrow>
          (case cn_parse_ip net ip of
             Inl e \<Rightarrow> None
           | Inr server_name \<Rightarrow>
               (case cn_handshake net (insecure_tls_config (cn_schemes net)) server_name tcp of
                  Inl e \<Rightarrow> None
                | Inr tls \<Rightarrow> Some tls)))"

section \<open>The handle and the task\<close>

text \<open>The handle is the sender of the shutdown channel: the value it last sent.\<close>

record cast_handle =
  ch_shutdown :: bool

definition handle_stop :: "cast_handle \<Rightarrow> cast_handle" where
  "handle_stop h = h\<lparr>ch_shutdown := True\<rparr>"

definition handle_drop :: "cast_handle \<Rightarrow> cast_handle" where
  "handle_drop h = handle_stop h"

record cast_session_parts =
  cs_handle :: cast_handle
  cs_task :: "session option"

text \<open>The task is over when it never got a connection, or when the session has returned.\<close>

definition is_finished :: "cast_session_parts \<Rightarrow> bool" where
  "is_finished c = (case cs_task c of None \<Rightarrow> True | Some s \<Rightarrow> ended s)"

definition cast_session_stop :: "cast_session_parts \<Rightarrow> cast_session_parts" where
  "cast_session_stop c = c\<lparr>cs_handle := handle_stop (cs_handle c)\<rparr>"

definition start_session ::
    "('cert, 'tcp, 'tls) cast_net \<Rightarrow> cast_env \<Rightarrow> duration \<Rightarrow> string \<Rightarrow> nat \<Rightarrow> cast_session_parts" where
  "start_session net E t0 ip port =
     \<lparr>cs_handle = \<lparr>ch_shutdown = False\<rparr>,
      cs_task = (case cast_connect net ip port of
                   None \<Rightarrow> None
                 | Some _ \<Rightarrow> Some (session_start (ce_to_str E) (ce_wok E) t0))\<rparr>"

text \<open>The task sees an event of its loop; it sees the handle's value when it next waits.\<close>

definition task_step :: "cast_env \<Rightarrow> cast_session_parts \<Rightarrow> session_event \<Rightarrow> cast_session_parts" where
  "task_step E c e =
     (if ch_shutdown (cs_handle c)
      then c\<lparr>cs_task := map_option (\<lambda>s. session_step E s (ShutdownSignal True)) (cs_task c)\<rparr>
      else c\<lparr>cs_task := map_option (\<lambda>s. session_step E s e) (cs_task c)\<rparr>)"

section \<open>Lemmas\<close>

lemma shutdown_ends: "ended (session_step E s (ShutdownSignal True))"
  by (simp add: send_ended)

lemma session_ended_step: "ended s \<Longrightarrow> session_step E s e = s"
  by (cases e) simp_all

lemma task_step_handle [simp]: "cs_handle (task_step E c e) = cs_handle c"
  by (simp add: task_step_def)

lemma finished_step: "is_finished c \<Longrightarrow> is_finished (task_step E c e)"
  by (auto simp: is_finished_def task_step_def session_ended_step split: option.splits)

interpretation cast_task: machine "task_step E" is_finished for E
  by unfold_locales (rule finished_step)

text \<open>
  A session that was told to stop, or whose handle was dropped, is over at its next wait, whatever it
  was about to receive; one that could not connect was over from the start and sent nothing.
\<close>

theorem stopped_session_ends:
  "is_finished (task_step E (cast_session_stop c) e)
   \<and> is_finished (task_step E (c\<lparr>cs_handle := handle_drop (cs_handle c)\<rparr>) e)
   \<and> (if cast_connect net ip port = None then is_finished (start_session net E t0 ip port) else True)"
  using shutdown_ends
  by (auto simp: is_finished_def task_step_def cast_session_stop_def handle_stop_def handle_drop_def
      start_session_def split: option.split)

text \<open>No certificate is rejected: the verifier has no failing branch.\<close>

lemma every_certificate_passes:
  "tc_verify_server_cert (insecure_tls_config schemes) cert = Inr ()"
  "tc_verify_tls12_signature (insecure_tls_config schemes) msg cert = Inr ()"
  "tc_verify_tls13_signature (insecure_tls_config schemes) msg cert = Inr ()"
  by (simp_all add: insecure_tls_config_def)

end
