(* ===== verification/System.thy ===== *)
theory System
  imports Web Signalling Media DaemonRun Spectrum BtService CastConnect
begin

text \<open>
  The process as a whole (\<open>main\<close> of src/src/main.rs): what the daemon reads at its start and hands to its
  tasks, the tasks side by side, and what the shutdown signal does to them and to the select at the
  end of \<open>main\<close> (Entry).

  The tasks are the step functions of their theories.  Each task sees the helper programs through a
  world of its own and publishes to a handle of its own; Process puts them on the shared one.  What is
  composed here is their control: who is started with what, and who ends when.
\<close>

section \<open>The start\<close>

record web_config =
  sc_bind :: socket_addr
  sc_web_dir :: string

text \<open>The capacities of the command channels.\<close>

definition EQ_CAPACITY :: nat where "EQ_CAPACITY = 32"
definition COMMAND_CAPACITY :: nat where "COMMAND_CAPACITY = 16"

definition boot_context :: "app_handle \<Rightarrow> web_context" where
  "boot_context h =
     \<lparr>cx_handle = h, cx_pairing = fresh_chan COMMAND_CAPACITY, cx_media = fresh_chan COMMAND_CAPACITY,
      cx_eq = Some (fresh_chan EQ_CAPACITY), cx_bt = fresh_chan COMMAND_CAPACITY,
      cx_daemon = fresh_chan COMMAND_CAPACITY, cx_output = Some (fresh_chan COMMAND_CAPACITY)\<rparr>"

definition runtime_dir_of :: "environment \<Rightarrow> string" where
  "runtime_dir_of env = (case env ''XDG_RUNTIME_DIR'' of Some d \<Rightarrow> d | None \<Rightarrow> ''/run/user/0'')"

record boot_plan =
  bp_config :: web_config
  bp_name :: string
  bp_home :: string
  bp_runtime_dir :: string
  bp_route :: desired_route
  bp_lan_ip :: string
  bp_port :: nat
  bp_context :: web_context
  bp_streams :: streams
  bp_timeout :: duration

definition boot ::
    "(string \<Rightarrow> string + socket_addr) \<Rightarrow> environment \<Rightarrow> disk \<Rightarrow> 'w runner \<Rightarrow> 'w
      \<Rightarrow> (process_output + boot_plan) \<times> 'w" where
  "boot parse_addr env k r w =
     (case start_bind parse_addr env of
        Inl out \<Rightarrow> (Inl out, w)
      | Inr bind \<Rightarrow>
          (case resolve_lan_ip r w of
             (lan_ip, w') \<Rightarrow>
               (Inr \<lparr>bp_config = \<lparr>sc_bind = bind, sc_web_dir = resolve_web_dir (env ''SOUNDSYNC_WEB_DIR'')\<rparr>,
                     bp_name = boot_name env k, bp_home = home_dir env,
                     bp_runtime_dir = runtime_dir_of env, bp_route = default_desired_route,
                     bp_lan_ip = lan_ip, bp_port = sa_port bind, bp_context = boot_context new_handle,
                     bp_streams = streams_start, bp_timeout = resolve_shutdown_timeout env\<rparr>, w')))"

section \<open>The web task\<close>

text \<open>
  The server: bind, then serve until the graceful shutdown is over, which is the argument
  \<open>axum_serve\<close>.  The task reports an error and ends.
\<close>

definition serve ::
    "('w \<Rightarrow> (io_error + 'l) \<times> 'w) \<Rightarrow> ('w \<Rightarrow> bool \<times> 'w) \<Rightarrow> ('l \<Rightarrow> 'w \<Rightarrow> (io_error + unit) \<times> 'w)
      \<Rightarrow> 'w \<Rightarrow> (io_error + unit) \<times> 'w" where
  "serve try_bind sleep_or_shutdown axum_serve w =
     (case bind_with_retry try_bind sleep_or_shutdown w of
        (Inl e, w') \<Rightarrow> (Inl e, w')
      | (Inr l, w') \<Rightarrow> axum_serve l w')"

definition web_report :: "(socket_addr \<Rightarrow> string) \<Rightarrow> socket_addr \<Rightarrow> io_error + unit \<Rightarrow> string option" where
  "web_report show_addr bind_addr res =
     (case res of
        Inr _ \<Rightarrow> None
      | Inl e \<Rightarrow>
          Some (if err_kind e = AddrInUse
                then ''soundsync: failed to bind '' @ show_addr bind_addr
                  @ '' (port in use? another instance/legacy running?): '' @ err_msg e
                else ''soundsync: web server error: '' @ err_msg e))"

section \<open>The tasks side by side\<close>

record ('w, 'c) system_env =
  sy_libm :: libm
  sy_fft :: fft
  sy_clock :: "nat \<Rightarrow> int"
  sy_webrtc :: webrtc_lib
  sy_service :: "'w service_env"
  sy_eq :: "'w eq_env"
  sy_run :: "'w runner"
  sy_timer :: "'w timer"
  sy_spawner :: "('w, 'c) spawner"
  sy_cancelled :: "'w \<Rightarrow> bool"

definition output_env :: "('w, 'c) system_env \<Rightarrow> boot_plan \<Rightarrow> 'w oc_env" where
  "output_env Y p =
     \<lparr>oe_run = sy_run Y, oe_cancelled = sy_cancelled Y, oe_lan_ip = bp_lan_ip p,
      oe_bind_port = bp_port p\<rparr>"

text \<open>A Bluetooth task whose set-up failed has ended with the error.\<close>

record 'w tasks =
  tk_context :: web_context
  tk_spectrum :: spectrum_task
  tk_webrtc :: signalling
  tk_bluetooth :: "string + 'w bt_service"
  tk_media :: media
  tk_eq :: "'w eqc"
  tk_output :: "'w oc"
  tk_daemon :: "'w dm"
  tk_web_ended :: bool

text \<open>
  The events of a task other than its commands, which come from the channels: \<open>SysTake\<close> hands the
  oldest command of a channel to the task that waits for it, at the given time, with the outcome of
  the D-Bus call for a transport command.
\<close>

datatype system_step =
    SysRequest request
  | SysTake taken duration bool
  | SysSpectrum spectrum_event
  | SysWebrtc sg_event
  | SysBluetooth service_event
  | SysMedia mm_event
  | SysEqClosed
  | SysOutputTick "nat \<Rightarrow> bool"
  | SysOutputClosed
  | SysDaemon dm_event
  | SysWebEnded
  | SysShutdown

definition bluetooth_event ::
    "'w service_env \<Rightarrow> service_event \<Rightarrow> string + 'w bt_service \<Rightarrow> string + 'w bt_service" where
  "bluetooth_event E e b = (case b of Inl err \<Rightarrow> Inl err | Inr s \<Rightarrow> Inr (service_step E s e))"

definition bluetooth_over :: "string + 'w bt_service \<Rightarrow> bool" where
  "bluetooth_over b = (case b of Inl _ \<Rightarrow> True | Inr s \<Rightarrow> bs_returned s)"

definition close_if :: "bool \<Rightarrow> 'c chan \<Rightarrow> 'c chan" where
  "close_if b ch = (if b then ch\<lparr>ch_closed := True\<rparr> else ch)"

text \<open>A task that returned has dropped its receiver, which closes the channel.\<close>

definition drop_receivers :: "'w tasks \<Rightarrow> 'w tasks" where
  "drop_receivers T =
     (let x = tk_context T; b = tk_bluetooth T in
      T\<lparr>tk_context :=
          x\<lparr>cx_pairing := close_if (case b of Inl _ \<Rightarrow> True
                                   | Inr s \<Rightarrow> pw_phase (bs_window s) = PwReturned) (cx_pairing x),
            cx_media := close_if (mm_phase (tk_media T) = MmReturned) (cx_media x),
            cx_eq := map_option (close_if (eq_done (tk_eq T))) (cx_eq x),
            cx_bt := close_if (case b of Inl _ \<Rightarrow> True | Inr s \<Rightarrow> bs_commands_done s) (cx_bt x),
            cx_daemon := close_if (dm_result (tk_daemon T) \<noteq> None \<or> dm_commands_done (tk_daemon T))
              (cx_daemon x),
            cx_output := map_option (close_if (oc_done (tk_output T))) (cx_output x)\<rparr>\<rparr>)"

definition tasks_start ::
    "('w, 'c) system_env \<Rightarrow> boot_plan \<Rightarrow> int \<Rightarrow> bool \<Rightarrow> bool \<Rightarrow> bool \<Rightarrow> 'w \<Rightarrow> 'w tasks" where
  "tasks_start Y p t0 discoverable pairable interrupted w =
     drop_receivers
       \<lparr>tk_context = bp_context p, tk_spectrum = spectrum_start t0 new_handle,
        tk_webrtc = sg_start,
        tk_bluetooth = service_start (sy_service Y) discoverable pairable (bp_name p) (new_handle, w),
        tk_media = mm_start new_handle, tk_eq = eqc_start (sy_eq Y) (bp_route p) new_handle w,
        tk_output = oc_start (output_env Y p) new_handle w,
        tk_daemon = dm_start (sy_run Y) (sy_timer Y) (bp_route p) interrupted w,
        tk_web_ended = False\<rparr>"

text \<open>The route that the equaliser has sent last is what the daemon reads from the watch channel.\<close>

definition watch_route :: "('w, 'c) system_env \<Rightarrow> 'w tasks \<Rightarrow> 'w tasks" where
  "watch_route Y T =
     T\<lparr>tk_daemon := dm_step (sy_run Y) (sy_timer Y) (sy_spawner Y) (tk_daemon T)
         (DmRoute (eq_route (tk_eq T)))\<rparr>"

text \<open>The command at the head of a channel goes to the task, if the task waits for one.\<close>

fun hand_over :: "('w, 'c) system_env \<Rightarrow> boot_plan \<Rightarrow> taken \<Rightarrow> duration \<Rightarrow> bool \<Rightarrow> 'w tasks \<Rightarrow> 'w tasks" where
  "hand_over Y p TakePairing t ok T =
     (case (ch_queue (cx_pairing (tk_context T)), tk_bluetooth T) of
        (c # _, Inr s) \<Rightarrow>
          if pw_phase (bs_window s) = PwReturned then T
          else T\<lparr>tk_context := web_step (tk_context T) (Taken TakePairing),
                 tk_bluetooth := Inr (service_step (sy_service Y) s (SvPairing (PwCommand c t)))\<rparr>
      | _ \<Rightarrow> T)"
| "hand_over Y p TakeBt t ok T =
     (case (ch_queue (cx_bt (tk_context T)), tk_bluetooth T) of
        (c # _, Inr s) \<Rightarrow>
          if bs_commands_done s then T
          else T\<lparr>tk_context := web_step (tk_context T) (Taken TakeBt),
                 tk_bluetooth := Inr (service_step (sy_service Y) s (SvCommand c))\<rparr>
      | _ \<Rightarrow> T)"
| "hand_over Y p TakeMedia t ok T =
     (case (ch_queue (cx_media (tk_context T)), mm_phase (tk_media T)) of
        (c # _, MmSession _) \<Rightarrow>
          T\<lparr>tk_context := web_step (tk_context T) (Taken TakeMedia),
            tk_media := mm_step (tk_media T) (MmCommand c ok)\<rparr>
      | _ \<Rightarrow> T)"
| "hand_over Y p TakeEq t ok T =
     (case map_option ch_queue (cx_eq (tk_context T)) of
        Some (c # _) \<Rightarrow>
          if eq_done (tk_eq T) \<or> eq_stuck (tk_eq T) then T
          else watch_route Y
                 (T\<lparr>tk_context := web_step (tk_context T) (Taken TakeEq),
                    tk_eq := eq_step (sy_eq Y) (tk_eq T) (EqCmd c)\<rparr>)
      | _ \<Rightarrow> T)"
| "hand_over Y p TakeOutput t ok T =
     (case map_option ch_queue (cx_output (tk_context T)) of
        Some (c # _) \<Rightarrow>
          if oc_done (tk_output T) then T
          else T\<lparr>tk_context := web_step (tk_context T) (Taken TakeOutput),
                 tk_output := oc_step (output_env Y p) (tk_output T) (OcCommand c)\<rparr>
      | _ \<Rightarrow> T)"
| "hand_over Y p TakeDaemon t ok T =
     (case ch_queue (cx_daemon (tk_context T)) of
        c # _ \<Rightarrow>
          if commands_wait (tk_daemon T)
          then T\<lparr>tk_context := web_step (tk_context T) (Taken TakeDaemon),
                 tk_daemon := dm_step (sy_run Y) (sy_timer Y) (sy_spawner Y) (tk_daemon T) (DmCommand c)\<rparr>
          else T
      | _ \<Rightarrow> T)"

fun commands_bluetooth :: "service_event \<Rightarrow> bool" where
  "commands_bluetooth (SvCommand _) = True"
| "commands_bluetooth (SvPairing (PwCommand _ _)) = True"
| "commands_bluetooth _ = False"

text \<open>The shutdown flag is seen by every task; the web server drains its connections first.\<close>

fun tasks_event :: "('w, 'c) system_env \<Rightarrow> boot_plan \<Rightarrow> 'w tasks \<Rightarrow> system_step \<Rightarrow> 'w tasks" where
  "tasks_event Y p T (SysRequest r) =
     (if tk_web_ended T then T else T\<lparr>tk_context := web_step (tk_context T) (Request r)\<rparr>)"
| "tasks_event Y p T (SysTake k t ok) = hand_over Y p k t ok T"
| "tasks_event Y p T (SysSpectrum e) =
     T\<lparr>tk_spectrum := spectrum_step (sy_libm Y) (sy_fft Y) (sy_clock Y) (tk_spectrum T) e\<rparr>"
| "tasks_event Y p T (SysWebrtc e) = T\<lparr>tk_webrtc := sg_step (sy_webrtc Y) (tk_webrtc T) e\<rparr>"
| "tasks_event Y p T (SysBluetooth e) =
     (if commands_bluetooth e then T
      else T\<lparr>tk_bluetooth := bluetooth_event (sy_service Y) e (tk_bluetooth T)\<rparr>)"
| "tasks_event Y p T (SysMedia e) =
     (case e of MmCommand _ _ \<Rightarrow> T | _ \<Rightarrow> T\<lparr>tk_media := mm_step (tk_media T) e\<rparr>)"
| "tasks_event Y p T SysEqClosed = T\<lparr>tk_eq := eq_step (sy_eq Y) (tk_eq T) EqClosed\<rparr>"
| "tasks_event Y p T (SysOutputTick finished) =
     T\<lparr>tk_output := oc_step (output_env Y p) (tk_output T) (OcTick finished)\<rparr>"
| "tasks_event Y p T SysOutputClosed =
     T\<lparr>tk_output := oc_step (output_env Y p) (tk_output T) OcClosed\<rparr>"
| "tasks_event Y p T (SysDaemon e) =
     (case e of DmCommand _ \<Rightarrow> T
      | DmRoute _ \<Rightarrow> T
      | _ \<Rightarrow> T\<lparr>tk_daemon := dm_step (sy_run Y) (sy_timer Y) (sy_spawner Y) (tk_daemon T) e\<rparr>)"
| "tasks_event Y p T SysWebEnded = T\<lparr>tk_web_ended := True\<rparr>"
| "tasks_event Y p T SysShutdown =
     T\<lparr>tk_spectrum := spectrum_step (sy_libm Y) (sy_fft Y) (sy_clock Y) (tk_spectrum T) (ShutdownChanged True),
       tk_webrtc := sg_step (sy_webrtc Y) (tk_webrtc T) SgShutdown,
       tk_bluetooth := bluetooth_event (sy_service Y) SvShutdown (tk_bluetooth T),
       tk_media := mm_step (tk_media T) MmShutdown,
       tk_eq := eq_step (sy_eq Y) (tk_eq T) EqShutdown,
       tk_output := oc_step (output_env Y p) (tk_output T) (OcShutdown True),
       tk_daemon := dm_step (sy_run Y) (sy_timer Y) (sy_spawner Y) (tk_daemon T) DmShutdown\<rparr>"

definition tasks_step :: "('w, 'c) system_env \<Rightarrow> boot_plan \<Rightarrow> 'w tasks \<Rightarrow> system_step \<Rightarrow> 'w tasks" where
  "tasks_step Y p T e = drop_receivers (tasks_event Y p T e)"

text \<open>Which of the supervised tasks are over, in the order of \<open>CRITICAL_TASKS\<close>.\<close>

definition tasks_over :: "'w tasks \<Rightarrow> bool list" where
  "tasks_over T =
     [sp_phase (tk_spectrum T) = SpReturned \<or> sp_phase (tk_spectrum T) = SpPanicked,
      wc_done (sg_rtc (tk_webrtc T)), bluetooth_over (tk_bluetooth T), mm_phase (tk_media T) = MmReturned,
      eq_done (tk_eq T), oc_done (tk_output T), tk_web_ended T]"

section \<open>Lemmas\<close>

lemma boot_context_ok: "queues_ok (boot_context h)"
  by (simp add: queues_ok_def boot_context_def fresh_chan_def chan_ok_def)

lemma chan_ok_close [simp]: "chan_ok P (close_if b ch) = chan_ok P ch"
  by (simp add: chan_ok_def close_if_def)

lemma drop_receivers_simps [simp]:
  "tk_spectrum (drop_receivers T) = tk_spectrum T" "tk_webrtc (drop_receivers T) = tk_webrtc T"
  "tk_bluetooth (drop_receivers T) = tk_bluetooth T" "tk_media (drop_receivers T) = tk_media T"
  "tk_eq (drop_receivers T) = tk_eq T" "tk_output (drop_receivers T) = tk_output T"
  "tk_daemon (drop_receivers T) = tk_daemon T" "tk_web_ended (drop_receivers T) = tk_web_ended T"
  "queues_ok (tk_context (drop_receivers T)) = queues_ok (tk_context T)"
  by (simp_all add: drop_receivers_def Let_def queues_ok_def option.pred_map o_def)

lemma watch_route_simps [simp]:
  "tk_context (watch_route Y T) = tk_context T" "tk_spectrum (watch_route Y T) = tk_spectrum T"
  "tk_webrtc (watch_route Y T) = tk_webrtc T" "tk_bluetooth (watch_route Y T) = tk_bluetooth T"
  "tk_media (watch_route Y T) = tk_media T" "tk_eq (watch_route Y T) = tk_eq T"
  "tk_output (watch_route Y T) = tk_output T" "tk_web_ended (watch_route Y T) = tk_web_ended T"
  by (simp_all add: watch_route_def)

text \<open>What a step of the Bluetooth service can do to the published name and to the window.\<close>

definition device_name :: "'w bt_service \<Rightarrow> string" where
  "device_name s = st_device_name (app (bs_handle s))"

lemma feed_bridge_name [simp]: "device_name (feed_bridge e s) = device_name s"
  by (cases e) (auto simp: device_name_def feed_bridge_def set_bluetooth_devices_def publish_def)

lemma device_name_updates [simp]:
  "device_name (receive e s) = device_name s" "device_name (s\<lparr>bs_next := n\<rparr>) = device_name s"
  "device_name (s\<lparr>bs_seen := n\<rparr>) = device_name s" "device_name (s\<lparr>bs_window := x\<rparr>) = device_name s"
  "device_name (s\<lparr>bs_commands_done := b\<rparr>) = device_name s" "device_name (s\<lparr>bs_returned := b\<rparr>) = device_name s"
  "device_name (s\<lparr>bs_watch := x2\<rparr>) = device_name s"
  by (simp_all add: device_name_def receive_def)

lemma service_command_name:
  "device_name (service_command E c s) = (if bs_commands_done s then device_name s
     else case c of BtSetName n \<Rightarrow> n | _ \<Rightarrow> device_name s)"
  by (cases c) (auto simp: service_command_def device_name_def set_device_name_def publish_def)

lemma service_step_name:
  "device_name (service_step E s e) = device_name s
   \<or> (\<exists>n. e = SvCommand (BtSetName n) \<and> device_name (service_step E s e) = n)"
proof (cases e)
  case (SvCommand c)
  then show ?thesis
    by (cases c) (auto simp: service_step_def loops_def Let_def service_command_name)
qed (auto simp: service_step_def loops_def Let_def deliver_def bridge_def shut_down_def)

lemma window_updates [simp]:
  "bs_window (receive e s) = bs_window s" "bs_window (feed_bridge x s) = bs_window s"
  "bs_window (deliver s) = bs_window s" "bs_window (bridge s) = bs_window s"
  "bs_window (service_command E c s) = bs_window s"
  by (auto simp: service_defs Let_def split: prod.split)

text \<open>A window that is open was opened by a command, and lasts as long as that asked for.\<close>

lemma pairing_step_open:
  "pw_phase (pairing_step okc s x) = PwOpen \<Longrightarrow>
     (pw_phase s = PwOpen \<and> pw_deadline (pairing_step okc s x) = pw_deadline s)
     \<or> (\<exists>d t. x = PwCommand (OpenWindow d) t \<and> pw_deadline (pairing_step okc s x) = t + d)"
  by (cases x) (auto simp: adapter_defs split: pw_phase.splits pairing_command.splits if_splits)

lemma service_step_open:
  "pw_phase (bs_window (service_step E s e)) = PwOpen \<Longrightarrow>
     (pw_phase (bs_window s) = PwOpen
        \<and> pw_deadline (bs_window (service_step E s e)) = pw_deadline (bs_window s))
     \<or> (\<exists>d t. e = SvPairing (PwCommand (OpenWindow d) t)
          \<and> pw_deadline (bs_window (service_step E s e)) = t + d)"
proof (cases e)
  case (SvPairing x)
  assume "pw_phase (bs_window (service_step E s e)) = PwOpen"
  then show ?thesis using pairing_step_open[of "se_adapter E" "bs_window s" x] SvPairing
    by (auto simp: service_step_def loops_def Let_def simp del: pairing_step.simps split: if_splits)
next
  case SvShutdown
  then show "pw_phase (bs_window (service_step E s e)) = PwOpen \<Longrightarrow> ?thesis"
    by (auto simp: service_step_def loops_def Let_def shut_down_window split: if_splits)
qed (auto simp: service_step_def loops_def Let_def split: if_splits)

text \<open>Open windows and names stem from valid commands.\<close>

definition pairing_times :: "system_step list \<Rightarrow> duration set" where
  "pairing_times es = {t. \<exists>ok. SysTake TakePairing t ok \<in> set es}"

definition service_ok :: "boot_plan \<Rightarrow> system_step list \<Rightarrow> 'w bt_service \<Rightarrow> bool" where
  "service_ok p es s \<longleftrightarrow>
     (device_name s = bp_name p \<or> valid_bt (BtSetName (device_name s)))
     \<and> (pw_phase (bs_window s) = PwOpen \<longrightarrow>
          (\<exists>t \<in> pairing_times es. t + secs 30 \<le> pw_deadline (bs_window s)
             \<and> pw_deadline (bs_window s) \<le> t + secs 3600))"

definition system_ok :: "boot_plan \<Rightarrow> system_step list \<Rightarrow> 'w tasks \<Rightarrow> bool" where
  "system_ok p es T \<longleftrightarrow> queues_ok (tk_context T)
     \<and> (case tk_bluetooth T of Inl _ \<Rightarrow> True | Inr s \<Rightarrow> service_ok p es s)"

lemma service_ok_quiet:
  assumes "service_ok p es s" "\<not> commands_bluetooth x"
  shows "service_ok p (es @ [e]) (service_step E s x)"
proof -
  have "device_name (service_step E s x) = device_name s"
    using service_step_name[of E s x] assms(2) by (cases x) auto
  moreover have "pw_phase (bs_window (service_step E s x)) = PwOpen \<Longrightarrow> pw_phase (bs_window s) = PwOpen
      \<and> pw_deadline (bs_window (service_step E s x)) = pw_deadline (bs_window s)"
    using service_step_open[of E s x] assms(2) by auto
  moreover have "pairing_times es \<subseteq> pairing_times (es @ [e])" by (auto simp: pairing_times_def)
  ultimately show ?thesis using assms(1) by (fastforce simp: service_ok_def)
qed

lemma service_ok_command:
  assumes "service_ok p es s" "valid_bt c"
  shows "service_ok p (es @ [e]) (service_step E s (SvCommand c))"
proof -
  have "device_name (service_step E s (SvCommand c)) = device_name s
      \<or> valid_bt (BtSetName (device_name (service_step E s (SvCommand c))))"
    using service_step_name[of E s "SvCommand c"] assms(2)
    by (elim disjE exE conjE) (simp_all del: valid_bt.simps)
  moreover have "pw_phase (bs_window (service_step E s (SvCommand c))) = PwOpen \<Longrightarrow>
      pw_phase (bs_window s) = PwOpen
      \<and> pw_deadline (bs_window (service_step E s (SvCommand c))) = pw_deadline (bs_window s)"
    using service_step_open[of E s "SvCommand c"] by auto
  moreover have "pairing_times es \<subseteq> pairing_times (es @ [e])" by (auto simp: pairing_times_def)
  ultimately show ?thesis using assms(1) by (fastforce simp: service_ok_def)
qed

lemma service_ok_pairing:
  assumes "service_ok p es s" "valid_pairing c"
  shows "service_ok p (es @ [SysTake TakePairing t ok]) (service_step E s (SvPairing (PwCommand c t)))"
proof -
  let ?s = "service_step E s (SvPairing (PwCommand c t))"
  let ?es = "es @ [SysTake TakePairing t ok]"
  have name: "device_name ?s = device_name s"
    using service_step_name[of E s "SvPairing (PwCommand c t)"] by auto
  have new: "t \<in> pairing_times ?es" and old: "pairing_times es \<subseteq> pairing_times ?es"
    by (auto simp: pairing_times_def)
  have "\<exists>t \<in> pairing_times ?es. t + secs 30 \<le> pw_deadline (bs_window ?s)
      \<and> pw_deadline (bs_window ?s) \<le> t + secs 3600" if "pw_phase (bs_window ?s) = PwOpen"
    using service_step_open[OF that]
  proof
    assume "pw_phase (bs_window s) = PwOpen \<and> pw_deadline (bs_window ?s) = pw_deadline (bs_window s)"
    then show ?thesis using assms(1) old by (auto simp: service_ok_def)
  next
    assume "\<exists>d t'. SvPairing (PwCommand c t) = SvPairing (PwCommand (OpenWindow d) t')
        \<and> pw_deadline (bs_window ?s) = t' + d"
    then show ?thesis using assms(2) by (intro bexI[OF _ new]) auto
  qed
  then show ?thesis using assms(1) name by (simp add: service_ok_def)
qed

lemma service_ok_start:
  assumes "service_start E d q (bp_name p) hw = Inr s"
  shows "service_ok p es s"
proof -
  have "pw_phase (pairing_start (se_adapter E) d q) \<noteq> PwOpen"
    by (simp add: pairing_start_def enter_closed_def)
  then show ?thesis using assms
    by (auto simp: service_start_def bluetooth_setup_def Let_def service_ok_def device_name_def
        set_device_name_def publish_def split: prod.splits sum.splits)
qed

lemma queues_ok_heads:
  "queues_ok x \<Longrightarrow> ch_queue (cx_pairing x) = c # cs \<Longrightarrow> valid_pairing c"
  "queues_ok x \<Longrightarrow> ch_queue (cx_bt x) = c' # cs' \<Longrightarrow> valid_bt c'"
  by (simp_all add: queues_ok_def chan_ok_def)

lemma system_ok_hand_over:
  assumes "system_ok p es T"
  shows "system_ok p (es @ [SysTake k t ok]) (hand_over Y p k t ok T)"
proof -
  have q: "queues_ok (web_step (tk_context T) (Taken k))" "queues_ok (tk_context T)"
    using assms web.step_inv by (auto simp: system_ok_def)
  have keep: "case tk_bluetooth T of Inl _ \<Rightarrow> True | Inr s \<Rightarrow> service_ok p (es @ [SysTake k t ok]) s"
    using assms unfolding system_ok_def service_ok_def pairing_times_def by (fastforce split: sum.splits)
  show ?thesis
  proof (cases k)
    case TakePairing
    then show ?thesis using assms q keep service_ok_pairing[of p es _ _ t ok "sy_service Y"]
      by (auto simp: system_ok_def queues_ok_heads simp del: valid_pairing.simps web_step.simps
          split: list.split sum.split)
  next
    case TakeBt
    then show ?thesis using assms q keep service_ok_command[of p es _ _ "SysTake TakeBt t ok" "sy_service Y"]
      by (auto simp: system_ok_def queues_ok_heads simp del: valid_bt.simps web_step.simps
          split: list.split sum.split)
  qed (use q keep in \<open>auto simp: system_ok_def simp del: web_step.simps
         split: list.split sum.split option.split mm_phase.split\<close>)
qed

lemma system_ok_step: "system_ok p es T \<Longrightarrow> system_ok p (es @ [e]) (tasks_step Y p T e)"
proof -
  assume ok: "system_ok p es T"
  have keep: "case tk_bluetooth T of Inl _ \<Rightarrow> True | Inr s \<Rightarrow> service_ok p (es @ [e]) s"
    using ok unfolding system_ok_def service_ok_def pairing_times_def by (fastforce split: sum.splits)
  have "system_ok p (es @ [e]) (tasks_event Y p T e)"
  proof (cases e)
    case (SysRequest r)
    then show ?thesis using ok keep web.step_inv[of "tk_context T" "Request r"]
      by (auto simp: system_ok_def simp del: web_step.simps)
  next
    case (SysTake k t b)
    then show ?thesis using system_ok_hand_over[OF ok] by simp
  next
    case (SysBluetooth x)
    then show ?thesis using ok keep service_ok_quiet[of p es _ x e "sy_service Y"]
      by (auto simp: system_ok_def bluetooth_event_def split: sum.splits)
  next
    case SysShutdown
    then show ?thesis using ok service_ok_quiet[of p es _ SvShutdown e "sy_service Y"]
      by (auto simp: system_ok_def bluetooth_event_def split: sum.splits)
  qed (use ok keep in \<open>auto simp: system_ok_def split: mm_event.split dm_event.split\<close>)
  then show ?thesis by (simp add: tasks_step_def system_ok_def)
qed

lemma system_ok_start:
  "queues_ok (bp_context p) \<Longrightarrow> system_ok p [] (tasks_start Y p t0 d q i w)"
  by (auto simp: system_ok_def tasks_start_def service_ok_start split: sum.split)

lemma system_ok_run:
  "queues_ok (bp_context p) \<Longrightarrow> system_ok p es (run (tasks_step Y p) (tasks_start Y p t0 d q i w) es)"
  by (induction es rule: rev_induct) (auto simp: system_ok_start system_ok_step)

subsection \<open>The shutdown\<close>

text \<open>
  The media task may be waiting for an answer of the bus when the flag is set; \<open>mm_answer\<close> is the
  answer that its phase waits for.
\<close>

type_synonym bus_answer = "bool \<times> managed_objects option \<times> player_read"

definition mm_answer :: "bus_answer \<Rightarrow> media \<Rightarrow> mm_event" where
  "mm_answer a s =
     (case a of (ok, objs, r) \<Rightarrow>
        (case mm_phase s of
           MmConnecting \<Rightarrow> MmConnect ok
         | MmSearching \<Rightarrow> MmSearch objs
         | MmBinding _ \<Rightarrow> MmAddMatch ok
         | MmReading _ \<Rightarrow> MmInitialRead r
         | _ \<Rightarrow> MmTimer))"

definition answered :: "('w, 'c) system_env \<Rightarrow> boot_plan \<Rightarrow> 'w tasks \<Rightarrow> bus_answer \<Rightarrow> 'w tasks" where
  "answered Y p T a = tasks_step Y p T (SysMedia (mm_answer a (tk_media T)))"

fun answers_left :: "mm_phase \<Rightarrow> nat" where
  "answers_left MmReturned = 0"
| "answers_left MmConnecting = 1"
| "answers_left (MmReading _) = 1"
| "answers_left (MmBinding _) = 2"
| "answers_left MmSearching = 3"
| "answers_left _ = 4"

lemma publish_lookup_shutdown [simp]:
  "mm_shutdown (publish_and_lookup_art info s) = mm_shutdown s"
  by (auto simp: publish_and_lookup_art_def Let_def mm_set_media_def split: option.split)

lemma answer_step:
  "mm_shutdown s \<Longrightarrow> answers_left (mm_phase s) \<le> 3 \<Longrightarrow>
     mm_shutdown (mm_step s (mm_answer a s))
     \<and> answers_left (mm_phase (mm_step s (mm_answer a s))) \<le> answers_left (mm_phase s) - 1"
  by (cases a; cases "mm_phase s")
    (auto simp: mm_answer_def mm_wait_def mm_reconnect_def mm_set_media_def
      split: option.split prod.split bool.split)

lemma answers_left_0: "answers_left ph = 0 \<longleftrightarrow> ph = MmReturned"
  by (cases ph) auto

lemma shutdown_flag: "mm_shutdown (mm_step s MmShutdown) \<and> answers_left (mm_phase (mm_step s MmShutdown)) \<le> 3"
  by (cases "mm_phase s") (simp_all add: mm_waiting_def Let_def)

lemma mm_answer_no_command: "mm_answer a s \<noteq> MmCommand c ok"
  by (auto simp: mm_answer_def split: prod.splits mm_phase.splits)

lemma answered_simps [simp]:
  "tk_media (answered Y p T a) = mm_step (tk_media T) (mm_answer a (tk_media T))"
  "tk_spectrum (answered Y p T a) = tk_spectrum T" "tk_webrtc (answered Y p T a) = tk_webrtc T"
  "tk_bluetooth (answered Y p T a) = tk_bluetooth T" "tk_eq (answered Y p T a) = tk_eq T"
  "tk_output (answered Y p T a) = tk_output T" "tk_daemon (answered Y p T a) = tk_daemon T"
  using mm_answer_no_command[of a "tk_media T"]
  by (cases "mm_answer a (tk_media T)"; simp add: answered_def tasks_step_def del: mm_step.simps)+

lemma shutdown_simps [simp]:
  "tk_spectrum (tasks_step Y p T SysShutdown)
     = spectrum_step (sy_libm Y) (sy_fft Y) (sy_clock Y) (tk_spectrum T) (ShutdownChanged True)"
  "tk_webrtc (tasks_step Y p T SysShutdown) = sg_step (sy_webrtc Y) (tk_webrtc T) SgShutdown"
  "tk_bluetooth (tasks_step Y p T SysShutdown)
     = bluetooth_event (sy_service Y) SvShutdown (tk_bluetooth T)"
  "tk_media (tasks_step Y p T SysShutdown) = mm_step (tk_media T) MmShutdown"
  "tk_eq (tasks_step Y p T SysShutdown) = eq_step (sy_eq Y) (tk_eq T) EqShutdown"
  "tk_output (tasks_step Y p T SysShutdown) = oc_step (output_env Y p) (tk_output T) (OcShutdown True)"
  "tk_daemon (tasks_step Y p T SysShutdown)
     = dm_step (sy_run Y) (sy_timer Y) (sy_spawner Y) (tk_daemon T) DmShutdown"
  by (simp_all add: tasks_step_def del: mm_step.simps spectrum_step.simps sg_step.simps
      eq_step.simps oc_step.simps)

lemma media_three_answers:
  assumes "m = mm_step s MmShutdown" "m1 = mm_step m (mm_answer a1 m)"
    "m2 = mm_step m1 (mm_answer a2 m1)" "m3 = mm_step m2 (mm_answer a3 m2)"
  shows "mm_phase m3 = MmReturned"
proof -
  have m: "mm_shutdown m" "answers_left (mm_phase m) \<le> 3"
    using shutdown_flag[of s] assms(1) by simp_all
  have m1: "mm_shutdown m1" "answers_left (mm_phase m1) \<le> 2"
    using m answer_step[of m a1] unfolding assms(2) by linarith+
  have m2: "mm_shutdown m2" "answers_left (mm_phase m2) \<le> 1"
    using m1 answer_step[of m1 a2] unfolding assms(3) by linarith+
  have "answers_left (mm_phase m3) = 0"
    using m2 answer_step[of m2 a3] unfolding assms(4) by linarith
  then show ?thesis by (simp add: answers_left_0)
qed

text \<open>The state after the signal, with the answers the media task may still be waiting for.\<close>

definition signalled ::
    "('w, 'c) system_env \<Rightarrow> boot_plan \<Rightarrow> bus_answer \<Rightarrow> bus_answer \<Rightarrow> bus_answer \<Rightarrow> 'w tasks \<Rightarrow> 'w tasks" where
  "signalled Y p a1 a2 a3 T =
     answered Y p (answered Y p (answered Y p (tasks_step Y p T SysShutdown) a1) a2) a3"

lemma signalled_media: "mm_phase (tk_media (signalled Y p a1 a2 a3 T)) = MmReturned"
  unfolding signalled_def answered_simps(1)
  by (rule media_three_answers[where s = "tk_media T"]) (simp_all del: mm_step.simps)

lemma foldl_publish_phase: "sp_phase (foldl (publish_bands clk) s out) = sp_phase s"
  by (induction out arbitrary: s) (simp_all add: publish_bands_keeps)

lemma spin_only_without_sender:
  "sp_phase s \<noteq> SpSpinning \<Longrightarrow> e \<noteq> ShutdownSenderGone \<Longrightarrow> sp_phase (spectrum_step lm ft clk s e) \<noteq> SpSpinning"
  by (cases e) (auto simp: foldl_publish_phase split: option.split)

text \<open>What the tasks keep along every run, for the shutdown.\<close>

definition orderly :: "system_step list \<Rightarrow> 'w tasks \<Rightarrow> bool" where
  "orderly es T \<longleftrightarrow>
     (SysSpectrum ShutdownSenderGone \<notin> set es \<longrightarrow> sp_phase (tk_spectrum T) \<noteq> SpSpinning)
     \<and> (case tk_bluetooth T of Inl _ \<Rightarrow> True | Inr s \<Rightarrow> only_joined s)"

lemma orderly_hand_over: "orderly es T \<Longrightarrow> orderly (es @ [SysTake k t ok]) (hand_over Y p k t ok T)"
  by (cases k) (auto simp: orderly_def ending.step_inv split: list.split sum.splits option.split mm_phase.split)

lemma orderly_step: "orderly es T \<Longrightarrow> orderly (es @ [e]) (tasks_step Y p T e)"
proof (cases e)
  case (SysTake k t b)
  then show "orderly es T \<Longrightarrow> ?thesis"
    using orderly_hand_over[of es T k t b Y p] by (simp add: tasks_step_def orderly_def)
next
  case (SysSpectrum x)
  then show "orderly es T \<Longrightarrow> ?thesis"
    by (auto simp: orderly_def tasks_step_def spin_only_without_sender simp del: spectrum_step.simps)
next
  case SysShutdown
  then show "orderly es T \<Longrightarrow> ?thesis"
    by (auto simp: orderly_def bluetooth_event_def ending.step_inv spin_only_without_sender
        simp del: spectrum_step.simps split: sum.splits)
qed (auto simp: orderly_def tasks_step_def bluetooth_event_def ending.step_inv
    simp del: mm_step.simps split: sum.splits mm_event.split dm_event.split)

lemma orderly_run: "orderly es (run (tasks_step Y p) (tasks_start Y p t0 d q i w) es)"
proof (induction es rule: rev_induct)
  case Nil
  show ?case
    by (auto simp: orderly_def tasks_start_def spectrum_start_def service_start_joined split: sum.split)
qed (simp add: orderly_step)

lemma service_shutdown_returned: "only_joined s \<Longrightarrow> bs_returned (service_step E s SvShutdown)
    \<and> pw_phase (bs_window (service_step E s SvShutdown)) = PwReturned
    \<and> bs_commands_done (service_step E s SvShutdown)"
  by (auto simp: service_step_def loops_def Let_def only_joined_def joined_def shut_down_window)

section \<open>Properties\<close>


text \<open>
  C30 (the shutdown reaches every task).  At the signal, and once the bus has answered what the media task
  was waiting for, every supervised task but the web server has ended, and the daemon has returned:
  the spectrum task unless it had lost the sender of the signal before, the equaliser unless it waits
  for ever for its node.  Both outcomes are then open to the select of \<open>main\<close>: the process ends
  when it sees the daemon first, and is parked when it sees one of the tasks first.
\<close>

theorem shutdown_reaches_every_task:
  "(let T = signalled Y p a1 a2 a3 (run (tasks_step Y p) (tasks_start Y p t0 d q i w) es) in
     (if SysSpectrum ShutdownSenderGone \<in> set es then True else tasks_over T ! 0)
     \<and> tasks_over T ! 1 \<and> tasks_over T ! 2 \<and> tasks_over T ! 3
     \<and> (if eq_stuck (tk_eq T) then True else tasks_over T ! 4) \<and> tasks_over T ! 5
     \<and> dm_result (tk_daemon T) \<noteq> None
     \<and> (\<exists>x. ml_phase (run (main_step tm) main_start (Terminate # daemon_reported (tk_daemon T))) = Ended x)
     \<and> ml_phase (run (main_step tm) main_start [Terminate, TaskEnded 1, SupervisorPolled]) = ParkedForever)"
proof -
  let ?U = "run (tasks_step Y p) (tasks_start Y p t0 d q i w) es"
  let ?T = "signalled Y p a1 a2 a3 ?U"
  note parts = signalled_def answered_simps(2-) shutdown_simps
  have o: "orderly es ?U" by (rule orderly_run)
  have 0: "SysSpectrum ShutdownSenderGone \<notin> set es \<Longrightarrow> tasks_over ?T ! 0"
    using o by (cases "sp_phase (tk_spectrum ?U)") (simp_all add: tasks_over_def parts orderly_def)
  have 1: "tasks_over ?T ! 1" by (simp add: tasks_over_def parts)
  have 2: "tasks_over ?T ! 2"
    using o service_shutdown_returned
    by (auto simp: tasks_over_def parts bluetooth_over_def bluetooth_event_def orderly_def split: sum.splits)
  have 3: "tasks_over ?T ! 3" using signalled_media[of Y p a1 a2 a3 ?U] by (simp add: tasks_over_def)
  have 4: "\<not> eq_stuck (tk_eq ?T) \<Longrightarrow> tasks_over ?T ! 4"
    by (auto simp: tasks_over_def parts split: if_splits)
  have 5: "tasks_over ?T ! 5"
    by (auto simp: tasks_over_def parts oc_shutdown_def Let_def split: option.split)
  have dm: "dm_result (tk_daemon ?T) \<noteq> None"
    using dm_shutdown_returns[of "tk_daemon ?U" "sy_run Y" "sy_timer Y" "sy_spawner Y"]
    by (cases "dm_result (tk_daemon ?U)") (auto simp: parts Let_def dm_step_def)
  then obtain res where "dm_result (tk_daemon ?T) = Some res" by blast
  then have "\<exists>x. ml_phase (run (main_step tm) main_start (Terminate # daemon_reported (tk_daemon ?T))) = Ended x"
    by (simp add: daemon_reported_def main_start_def)
  moreover have "ml_phase (run (main_step tm) main_start [Terminate, TaskEnded 1, SupervisorPolled]) = ParkedForever"
    by (simp add: main_start_def CRITICAL_TASKS_def poll_supervisor_def classify_task_exit_def)
  ultimately show ?thesis using 0 1 2 3 4 5 dm unfolding Let_def by presburger
qed

text \<open>The channels to the tasks, all without a receiver.\<close>

definition all_closed :: "web_context \<Rightarrow> bool" where
  "all_closed x \<longleftrightarrow> ch_closed (cx_pairing x) \<and> ch_closed (cx_media x) \<and> pred_option ch_closed (cx_eq x)
     \<and> ch_closed (cx_bt x) \<and> ch_closed (cx_daemon x) \<and> pred_option ch_closed (cx_output x)"

lemma closed_try_send: "ch_closed ch \<Longrightarrow> try_send c ch = (False, ch)"
  by (simp add: try_send_def)

lemma bad_action_status: "action_to_btcommand addr a = Inl st \<Longrightarrow> st = BAD_REQUEST"
  by (simp add: action_to_btcommand_def split: if_splits)

lemma closed_post:
  "all_closed x \<Longrightarrow> snd (post_route r x) = x
     \<and> (fst (post_route r x) = ACCEPTED \<longrightarrow> request_commands x r = Inr [])"
  by (cases r)
    (auto simp: all_closed_def closed_try_send open_pairing_def close_pairing_def to_pairing_def
      to_bt_def to_daemon_def media_command_def post_eq_def send_switch_def set_name_def
      device_command_def admin_restart_def admin_identify_def post_output_def status_of_def Let_def
      dest!: bad_action_status split: option.splits sum.splits)

lemma close_if_idem [simp]: "close_if b (close_if b ch) = close_if b ch"
  by (simp add: close_if_def)

lemma drop_receivers_idem: "drop_receivers (drop_receivers X) = drop_receivers X"
  by (simp add: drop_receivers_def Let_def option.map_comp o_def)

lemma signalled_context: "tk_context (signalled Y p a1 a2 a3 T)
    = tk_context (drop_receivers (signalled Y p a1 a2 a3 T))"
  unfolding signalled_def answered_def[of _ _ _ a3] tasks_step_def[of _ _ _ "SysMedia _"]
  by (simp only: drop_receivers_idem)

text \<open>
  C32 (after the shutdown no command is queued).  The tasks have dropped their receivers: a request that the
  web server still answers while it drains its connections changes nothing, and it is accepted only
  when it asks for nothing.
\<close>

theorem requests_after_shutdown_change_nothing:
  "(let T = signalled Y p a1 a2 a3 (run (tasks_step Y p) (tasks_start Y p t0 d q i w) es) in
     if eq_stuck (tk_eq T) then True
     else snd (post_route r (tk_context T)) = tk_context T
       \<and> (if fst (post_route r (tk_context T)) = ACCEPTED
          then request_commands (tk_context T) r = Inr [] else True))"
proof -
  let ?U = "run (tasks_step Y p) (tasks_start Y p t0 d q i w) es"
  let ?T = "signalled Y p a1 a2 a3 ?U"
  note parts = signalled_def answered_simps(2-) shutdown_simps
  have o: "orderly es ?U" by (rule orderly_run)
  have b: "case tk_bluetooth ?T of Inl _ \<Rightarrow> True
      | Inr s \<Rightarrow> pw_phase (bs_window s) = PwReturned \<and> bs_commands_done s"
    using o service_shutdown_returned
    by (auto simp: parts bluetooth_event_def orderly_def split: sum.splits)
  have e: "\<not> eq_stuck (tk_eq ?T) \<Longrightarrow> eq_done (tk_eq ?T)" by (auto simp: parts split: if_splits)
  have oc: "oc_done (tk_output ?T)" by (auto simp: parts oc_shutdown_def Let_def split: option.split)
  have dm: "dm_result (tk_daemon ?T) \<noteq> None"
    using dm_shutdown_returns[of "tk_daemon ?U" "sy_run Y" "sy_timer Y" "sy_spawner Y"]
    by (cases "dm_result (tk_daemon ?U)") (auto simp: parts Let_def dm_step_def)
  have "all_closed (tk_context ?T)" if "\<not> eq_stuck (tk_eq ?T)"
    using b e[OF that] oc dm signalled_media[of Y p a1 a2 a3 ?U]
    by (subst signalled_context) (auto simp: drop_receivers_def Let_def all_closed_def close_if_def
        option.pred_map option.pred_True o_def split: sum.splits)
  from closed_post[OF this] show ?thesis by (simp add: Let_def)
qed

end
