(* ===== verification/Process.thy ===== *)
theory Process
  imports System
begin

text \<open>
  The process with its shared state: the tasks of System on one handle, as the clones of
  \<open>AppStateHandle\<close> in src/src/main.rs are one record and one bus.  Each task meets the contract \<open>handle_user\<close>
  of State, so that on the shared handle it does what it does on a handle of its own; what the theories
  of the tasks show of them holds in the process, and what the clients see is the state of the tasks.
\<close>

section \<open>The tasks on one handle\<close>

definition cx_on :: "app_handle \<Rightarrow> web_context \<Rightarrow> web_context" where
  "cx_on h x = x\<lparr>cx_handle := h\<rparr>"

definition tasks_on :: "app_handle \<Rightarrow> 'w tasks \<Rightarrow> 'w tasks" where
  "tasks_on h T =
     T\<lparr>tk_context := cx_on h (tk_context T), tk_spectrum := sp_on h (tk_spectrum T),
       tk_webrtc := sg_on h (tk_webrtc T), tk_bluetooth := map_sum id (bs_on h) (tk_bluetooth T),
       tk_media := mm_on h (tk_media T), tk_eq := eq_on h (tk_eq T), tk_output := oc_on h (tk_output T)\<rparr>"

text \<open>The handle as the task that an event concerns has left it.\<close>

definition bluetooth_handle :: "app_handle \<Rightarrow> string + 'w bt_service \<Rightarrow> app_handle" where
  "bluetooth_handle h b = (case b of Inl _ \<Rightarrow> h | Inr s \<Rightarrow> bs_handle s)"

fun taken_handle :: "app_handle \<Rightarrow> 'w tasks \<Rightarrow> taken \<Rightarrow> app_handle" where
  "taken_handle h T TakePairing = bluetooth_handle h (tk_bluetooth T)"
| "taken_handle h T TakeBt = bluetooth_handle h (tk_bluetooth T)"
| "taken_handle h T TakeMedia = mm_handle (tk_media T)"
| "taken_handle h T TakeEq = eq_handle (tk_eq T)"
| "taken_handle h T TakeOutput = oc_handle (tk_output T)"
| "taken_handle h T TakeDaemon = h"

fun handle_after :: "app_handle \<Rightarrow> 'w tasks \<Rightarrow> system_step \<Rightarrow> app_handle" where
  "handle_after h T (SysTake k t ok) = taken_handle h T k"
| "handle_after h T (SysSpectrum e) = sp_handle (tk_spectrum T)"
| "handle_after h T (SysWebrtc e) = sg_handle (tk_webrtc T)"
| "handle_after h T (SysBluetooth e) = bluetooth_handle h (tk_bluetooth T)"
| "handle_after h T (SysMedia e) = mm_handle (tk_media T)"
| "handle_after h T (SysOutputTick finished) = oc_handle (tk_output T)"
| "handle_after h T _ = h"

definition shared_handle :: "'w tasks \<Rightarrow> app_handle" where
  "shared_handle T = cx_handle (tk_context T)"

definition process_step :: "('w, 'c) system_env \<Rightarrow> boot_plan \<Rightarrow> 'w tasks \<Rightarrow> system_step \<Rightarrow> 'w tasks" where
  "process_step Y p T e =
     (let T' = tasks_step Y p T e in tasks_on (handle_after (shared_handle T) T' e) T')"

text \<open>
  The first events of the tasks, in the order in which \<open>main\<close> spawns them.  The set-up of the Bluetooth
  service publishes the name before the last of the calls that can fail.
\<close>

definition setup_handle :: "'w service_env \<Rightarrow> string \<Rightarrow> 'w \<Rightarrow> app_handle" where
  "setup_handle E name w =
     (case bluetooth_setup (se_bluer E) (se_debug E) (se_runner E) id \<lparr>gate_open = False\<rparr> name
             (new_handle, w) of
        (_, h, _) \<Rightarrow> h)"

definition first_events :: "('w, 'c) system_env \<Rightarrow> boot_plan \<Rightarrow> 'w \<Rightarrow> 'w tasks \<Rightarrow> system_event list" where
  "first_events Y p w T =
     bus (sp_handle (tk_spectrum T)) @ bus (sg_handle (tk_webrtc T))
     @ bus (setup_handle (sy_service Y) (bp_name p) w) @ bus (mm_handle (tk_media T))
     @ bus (eq_handle (tk_eq T)) @ bus (oc_handle (tk_output T))"

definition process_start ::
    "('w, 'c) system_env \<Rightarrow> boot_plan \<Rightarrow> int \<Rightarrow> bool \<Rightarrow> bool \<Rightarrow> bool \<Rightarrow> 'w \<Rightarrow> 'w tasks" where
  "process_start Y p t0 discoverable pairable interrupted w =
     (let T = tasks_start Y p t0 discoverable pairable interrupted w
      in tasks_on (fold commit (first_events Y p w T) new_handle) T)"

section \<open>Lemmas\<close>

lemma web_step_on: "web_step (cx_on h x) e = cx_on h (web_step x e)"
proof (cases e)
  case (Request r)
  have "snd (post_route r (cx_on h x)) = cx_on h (snd (post_route r x))"
    by (cases r)
      (auto simp: cx_on_def open_pairing_def close_pairing_def to_pairing_def media_command_def
        post_eq_def send_switch_def set_name_def device_command_def to_bt_def admin_restart_def
        admin_identify_def to_daemon_def post_output_def Let_def
        split: option.split sum.split prod.split bool.split)
  then show ?thesis using Request by simp
next
  case (Taken k)
  then show ?thesis by (cases k) (simp_all add: cx_on_def)
qed

lemma cx_on_simps [simp]:
  "cx_handle (cx_on h x) = h" "cx_pairing (cx_on h x) = cx_pairing x" "cx_media (cx_on h x) = cx_media x"
  "cx_eq (cx_on h x) = cx_eq x" "cx_bt (cx_on h x) = cx_bt x" "cx_daemon (cx_on h x) = cx_daemon x"
  "cx_output (cx_on h x) = cx_output x" "cx_on h (cx_on h' x) = cx_on h x"
  by (simp_all add: cx_on_def)

lemma eq_on_simps [simp]:
  "eq_handle (eq_on h s) = h" "eq_done (eq_on h s) = eq_done s" "eq_stuck (eq_on h s) = eq_stuck s"
  "eq_on h (eq_on h' s) = eq_on h s"
  by (simp_all add: eq_on_def)

lemma task_on_simps [simp]:
  "sp_phase (sp_on h s) = sp_phase s" "sp_handle (sp_on h s) = h" "sp_on h (sp_on h' s) = sp_on h s"
  "sg_handle (sg_on h r) = h" "sg_rtc (sg_on h r) = sg_rtc r" "sg_on h (sg_on h' r) = sg_on h r"
  "oc_on h (oc_on h' x) = oc_on h x"
  by (simp_all add: sp_on_def sg_on_def oc_on_def)

lemma map_sum_bs_on [simp]: "map_sum id (bs_on h) (map_sum id (bs_on h') b) = map_sum id (bs_on h) b"
  by (cases b) simp_all

lemma bluetooth_handle_on [simp]: "bluetooth_handle h (map_sum id (bs_on h) b) = h"
  by (cases b) (simp_all add: bluetooth_handle_def)

lemma tasks_on_simps [simp]:
  "tk_context (tasks_on h T) = cx_on h (tk_context T)" "tk_spectrum (tasks_on h T) = sp_on h (tk_spectrum T)"
  "tk_webrtc (tasks_on h T) = sg_on h (tk_webrtc T)"
  "tk_bluetooth (tasks_on h T) = map_sum id (bs_on h) (tk_bluetooth T)"
  "tk_media (tasks_on h T) = mm_on h (tk_media T)" "tk_eq (tasks_on h T) = eq_on h (tk_eq T)"
  "tk_output (tasks_on h T) = oc_on h (tk_output T)" "tk_daemon (tasks_on h T) = tk_daemon T"
  "tk_web_ended (tasks_on h T) = tk_web_ended T" "shared_handle (tasks_on h T) = h"
  by (simp_all add: tasks_on_def shared_handle_def)

lemma tasks_eqI:
  "tk_context S = tk_context T \<Longrightarrow> tk_spectrum S = tk_spectrum T \<Longrightarrow> tk_webrtc S = tk_webrtc T \<Longrightarrow>
   tk_bluetooth S = tk_bluetooth T \<Longrightarrow> tk_media S = tk_media T \<Longrightarrow> tk_eq S = tk_eq T \<Longrightarrow>
   tk_output S = tk_output T \<Longrightarrow> tk_daemon S = tk_daemon T \<Longrightarrow> tk_web_ended S = tk_web_ended T \<Longrightarrow>
   S = (T :: 'w tasks)"
  by simp

lemma bluetooth_on:
  "(case map_sum id (bs_on h) b of Inl _ \<Rightarrow> x | Inr s \<Rightarrow> f s) = (case b of Inl _ \<Rightarrow> x | Inr s \<Rightarrow> f (bs_on h s))"
  by (cases b) simp_all

lemma drop_receivers_on: "drop_receivers (tasks_on h T) = tasks_on h (drop_receivers T)"
  by (rule tasks_eqI)
    (simp_all add: drop_receivers_def Let_def bluetooth_on,
      rule web_context.equality, simp_all add: cx_on_def bluetooth_on cong: sum.case_cong)

text \<open>What each task sees of its own state and of the shared one is the same.\<close>

definition agrees :: "app_handle \<Rightarrow> 'w tasks \<Rightarrow> bool" where
  "agrees h T \<longleftrightarrow> eq_user.agree h (tk_eq T) \<and> oc_user.agree h (tk_output T)
     \<and> media_user.agree h (tk_media T) \<and> spectrum_user.agree h (tk_spectrum T)
     \<and> signalling_user.agree h (tk_webrtc T)
     \<and> (case tk_bluetooth T of Inl _ \<Rightarrow> True | Inr s \<Rightarrow> service_user.agree h s)"

text \<open>The outcome of an event on the shared handle, given that on handles of their own.\<close>

definition follows :: "app_handle \<Rightarrow> (app_handle \<Rightarrow> 'w tasks \<Rightarrow> app_handle) \<Rightarrow> 'w tasks \<Rightarrow> 'w tasks \<Rightarrow> bool" where
  "follows h after S T \<longleftrightarrow>
     (\<exists>evs. after h S = fold commit evs h \<and> (\<forall>k. tasks_on k S = tasks_on k T) \<and> agrees (fold commit evs h) T)"

lemma agree_foreign:
  assumes "\<forall>ev \<in> set evs. writer_of ev = x"
  shows "x \<noteq> EqTask \<Longrightarrow> eq_user.agree (fold commit evs h) e = eq_user.agree h e"
    "x \<noteq> OutputTask \<Longrightarrow> oc_user.agree (fold commit evs h) out = oc_user.agree h out"
    "x \<noteq> MediaTask \<Longrightarrow> media_user.agree (fold commit evs h) m = media_user.agree h m"
    "x \<noteq> BluetoothTask \<Longrightarrow> service_user.agree (fold commit evs h) s = service_user.agree h s"
    "x \<noteq> SpectrumTask \<Longrightarrow> spectrum_user.agree (fold commit evs h) sp = spectrum_user.agree h sp"
    "x \<noteq> SignallingTask \<Longrightarrow> signalling_user.agree (fold commit evs h) r = signalling_user.agree h r"
  using assms
  by (auto intro!: eq_user.foreign_commits oc_user.foreign_commits media_user.foreign_commits
      service_user.foreign_commits spectrum_user.foreign_commits signalling_user.foreign_commits)

lemma eq_turn:
  assumes "agrees h T"
  shows "follows h (\<lambda>h S. eq_handle (tk_eq S))
    ((tasks_on h T)\<lparr>tk_eq := eq_step E (eq_on h (tk_eq T)) e\<rparr>) (T\<lparr>tk_eq := eq_step E (tk_eq T) e\<rparr>)"
proof -
  obtain evs where t: "eq_step E (eq_on h (tk_eq T)) e = eq_on (fold commit evs h) (eq_step E (tk_eq T) e)"
    "eq_user.agree (fold commit evs h) (eq_step E (tk_eq T) e)" and w: "\<forall>ev \<in> set evs. writer_of ev = EqTask"
    using eq_user.turn[of h "tk_eq T"] assms by (auto simp: agrees_def)
  show ?thesis unfolding follows_def
    by (rule exI[of _ evs])
      (use assms t in \<open>auto simp: agree_foreign[OF w] agrees_def tasks_on_def split: sum.splits\<close>)
qed

lemma output_turn:
  assumes "agrees h T"
  shows "follows h (\<lambda>h S. oc_handle (tk_output S))
    ((tasks_on h T)\<lparr>tk_output := oc_step E (oc_on h (tk_output T)) e\<rparr>) (T\<lparr>tk_output := oc_step E (tk_output T) e\<rparr>)"
proof -
  obtain evs where t: "oc_step E (oc_on h (tk_output T)) e = oc_on (fold commit evs h) (oc_step E (tk_output T) e)"
    "oc_user.agree (fold commit evs h) (oc_step E (tk_output T) e)"
    and w: "\<forall>ev \<in> set evs. writer_of ev = OutputTask"
    using oc_user.turn[of h "tk_output T"] assms by (auto simp: agrees_def)
  show ?thesis unfolding follows_def
    by (rule exI[of _ evs])
      (use assms t in \<open>auto simp: agree_foreign[OF w] agrees_def tasks_on_def split: sum.splits\<close>)
qed

lemma media_turn:
  assumes "agrees h T"
  shows "follows h (\<lambda>h S. mm_handle (tk_media S))
    ((tasks_on h T)\<lparr>tk_media := mm_step (mm_on h (tk_media T)) e\<rparr>) (T\<lparr>tk_media := mm_step (tk_media T) e\<rparr>)"
proof -
  obtain evs where t: "mm_step (mm_on h (tk_media T)) e = mm_on (fold commit evs h) (mm_step (tk_media T) e)"
    "media_user.agree (fold commit evs h) (mm_step (tk_media T) e)"
    and w: "\<forall>ev \<in> set evs. writer_of ev = MediaTask"
    using media_user.turn[of h "tk_media T"] assms by (auto simp: agrees_def)
  show ?thesis unfolding follows_def
    by (rule exI[of _ evs])
      (use assms t in \<open>auto simp: agree_foreign[OF w] agrees_def tasks_on_def simp del: mm_step.simps split: sum.splits\<close>)
qed

lemma spectrum_turn:
  assumes "agrees h T"
  shows "follows h (\<lambda>h S. sp_handle (tk_spectrum S))
    ((tasks_on h T)\<lparr>tk_spectrum := spectrum_step lm ft clk (sp_on h (tk_spectrum T)) e\<rparr>)
    (T\<lparr>tk_spectrum := spectrum_step lm ft clk (tk_spectrum T) e\<rparr>)"
proof -
  obtain evs where t: "spectrum_step lm ft clk (sp_on h (tk_spectrum T)) e
      = sp_on (fold commit evs h) (spectrum_step lm ft clk (tk_spectrum T) e)"
    "spectrum_user.agree (fold commit evs h) (spectrum_step lm ft clk (tk_spectrum T) e)"
    and w: "\<forall>ev \<in> set evs. writer_of ev = SpectrumTask"
    using spectrum_user.turn[where lm = lm and ft = ft and clk = clk and h = h and s = "tk_spectrum T" and e = e] assms by (auto simp: agrees_def)
  show ?thesis unfolding follows_def
    by (rule exI[of _ evs])
      (use assms t in \<open>auto simp: agree_foreign[OF w] agrees_def tasks_on_def simp del: spectrum_step.simps
          split: sum.splits\<close>)
qed

lemma signalling_turn:
  assumes "agrees h T"
  shows "follows h (\<lambda>h S. sg_handle (tk_webrtc S))
    ((tasks_on h T)\<lparr>tk_webrtc := sg_step L (sg_on h (tk_webrtc T)) e\<rparr>) (T\<lparr>tk_webrtc := sg_step L (tk_webrtc T) e\<rparr>)"
proof -
  obtain evs where t: "sg_step L (sg_on h (tk_webrtc T)) e = sg_on (fold commit evs h) (sg_step L (tk_webrtc T) e)"
    "signalling_user.agree (fold commit evs h) (sg_step L (tk_webrtc T) e)"
    and w: "\<forall>ev \<in> set evs. writer_of ev = SignallingTask"
    using signalling_user.turn[of h "tk_webrtc T"] assms by (auto simp: agrees_def)
  show ?thesis unfolding follows_def
    by (rule exI[of _ evs])
      (use assms t in \<open>auto simp: agree_foreign[OF w] agrees_def tasks_on_def simp del: sg_step.simps
          split: sum.splits\<close>)
qed

lemma bluetooth_turn:
  assumes "agrees h T"
  shows "follows h (\<lambda>h S. bluetooth_handle h (tk_bluetooth S))
    ((tasks_on h T)\<lparr>tk_bluetooth := bluetooth_event E e (map_sum id (bs_on h) (tk_bluetooth T))\<rparr>)
    (T\<lparr>tk_bluetooth := bluetooth_event E e (tk_bluetooth T)\<rparr>)"
proof (cases "tk_bluetooth T")
  case (Inl err)
  then show ?thesis unfolding follows_def
    by (intro exI[of _ "[]"]) (use assms in \<open>simp add: bluetooth_event_def bluetooth_handle_def agrees_def tasks_on_def\<close>)
next
  case (Inr s)
  obtain evs where t: "service_step E (bs_on h s) e = bs_on (fold commit evs h) (service_step E s e)"
    "service_user.agree (fold commit evs h) (service_step E s e)"
    and w: "\<forall>ev \<in> set evs. writer_of ev = BluetoothTask"
    using service_user.turn[of h s] assms Inr by (auto simp: agrees_def)
  show ?thesis unfolding follows_def
    by (rule exI[of _ evs])
      (use assms t Inr in
        \<open>auto simp: agree_foreign[OF w] agrees_def tasks_on_def bluetooth_event_def bluetooth_handle_def\<close>)
qed

lemma follows_nothing: "agrees h T \<Longrightarrow> (\<And>S. after h S = h) \<Longrightarrow> follows h after (tasks_on h T) T"
  unfolding follows_def by (rule exI[of _ "[]"]) (simp add: tasks_on_def)

text \<open>The context of the web server goes along.\<close>

lemma follows_context:
  assumes "follows h after S T" "\<And>h S x. after h (S\<lparr>tk_context := x\<rparr>) = after h S"
  shows "follows h after (S\<lparr>tk_context := cx_on h x\<rparr>) (T\<lparr>tk_context := x\<rparr>)"
proof -
  obtain evs where evs: "after h S = fold commit evs h" "\<And>k. tasks_on k S = tasks_on k T"
    "agrees (fold commit evs h) T" using assms(1) by (auto simp: follows_def)
  have c: "tasks_on k (U\<lparr>tk_context := y\<rparr>) = (tasks_on k U)\<lparr>tk_context := cx_on k y\<rparr>" for k y and U :: "'a tasks"
    by (simp add: tasks_on_def)
  have a: "agrees k (U\<lparr>tk_context := y\<rparr>) = agrees k U" for k y and U :: "'a tasks"
    by (simp add: agrees_def)
  show ?thesis unfolding follows_def c a assms(2) by (rule exI[of _ evs]) (simp add: evs)
qed

lemma watch_route_on: "watch_route Y (tasks_on h T) = tasks_on h (watch_route Y T)"
  by (simp add: watch_route_def tasks_on_def eq_on_def)

lemma follows_watch:
  assumes "follows h after S T" "\<And>h S. after h (watch_route Y S) = after h S"
  shows "follows h after (watch_route Y S) (watch_route Y T)"
proof -
  have a: "agrees k (watch_route Y U) = agrees k U" for k and U :: "'a tasks"
    by (simp add: agrees_def)
  show ?thesis using assms(1) unfolding follows_def assms(2) a watch_route_on[symmetric] by metis
qed

lemma hand_over_follows:
  assumes "agrees h T"
  shows "follows h (\<lambda>h S. taken_handle h S k) (hand_over Y p k t ok (tasks_on h T)) (hand_over Y p k t ok T)"
proof -
  let ?x = "web_step (tk_context T) (Taken k)"
  have same: "follows h (\<lambda>h S. taken_handle h S k) (tasks_on h T) T"
    unfolding follows_def
    by (rule exI[of _ "[]"])
      (cases k; use assms in simp)
  note turn = follows_context[where x = ?x]
  have swap: "U\<lparr>tk_context := x, tk_eq := a\<rparr> = U\<lparr>tk_eq := a, tk_context := x\<rparr>"
    "U\<lparr>tk_context := x, tk_output := b\<rparr> = U\<lparr>tk_output := b, tk_context := x\<rparr>"
    "U\<lparr>tk_context := x, tk_media := c\<rparr> = U\<lparr>tk_media := c, tk_context := x\<rparr>"
    "U\<lparr>tk_context := x, tk_bluetooth := d\<rparr> = U\<lparr>tk_bluetooth := d, tk_context := x\<rparr>"
    "U\<lparr>tk_context := x, tk_daemon := e\<rparr> = U\<lparr>tk_daemon := e, tk_context := x\<rparr>"
    for U :: "'a tasks" and x a b c d e by simp_all
  show ?thesis
  proof (cases k)
    case TakeEq
    then show ?thesis
      using same follows_watch[OF turn[OF eq_turn[OF assms, of "sy_eq Y"]], of Y]
      by (auto simp: swap web_step_on simp del: web_step.simps eq_step.simps split: option.split list.split)
  next
    case TakeOutput
    then show ?thesis
      using same turn[OF output_turn[OF assms, of "output_env Y p"]]
      by (auto simp: swap web_step_on simp del: web_step.simps oc_step.simps split: option.split list.split)
  next
    case TakeMedia
    then show ?thesis
      using same turn[OF media_turn[OF assms]]
      by (auto simp: swap web_step_on simp del: web_step.simps mm_step.simps split: list.split mm_phase.split)
  next
    case TakePairing
    then show ?thesis
      using same turn[OF bluetooth_turn[OF assms, of "sy_service Y"]]
      by (auto simp: swap web_step_on bluetooth_event_def simp del: web_step.simps split: list.split sum.split)
  next
    case TakeBt
    then show ?thesis
      using same turn[OF bluetooth_turn[OF assms, of "sy_service Y"]]
      by (auto simp: swap web_step_on bluetooth_event_def simp del: web_step.simps split: list.split sum.split)
  next
    case TakeDaemon
    have d: "follows h (\<lambda>h S. h) ((tasks_on h T)\<lparr>tk_daemon := x\<rparr>) (T\<lparr>tk_daemon := x\<rparr>)" for x
      unfolding follows_def by (rule exI[of _ "[]"]) (use assms in \<open>simp add: tasks_on_def agrees_def\<close>)
    then show ?thesis using same turn[OF d] TakeDaemon
      by (auto simp: swap web_step_on simp del: web_step.simps split: list.split)
  qed
qed

text \<open>At the shutdown no task publishes anything.\<close>

lemma shutdown_on:
  "spectrum_step lm ft clk (sp_on h a) (ShutdownChanged b) = sp_on h (spectrum_step lm ft clk a (ShutdownChanged b))"
  "sg_step L (sg_on h r) SgShutdown = sg_on h (sg_step L r SgShutdown)"
  "mm_step (mm_on h m) MmShutdown = mm_on h (mm_step m MmShutdown)"
  "eq_step E (eq_on h x) EqShutdown = eq_on h (eq_step E x EqShutdown)"
  "oc_step F (oc_on h y) (OcShutdown b) = oc_on h (oc_step F y (OcShutdown b))"
  "bluetooth_event G SvShutdown (map_sum id (bs_on h) z) = map_sum id (bs_on h) (bluetooth_event G SvShutdown z)"
  by (simp_all add: sp_on_def sg_on_def eq_on_def Let_def)
    (cases z; simp add: bluetooth_event_def service_step_on service_writes_def)

lemma shutdown_quiet:
  "mm_handle (mm_step m MmShutdown) = mm_handle m" "eq_handle (eq_step E x EqShutdown) = eq_handle x"
  "sp_handle (spectrum_step lm ft clk sp (ShutdownChanged b)) = sp_handle sp"
  "sg_handle (sg_step L r SgShutdown) = sg_handle r"
  "oc_handle (oc_step F y (OcShutdown b)) = oc_handle y" "bs_handle (service_step G z SvShutdown) = bs_handle z"
proof -
  have "service_writes z SvShutdown = []" by (simp add: service_writes_def)
  then have "service_step G z SvShutdown = bs_on (bs_handle z) (service_step G z SvShutdown)"
    using service_step_on[of G "bs_handle z" z SvShutdown] by (simp only: if_cancel fold_simps bs_on_simps)
  from arg_cong[OF this, of bs_handle] show "bs_handle (service_step G z SvShutdown) = bs_handle z"
    by (simp only: bs_on_simps)
qed (simp_all add: Let_def)

lemma follows_own:
  "follows h after S T \<Longrightarrow> (\<And>h S. after' h S = after h S) \<Longrightarrow> follows h after' S T"
  by (simp add: follows_def)

lemma tasks_event_follows:
  assumes "agrees h T"
  shows "follows h (\<lambda>h S. handle_after h S e) (tasks_event Y p (tasks_on h T) e) (tasks_event Y p T e)"
proof (cases e)
  case (SysRequest r)
  have same: "follows h (\<lambda>h S. h) (tasks_on h T) T" by (rule follows_nothing[OF assms]) simp
  then show ?thesis using SysRequest follows_context[OF same, of "web_step (tk_context T) (Request r)"]
    by (simp add: web_step_on del: web_step.simps)
next
  case (SysTake k t ok)
  then show ?thesis using hand_over_follows[OF assms, of k Y p t ok] by simp
next
  case (SysSpectrum x)
  then show ?thesis using spectrum_turn[OF assms, of "sy_libm Y" "sy_fft Y" "sy_clock Y" x]
    by (simp del: spectrum_step.simps)
next
  case (SysWebrtc x)
  then show ?thesis using signalling_turn[OF assms, of "sy_webrtc Y" x] by (simp del: sg_step.simps)
next
  case (SysBluetooth x)
  have same: "follows h (\<lambda>h S. bluetooth_handle h (tk_bluetooth S)) (tasks_on h T) T"
    unfolding follows_def by (rule exI[of _ "[]"]) (use assms in simp)
  show ?thesis using SysBluetooth same bluetooth_turn[OF assms, of "sy_service Y" x] by simp
next
  case (SysMedia x)
  have same: "follows h (\<lambda>h S. mm_handle (tk_media S)) (tasks_on h T) T"
    unfolding follows_def by (rule exI[of _ "[]"]) (use assms in simp)
  show ?thesis using SysMedia same media_turn[OF assms, of x]
    by (cases x) (simp_all del: mm_step.simps)
next
  case SysEqClosed
  have "eq_step E (eq_on h s) EqClosed = eq_on h (eq_step E s EqClosed)" "eq_handle (eq_step E s EqClosed) = eq_handle s"
    for E and s :: "'a eqc" by (simp_all add: eq_on_def)
  then show ?thesis using SysEqClosed assms unfolding follows_def
    by (intro exI[of _ "[]"])
      (simp add: tasks_on_def agrees_def eq_user.agree_def del: eq_step.simps)
next
  case (SysOutputTick finished)
  then show ?thesis using output_turn[OF assms, of "output_env Y p" "OcTick finished"] by (simp del: oc_step.simps)
next
  case SysOutputClosed
  have "oc_step E (oc_on h s) OcClosed = oc_on h (oc_step E s OcClosed)" "oc_handle (oc_step E s OcClosed) = oc_handle s"
    for E and s :: "'a oc" by simp_all
  then show ?thesis using SysOutputClosed assms unfolding follows_def
    by (intro exI[of _ "[]"])
      (simp add: tasks_on_def agrees_def oc_user.agree_def del: oc_step.simps)
next
  case (SysDaemon x)
  have "follows h (\<lambda>h S. h) ((tasks_on h T)\<lparr>tk_daemon := d\<rparr>) (T\<lparr>tk_daemon := d\<rparr>)"
    "follows h (\<lambda>h S. h) (tasks_on h T) T" for d
    unfolding follows_def by (rule exI[of _ "[]"]; use assms in \<open>simp add: tasks_on_def agrees_def\<close>)+
  then show ?thesis using SysDaemon by (simp split: dm_event.split)
next
  case SysWebEnded
  then show ?thesis unfolding follows_def
    by (intro exI[of _ "[]"]) (use assms in \<open>simp add: tasks_on_def agrees_def\<close>)
next
  case SysShutdown
  then show ?thesis using assms unfolding follows_def
    by (intro exI[of _ "[]"])
      (auto simp: tasks_on_def agrees_def shutdown_on shutdown_quiet eq_user.agree_def oc_user.agree_def
        media_user.agree_def service_user.agree_def spectrum_user.agree_def signalling_user.agree_def
        bluetooth_event_def
        service_step_on service_writes_def
        simp del: spectrum_step.simps sg_step.simps mm_step.simps eq_step.simps oc_step.simps
        split: sum.splits)
qed

section \<open>Runs\<close>

lemma handle_after_drop [simp]: "handle_after h (drop_receivers S) e = handle_after h S e"
proof (cases e)
  case (SysTake k t ok)
  then show ?thesis by (cases k) simp_all
qed simp_all

lemma agrees_drop [simp]: "agrees h (drop_receivers T) = agrees h T"
  by (simp add: agrees_def)

lemma process_step_on:
  assumes "agrees h T"
  shows "\<exists>evs. process_step Y p (tasks_on h T) e = tasks_on (fold commit evs h) (tasks_step Y p T e)
    \<and> agrees (fold commit evs h) (tasks_step Y p T e)"
proof -
  let ?S = "tasks_event Y p (tasks_on h T) e"
  obtain evs where evs: "handle_after h ?S e = fold commit evs h"
    "\<And>k. tasks_on k ?S = tasks_on k (tasks_event Y p T e)" "agrees (fold commit evs h) (tasks_event Y p T e)"
    using tasks_event_follows[OF assms, of e Y p] by (auto simp: follows_def)
  have "process_step Y p (tasks_on h T) e = drop_receivers (tasks_on (fold commit evs h) ?S)"
    by (simp add: process_step_def tasks_step_def Let_def evs(1) drop_receivers_on)
  then show ?thesis using evs
    by (intro exI[of _ evs]) (simp add: tasks_step_def drop_receivers_on)
qed

lemma process_run_on:
  "agrees h T \<Longrightarrow>
   \<exists>evs. run (process_step Y p) (tasks_on h T) es = tasks_on (fold commit evs h) (run (tasks_step Y p) T es)
     \<and> agrees (fold commit evs h) (run (tasks_step Y p) T es)"
proof (induction es arbitrary: h T)
  case Nil
  then show ?case by (intro exI[of _ "[]"]) simp
next
  case (Cons e es)
  obtain evs where e: "process_step Y p (tasks_on h T) e = tasks_on (fold commit evs h) (tasks_step Y p T e)"
    "agrees (fold commit evs h) (tasks_step Y p T e)"
    using process_step_on[OF Cons.prems, of Y p e] by blast
  from Cons.IH[OF e(2)] obtain more_evs where
    "run (process_step Y p) (tasks_on (fold commit evs h) (tasks_step Y p T e)) es
       = tasks_on (fold commit more_evs (fold commit evs h)) (run (tasks_step Y p) (tasks_step Y p T e) es)"
    "agrees (fold commit more_evs (fold commit evs h)) (run (tasks_step Y p) (tasks_step Y p T e) es)"
    by blast
  then show ?case by (intro exI[of _ "evs @ more_evs"]) (simp add: e(1))
qed

lemma start_buses:
  "bus (sp_handle (spectrum_start t0 new_handle)) = []" "bus (sg_handle sg_start) = []"
  "bus (eq_handle (eqc_start E route new_handle w)) = []"
  "bus (mm_handle (mm_start new_handle)) = [MediaState None]"
  "\<exists>u. bus (oc_handle (oc_start F new_handle w)) = [OutputStateEv u]
     \<and> oc_handle (oc_start F new_handle w) = commit (OutputStateEv u) new_handle"
  by (auto simp: spectrum_start_def sg_start_def eqc_start_def mm_start_def mm_reconnect_def oc_start_def
      mm_set_media_def publish_output_def set_media_def set_output_def publish_def new_handle_def
      split: prod.split)

lemma service_start_handle:
  "service_start G d q name (new_handle, w) = Inr s \<Longrightarrow>
     bs_handle s = commit (DeviceNameChanged name) new_handle \<and> setup_handle G name w = bs_handle s"
  by (auto simp: service_start_def setup_handle_def bluetooth_setup_def Let_def
      split: sum.splits prod.splits)

lemma setup_bus: "bus (setup_handle G name w) = [] \<or> bus (setup_handle G name w) = [DeviceNameChanged name]"
  by (auto simp: setup_handle_def bluetooth_setup_def Let_def set_device_name_def publish_def new_handle_def
      split: sum.splits prod.splits)

lemma tasks_start_parts:
  "tk_spectrum (tasks_start Y p t0 d q i w) = spectrum_start t0 new_handle"
  "tk_webrtc (tasks_start Y p t0 d q i w) = sg_start"
  "tk_bluetooth (tasks_start Y p t0 d q i w) = service_start (sy_service Y) d q (bp_name p) (new_handle, w)"
  "tk_media (tasks_start Y p t0 d q i w) = mm_start new_handle"
  "tk_eq (tasks_start Y p t0 d q i w) = eqc_start (sy_eq Y) (bp_route p) new_handle w"
  "tk_output (tasks_start Y p t0 d q i w) = oc_start (output_env Y p) new_handle w"
  by (simp_all add: tasks_start_def)

lemma no_events: "bus new_handle = []"
  by (simp add: new_handle_def)

text \<open>What the first events make of the handle.\<close>

lemma first_commits:
  fixes us :: "system_event list" and name :: string and u :: output_state
  assumes "us = [] \<or> us = [DeviceNameChanged name]"
  defines "h \<equiv> fold commit (us @ [MediaState None, OutputStateEv u]) new_handle"
  shows "st_eq (app h) = default_eq_info" "st_media (app h) = None" "st_output (app h) = u"
    "st_bluetooth_devices (app h) = []" "us \<noteq> [] \<Longrightarrow> st_device_name (app h) = name"
    "bus h = us @ [MediaState None, OutputStateEv u]"
  using assms by (auto simp: setter_defs new_handle_def default_app_state_def)

lemma start_agrees:
  "agrees (fold commit (first_events Y p w (tasks_start Y p t0 d q i w)) new_handle)
     (tasks_start Y p t0 d q i w)"
proof -
  let ?b = "service_start (sy_service Y) d q (bp_name p) (new_handle, w)"
  obtain u where u: "bus (oc_handle (oc_start (output_env Y p) new_handle w)) = [OutputStateEv u]"
    "oc_handle (oc_start (output_env Y p) new_handle w) = commit (OutputStateEv u) new_handle"
    using start_buses(5)[of "output_env Y p" w] by (elim exE conjE) (rule that)
  define us where "us = bus (setup_handle (sy_service Y) (bp_name p) w)"
  have us: "us = [] \<or> us = [DeviceNameChanged (bp_name p)]" unfolding us_def by (rule setup_bus)
  have L: "first_events Y p w (tasks_start Y p t0 d q i w) = us @ [MediaState None, OutputStateEv u]"
    by (simp add: first_events_def tasks_start_parts start_buses(1-4) u(1) us_def)
  note f = first_commits[OF us, of u]
  have "eq_user.agree (fold commit (us @ [MediaState None, OutputStateEv u]) new_handle)
      (eqc_start (sy_eq Y) (bp_route p) new_handle w)"
    unfolding eq_user.agree_def f(1,6) start_buses(3)
    using us by (auto simp: eqc_start_def new_handle_def default_app_state_def split: prod.split)
  moreover have "oc_user.agree (fold commit (us @ [MediaState None, OutputStateEv u]) new_handle)
      (oc_start (output_env Y p) new_handle w)"
    unfolding oc_user.agree_def f(3,6) u using us by (auto simp: setter_defs new_handle_def)
  moreover have "media_user.agree (fold commit (us @ [MediaState None, OutputStateEv u]) new_handle)
      (mm_start new_handle)"
    unfolding media_user.agree_def f(2,6) start_buses(4)
    using us by (auto simp: mm_start_def mm_reconnect_def mm_set_media_def media_field.get_put)
  moreover have "spectrum_user.agree (fold commit (us @ [MediaState None, OutputStateEv u]) new_handle)
      (spectrum_start t0 new_handle)"
    unfolding spectrum_user.agree_def f(6) start_buses(1) using us by auto
  moreover have "signalling_user.agree (fold commit (us @ [MediaState None, OutputStateEv u]) new_handle) sg_start"
    unfolding signalling_user.agree_def f(6) start_buses(2) using us by auto
  moreover have "service_user.agree (fold commit (us @ [MediaState None, OutputStateEv u]) new_handle) s"
    if "?b = Inr s" for s
  proof -
    have "us = [DeviceNameChanged (bp_name p)]" "bs_handle s = commit (DeviceNameChanged (bp_name p)) new_handle"
      using service_start_handle[OF that] by (simp_all add: us_def no_events del: commit.simps)
    then show ?thesis unfolding service_user.agree_def f(4,6)
      using f(5) by (simp add: setter_defs new_handle_def default_app_state_def)
  qed
  ultimately show ?thesis
    unfolding agrees_def L tasks_start_parts by (cases ?b) simp_all
qed

text \<open>What the tasks keep, each in its own theory.\<close>

definition tasks_ok :: "('w, 'c) system_env \<Rightarrow> 'w tasks \<Rightarrow> bool" where
  "tasks_ok Y T \<longleftrightarrow> eq_inv (tk_eq T) \<and> oc_inv (tk_output T) \<and> art_inv (tk_media T)
     \<and> (case tk_bluetooth T of Inl _ \<Rightarrow> True | Inr s \<Rightarrow> service_inv (sy_service Y) s)"

lemmas task_steps = equaliser.step_inv outputs.step_inv artwork.step_inv service.step_inv

lemma tasks_ok_context [simp]: "tasks_ok Y (T\<lparr>tk_context := x\<rparr>) = tasks_ok Y T"
  by (simp add: tasks_ok_def)

lemma tasks_ok_hand_over: "tasks_ok Y T \<Longrightarrow> tasks_ok Y (hand_over Y p k t ok T)"
  by (cases k)
    (auto simp: tasks_ok_def task_steps simp del: web_step.simps eq_step.simps oc_step.simps mm_step.simps
      split: list.split sum.splits option.split mm_phase.split)

lemma tasks_ok_step: "tasks_ok Y T \<Longrightarrow> tasks_ok Y (tasks_step Y p T e)"
proof -
  assume ok: "tasks_ok Y T"
  have "tasks_ok Y (tasks_event Y p T e)"
  proof (cases e)
    case (SysTake k t b)
    then show ?thesis using tasks_ok_hand_over[OF ok] by simp
  next
    case (SysMedia x)
    then show ?thesis using ok artwork.step_inv[of "tk_media T" x]
      by (cases x) (simp_all add: tasks_ok_def del: mm_step.simps)
  next
    case (SysDaemon x)
    then show ?thesis using ok by (cases x) (simp_all add: tasks_ok_def)
  qed (use ok in \<open>auto simp: tasks_ok_def task_steps bluetooth_event_def
        simp del: web_step.simps eq_step.simps oc_step.simps mm_step.simps spectrum_step.simps sg_step.simps
        split: sum.splits\<close>)
  then show ?thesis by (simp add: tasks_step_def tasks_ok_def)
qed

interpretation tasks: machine "tasks_step Y p" "tasks_ok Y" for Y p
  by unfold_locales (rule tasks_ok_step)

lemma tasks_ok_start:
  assumes "bp_route p = default_desired_route"
  shows "tasks_ok Y (tasks_start Y p t0 d q i w)"
proof -
  have "st_eq (app new_handle) = default_eq_info" "st_bluetooth_devices (app new_handle) = []"
    by (simp_all add: new_handle_def default_app_state_def)
  then show ?thesis
    unfolding tasks_ok_def tasks_start_parts assms
    by (auto intro: eqc_start_inv oc_start_inv mm_start_art service_start_inv split: sum.split)
qed

text \<open>A run of the process, against that of the tasks on handles of their own.\<close>

lemma process_follows_tasks:
  obtains h where "run (process_step Y p) (process_start Y p t0 d q i w) es
      = tasks_on h (run (tasks_step Y p) (tasks_start Y p t0 d q i w) es)"
    and "agrees h (run (tasks_step Y p) (tasks_start Y p t0 d q i w) es)"
  using process_run_on[OF start_agrees[of Y p w t0 d q i], of Y p es] unfolding process_start_def Let_def
  by blast

text \<open>From any state of a run the handle only grows by commits.\<close>

lemma process_commits:
  assumes "agrees h T"
  shows "\<exists>evs. shared_handle (run (process_step Y p) (tasks_on h T) es) = fold commit evs h"
  using process_run_on[OF assms, of Y p es] by (metis tasks_on_simps(10))

lemma tasks_in_process:
  assumes "agrees h T" "tasks_ok Y T"
  shows "let P = tasks_on h T; v = web_status (tk_context P) in
     sn_output v = \<lparr>os_active = oc_active (tk_output P), os_available = oc_available (tk_output P),
                    os_cast_health = oc_health (tk_output P)\<rparr>
     \<and> (if oc_done (tk_output P) then True else single_active (tk_output P))
     \<and> (if eq_stuck (tk_eq P) then True
        else sn_eq v = eq_info_of (eq_sup (tk_eq P)) (gains_to_bands (eq_gains (tk_eq P))))
     \<and> stamped_by (mm_found (tk_media P)) (sn_media v)
     \<and> (case tk_bluetooth P of
          Inl _ \<Rightarrow> True
        | Inr s \<Rightarrow> if bs_seen s = length (bt_sent (bs_mgr s))
                  then \<forall>a. listed a (sn_bluetooth_devices v)
                        = map_option device_state_as_str (state_of a (bt_mgr (bs_mgr s)))
                  else True)"
proof -
  have out: "st_output (app h) = st_output (app (oc_handle (tk_output T)))"
    and eq: "st_eq (app h) = st_eq (app (eq_handle (tk_eq T)))"
    and media: "st_media (app h) = st_media (app (mm_handle (tk_media T)))"
    using assms(1) by (simp_all add: agrees_def oc_user.agree_def eq_user.agree_def media_user.agree_def)
  have single: "single_active (oc_on h s) = single_active s" for s :: "'a oc"
    by (simp add: single_active_def)
  have own: "eq_stuck (eq_on h s) = eq_stuck s" "eq_sup (eq_on h s) = eq_sup s" "eq_gains (eq_on h s) = eq_gains s"
    for s :: "'a eqc" by (simp_all add: eq_on_def)
  have bt: "case tk_bluetooth T of Inl _ \<Rightarrow> True
      | Inr s \<Rightarrow> if bs_seen s = length (bt_sent (bs_mgr s))
          then \<forall>a. listed a (st_bluetooth_devices (app h))
            = map_option device_state_as_str (state_of a (bt_mgr (bs_mgr s))) else True"
    using assms caught_up_listed
    by (auto simp: agrees_def service_user.agree_def tasks_ok_def split: sum.splits)
  show ?thesis
    using assms(2) bt
    by (auto simp: Let_def web_status_def snapshot_def snapshot_of_def tasks_ok_def oc_inv_def eq_inv_def
        art_inv_def single own out eq media split: sum.splits if_splits)
qed

section \<open>Properties\<close>

text \<open>What a task has published on the handle of its own, if it runs.\<close>

fun bus_of :: "writer \<Rightarrow> 'w tasks \<Rightarrow> system_event list option" where
  "bus_of SpectrumTask T = Some (bus (sp_handle (tk_spectrum T)))"
| "bus_of SignallingTask T = Some (bus (sg_handle (tk_webrtc T)))"
| "bus_of BluetoothTask T = (case tk_bluetooth T of Inl _ \<Rightarrow> None | Inr s \<Rightarrow> Some (bus (bs_handle s)))"
| "bus_of MediaTask T = Some (bus (mm_handle (tk_media T)))"
| "bus_of EqTask T = Some (bus (eq_handle (tk_eq T)))"
| "bus_of OutputTask T = Some (bus (oc_handle (tk_output T)))"

lemma agrees_bus:
  "agrees h T \<Longrightarrow> (case bus_of x T of None \<Rightarrow> True | Some b \<Rightarrow> filter (\<lambda>ev. writer_of ev = x) (bus h) = b)"
  by (cases x)
    (simp_all add: agrees_def eq_user.agree_def oc_user.agree_def media_user.agree_def service_user.agree_def
      spectrum_user.agree_def signalling_user.agree_def split: sum.splits)

text \<open>
  C6 (sharing is invisible).  In every run of the process the tasks, which all publish to one handle, are
  in the states they would be in with a handle each; and what each of them has published, taken out of
  the shared bus, is what it would have published alone.
\<close>

theorem sharing_is_invisible:
  "(let P = run (process_step Y p) (process_start Y p t0 d q i w) es;
        T = run (tasks_step Y p) (tasks_start Y p t0 d q i w) es in
     P = tasks_on (shared_handle P) T
     \<and> (case bus_of x T of
          None \<Rightarrow> True
        | Some b \<Rightarrow> filter (\<lambda>ev. writer_of ev = x) (bus (shared_handle P)) = b))"
proof -
  obtain h where P: "run (process_step Y p) (process_start Y p t0 d q i w) es
      = tasks_on h (run (tasks_step Y p) (tasks_start Y p t0 d q i w) es)"
    "agrees h (run (tasks_step Y p) (tasks_start Y p t0 d q i w) es)"
    by (rule process_follows_tasks)
  show ?thesis unfolding Let_def P(1) tasks_on_simps using agrees_bus[OF P(2)] by (rule conjI[OF refl])
qed


end
