(* ===== verification/Routing.thy ===== *)
theory Routing
  imports Process
begin

text \<open>
  The equaliser and the daemon together: the controller sends the desired route over a watch channel
  (\<open>route_tx\<close> of src/src/audio/eq_controller.rs), and the reconcile loop and the command handler of
  src/src/daemon.rs read it when they start a bring-up.  They move the default sink; the controller only
  asks for it.  The theory shows where the default sink ends up, in the process as it is booted.
\<close>

section \<open>The daemon on the way to a route\<close>

text \<open>
  The daemon is on the way to a route that nothing changes any more: a bring-up with another route that
  is still under way is followed by one more, because an event waits in the channel.
\<close>

definition pursues :: "desired_route \<Rightarrow> 'w dm \<Rightarrow> bool" where
  "pursues route d \<longleftrightarrow> rc_route (dm_rc d) = route
     \<and> (dm_reassert d = None \<or> dm_reassert d = Some route)
     \<and> (case rc_phase (dm_rc d) of
          Debouncing \<Rightarrow> True
        | BringingUp old \<Rightarrow> old = route \<or> rc_queue (dm_rc d) \<noteq> []
        | _ \<Rightarrow> rc_routes (dm_rc d) \<noteq> [] \<and> last (rc_routes (dm_rc d)) = route)"

definition moves_route :: "dm_event \<Rightarrow> bool" where
  "moves_route e \<longleftrightarrow> (\<exists>route. e = DmRoute route)"

lemmas loop_defs = loops_step_def run_command_def reasserted_def read_route_def assert_route_def
  next_round_def

lemma settle_rc [simp]: "dm_rc (settle s) = dm_rc s" "dm_reassert (settle s) = dm_reassert s"
  by (simp_all add: settle_def)

lemma pursues_settle [simp]: "pursues route (settle s) = pursues route s"
  unfolding pursues_def settle_rc ..

lemma pursues_step:
  assumes "pursues route d" "\<not> moves_route e" "dm_result (dm_step r t sp d e) = None"
  shows "pursues route (dm_step r t sp d e)"
proof -
  have run: "dm_result d = None" using assms(3) by (cases "dm_result d") (auto simp: dm_step_def)
  have "e \<noteq> DmShutdown" using assms(3) dm_shutdown_returns[OF run, of r t sp] by (auto simp: Let_def)
  then have "pursues route (loops_step r t sp d e)" using assms(1,2)
    by (cases e; cases "rc_phase (dm_rc d)")
      (auto simp: pursues_def moves_route_def loop_defs split: daemon_command.split)
  then show ?thesis using run by (simp add: dm_step_def)
qed

text \<open>A graph event that the loop can still receive sets it on the way to the route of the time.\<close>

lemma graph_event_pursues:
  assumes "dm_result (dm_step r t sp d (DmGraph g)) = None" "rc_phase (dm_rc d) \<noteq> Returned"
    "\<not> rc_gone (dm_rc d)" "dm_reassert d = None"
  shows "pursues (rc_route (dm_rc d)) (dm_step r t sp d (DmGraph g))"
  using assms
  by (cases "dm_result d"; cases "rc_phase (dm_rc d)")
    (auto simp: pursues_def dm_step_def loops_step_def GRAPH_CHANNEL_def)

section \<open>The equaliser and the daemon\<close>

text \<open>What the daemon reads is what the equaliser sent, and both only name sinks of the program.\<close>

definition own_sink :: "desired_route \<Rightarrow> bool" where
  "own_sink route \<longleftrightarrow> default_sink route = NULL_SINK_NAME \<or> default_sink route = EQ_SINK_NAME"

definition routes_known :: "'w rc \<Rightarrow> bool" where
  "routes_known s \<longleftrightarrow> own_sink (rc_route s) \<and> list_all own_sink (rc_routes s)
     \<and> (case rc_phase s of BringingUp route \<Rightarrow> own_sink route | _ \<Rightarrow> True)"

definition dm_known :: "'w dm \<Rightarrow> bool" where
  "dm_known d \<longleftrightarrow> routes_known (dm_rc d) \<and> pred_option own_sink (dm_reassert d)"

lemma dm_known_settle [simp]: "dm_known (settle d) = dm_known d"
  by (simp add: dm_known_def)

lemma dm_known_step:
  assumes "dm_known d" "\<And>route. e = DmRoute route \<Longrightarrow> own_sink route"
  shows "dm_known (dm_step r t sp d e)"
proof -
  have "dm_known (loops_step r t sp d e)" using assms
    by (cases e; cases "rc_phase (dm_rc d)"; cases "dm_reassert d")
      (auto simp: dm_known_def routes_known_def loop_defs split: daemon_command.split)
  then show ?thesis using assms(1) by (simp add: dm_step_def)
qed

lemma eq_sends_own_sinks: "own_sink (eq_route s) \<Longrightarrow> own_sink (eq_route (eq_step E s e))"
  by (induction E s e rule: eq_step.induct)
    (auto simp: own_sink_def enable_def disable_def update_gains_def Let_def act_def send_route_def
      abort_supervisor_def split: option.split prod.split)

lemma rc_inv_updates [simp]:
  "rc_inv (s\<lparr>rc_world := w\<rparr>) = rc_inv s" "rc_inv (assert_route r t route s) = rc_inv s"
  by (simp_all add: rc_inv_def assert_route_def split: rc_phase.split)

lemma rc_inv_dm_step: "rc_inv (dm_rc d) \<Longrightarrow> rc_inv (dm_rc (dm_step r t sp d e))"
  by (cases e) (auto simp: dm_step_def loops_step_def run_command_def reasserted_def reconciler.step_inv
      simp del: rc_step.simps split: daemon_command.split option.split)

text \<open>Only the commands of the equaliser move the route; every other step of the daemon is its own.\<close>

fun commands_eq :: "system_step \<Rightarrow> bool" where
  "commands_eq (SysTake TakeEq _ _) = True"
| "commands_eq _ = False"

definition reads_route :: "'w tasks \<Rightarrow> bool" where
  "reads_route T \<longleftrightarrow> own_sink (eq_route (tk_eq T)) \<and> dm_known (tk_daemon T)
     \<and> rc_inv (dm_rc (tk_daemon T))
     \<and> (dm_result (tk_daemon T) = None \<longrightarrow> rc_route (dm_rc (tk_daemon T)) = eq_route (tk_eq T))"

lemma other_steps:
  assumes "\<not> commands_eq e"
  shows "eq_route (tk_eq (tasks_step Y p T e)) = eq_route (tk_eq T)"
    "tk_daemon (tasks_step Y p T e) = tk_daemon T
     \<or> (\<exists>x. \<not> moves_route x
          \<and> tk_daemon (tasks_step Y p T e) = dm_step (sy_run Y) (sy_timer Y) (sy_spawner Y) (tk_daemon T) x)"
proof -
  have "eq_route (tk_eq (tasks_event Y p T e)) = eq_route (tk_eq T)
    \<and> (tk_daemon (tasks_event Y p T e) = tk_daemon T
       \<or> (\<exists>x. \<not> moves_route x
            \<and> tk_daemon (tasks_event Y p T e) = dm_step (sy_run Y) (sy_timer Y) (sy_spawner Y) (tk_daemon T) x))"
  proof (cases e)
    case (SysTake k t ok)
    then show ?thesis using assms
      by (cases k) (auto simp: moves_route_def simp del: web_step.simps mm_step.simps oc_step.simps
          split: list.split option.split sum.split mm_phase.split)
  next
    case (SysMedia x)
    then show ?thesis by (cases x) (simp_all del: mm_step.simps)
  next
    case (SysDaemon x)
    then show ?thesis by (cases x) (auto simp: moves_route_def)
  next
    case SysShutdown
    then show ?thesis by (auto simp: moves_route_def simp del: mm_step.simps oc_step.simps spectrum_step.simps sg_step.simps)
  qed (simp_all del: web_step.simps mm_step.simps oc_step.simps spectrum_step.simps sg_step.simps)
  then show "eq_route (tk_eq (tasks_step Y p T e)) = eq_route (tk_eq T)"
    "tk_daemon (tasks_step Y p T e) = tk_daemon T
     \<or> (\<exists>x. \<not> moves_route x
          \<and> tk_daemon (tasks_step Y p T e) = dm_step (sy_run Y) (sy_timer Y) (sy_spawner Y) (tk_daemon T) x)"
    by (simp_all add: tasks_step_def)
qed

lemma own_steps_keep_route:
  "\<not> moves_route x \<Longrightarrow> rc_route (dm_rc (dm_step r t sp d x)) = rc_route (dm_rc d)"
  by (cases x; cases "rc_phase (dm_rc d)")
    (auto simp: dm_step_def moves_route_def loop_defs split: daemon_command.split option.split)

lemma sent_route_is_read:
  "dm_result (dm_step r t sp d (DmRoute route)) = None \<Longrightarrow>
     rc_route (dm_rc (dm_step r t sp d (DmRoute route))) = route"
  by (cases "dm_result d") (auto simp: dm_step_def loops_step_def)

lemma reads_route_step: "reads_route T \<Longrightarrow> reads_route (tasks_step Y p T e)"
proof -
  assume ok: "reads_route T"
  show ?thesis
  proof (cases "commands_eq e")
    case True
    then obtain t b where e: "e = SysTake TakeEq t b" by (cases e rule: commands_eq.cases) auto
    show ?thesis using ok unfolding e
      by (auto simp: tasks_step_def reads_route_def watch_route_def eq_sends_own_sinks sent_route_is_read
          intro!: dm_known_step rc_inv_dm_step simp del: eq_step.simps web_step.simps split: option.split list.split)
  next
    case False
    note o = other_steps[OF False, of Y p T]
    show ?thesis using o(2)
    proof (elim disjE exE conjE)
      assume "tk_daemon (tasks_step Y p T e) = tk_daemon T"
      then show ?thesis using ok by (simp add: reads_route_def o(1))
    next
      fix x
      assume x: "\<not> moves_route x" "tk_daemon (tasks_step Y p T e)
          = dm_step (sy_run Y) (sy_timer Y) (sy_spawner Y) (tk_daemon T) x"
      have "dm_result (dm_step (sy_run Y) (sy_timer Y) (sy_spawner Y) (tk_daemon T) x) = None
          \<Longrightarrow> dm_result (tk_daemon T) = None"
        by (cases "dm_result (tk_daemon T)") (auto simp: dm_step_def)
      then show ?thesis using ok x
        by (auto simp: reads_route_def o(1) own_steps_keep_route moves_route_def intro!: dm_known_step rc_inv_dm_step)
    qed
  qed
qed

interpretation routes: machine "tasks_step Y p" reads_route for Y p
  by unfold_locales (rule reads_route_step)

lemma reads_route_start:
  assumes "bp_route p = default_desired_route"
  shows "reads_route (tasks_start Y p t0 d q i w)"
proof -
  have "own_sink default_desired_route" by (simp add: own_sink_def default_desired_route_def)
  then show ?thesis
    by (simp add: reads_route_def tasks_start_def assms eqc_start_def dm_start_def rc_start_def
        dm_known_def routes_known_def rc_inv_def split: prod.split)
qed

text \<open>On the way, until the equaliser gets another command.\<close>

definition on_the_way :: "desired_route \<Rightarrow> 'w tasks \<Rightarrow> bool" where
  "on_the_way route T \<longleftrightarrow> eq_route (tk_eq T) = route
     \<and> (dm_result (tk_daemon T) = None \<longrightarrow> pursues route (tk_daemon T))"

lemma on_the_way_step:
  assumes "on_the_way route T" "\<not> commands_eq e"
  shows "on_the_way route (tasks_step Y p T e)"
  using other_steps(2)[OF assms(2), of Y p T]
proof (elim disjE exE conjE)
  assume "tk_daemon (tasks_step Y p T e) = tk_daemon T"
  then show ?thesis using assms(1) by (simp add: on_the_way_def other_steps(1)[OF assms(2)])
next
  fix x
  assume x: "\<not> moves_route x" "tk_daemon (tasks_step Y p T e)
      = dm_step (sy_run Y) (sy_timer Y) (sy_spawner Y) (tk_daemon T) x"
  have "pursues route (dm_step (sy_run Y) (sy_timer Y) (sy_spawner Y) (tk_daemon T) x)"
    if r: "dm_result (dm_step (sy_run Y) (sy_timer Y) (sy_spawner Y) (tk_daemon T) x) = None"
  proof (rule pursues_step[OF _ x(1) r])
    show "pursues route (tk_daemon T)"
      using r assms(1) by (cases "dm_result (tk_daemon T)") (auto simp: dm_step_def on_the_way_def)
  qed
  then show ?thesis using assms(1) x(2) by (simp add: on_the_way_def other_steps(1)[OF assms(2)])
qed

lemma on_the_way_run:
  "on_the_way route T \<Longrightarrow> \<not> list_ex commands_eq es \<Longrightarrow> on_the_way route (run (tasks_step Y p) T es)"
  by (induction es arbitrary: T) (auto simp: on_the_way_step)

text \<open>The loop can receive an event, and no client's bring-up, with the route of its time, is under way.\<close>

definition attentive :: "'w dm \<Rightarrow> bool" where
  "attentive d \<longleftrightarrow> rc_phase (dm_rc d) \<noteq> Returned \<and> \<not> rc_gone (dm_rc d) \<and> dm_reassert d = None"

lemma graph_event_on_the_way:
  assumes "reads_route T" "attentive (tk_daemon T)"
  shows "on_the_way (eq_route (tk_eq T)) (tasks_step Y p T (SysDaemon (DmGraph g)))"
proof -
  let ?d = "dm_step (sy_run Y) (sy_timer Y) (sy_spawner Y) (tk_daemon T) (DmGraph g)"
  have "pursues (eq_route (tk_eq T)) ?d" if r: "dm_result ?d = None"
  proof -
    have "dm_result (tk_daemon T) = None" using r by (cases "dm_result (tk_daemon T)") (auto simp: dm_step_def)
    then show ?thesis using graph_event_pursues[OF r] assms by (simp add: attentive_def reads_route_def)
  qed
  then show ?thesis by (simp add: on_the_way_def tasks_step_def)
qed

text \<open>Two windows are enough, also when a bring-up is under way at the event.\<close>

definition two_windows :: "system_step list" where
  "two_windows = map SysDaemon [DmWindowElapsed, DmBroughtUp, DmWindowElapsed, DmBroughtUp]"

lemma dm_goes_on:
  "dm_result d = None \<Longrightarrow> rc_phase (dm_rc (loops_step r t sp d e)) \<noteq> Returned \<Longrightarrow>
     dm_step r t sp d e = loops_step r t sp d e"
  by (simp add: dm_step_def settle_def)

lemma two_windows_settle:
  assumes "reads_route T" "attentive (tk_daemon T)" "dm_result (tk_daemon T) = None"
  shows "let d = tk_daemon (run (tasks_step Y p) T (SysDaemon (DmGraph g) # two_windows)) in
     dm_result d = None \<and> rc_phase (dm_rc d) = Waiting"
proof -
  have "let d = run (dm_step r t sp) (tk_daemon T)
            [DmGraph g, DmWindowElapsed, DmBroughtUp, DmWindowElapsed, DmBroughtUp] in
      dm_result d = None \<and> rc_phase (dm_rc d) = Waiting" for r t sp
    using assms by (cases "rc_phase (dm_rc (tk_daemon T))")
      (auto simp: reads_route_def rc_inv_def attentive_def GRAPH_CHANNEL_def dm_goes_on loop_defs Let_def)
  then show ?thesis by (simp add: two_windows_def tasks_step_def)
qed

section \<open>Properties\<close>


end
