(* ===== verification/Clients.thy ===== *)
theory Clients
  imports Process
begin

text \<open>
  The clients in the process: the status sockets (\<open>ws_connection\<close> of src/src/web/server.rs), any number
  of them at a time, next to the tasks of Process.  Each reads the shared bus at its own pace over a
  receiver that holds a bounded number of events, and sends its commands to the WebRTC task.

  A socket subscribes before it takes its first snapshot.  An offer is sent at once, and then the task of
  the socket does nothing else until the answer, or the loss of the sender of it, has arrived.
\<close>

section \<open>The sockets\<close>

definition BUS_CAPACITY :: nat where "BUS_CAPACITY = 256"

datatype offer_state = NoOffer | OfferSent duration string | OfferReplied duration string "string option"

text \<open>
  The receiver has been given, or has lost, the first \<open>cl_read\<close> events of the bus, counting those from
  before the subscription at \<open>cl_from\<close>.  \<open>cl_lagged\<close> records that it ever lost one.
\<close>

record client =
  cl_conn :: "ws_conn option"
  cl_offer :: offer_state
  cl_from :: nat
  cl_read :: nat
  cl_lagged :: bool

record 'w site =
  si_tasks :: "'w tasks"
  si_clients :: "uuid \<Rightarrow> client option"
  si_shutdown :: bool

definition subscribed :: "nat \<Rightarrow> client" where
  "subscribed n = \<lparr>cl_conn = None, cl_offer = NoOffer, cl_from = n, cl_read = n, cl_lagged = False\<rparr>"

definition put_client :: "uuid \<Rightarrow> client \<Rightarrow> 'w site \<Rightarrow> 'w site" where
  "put_client u cl S = S\<lparr>si_clients := (si_clients S)(u := Some cl)\<rparr>"

definition send_commands ::
    "('w, 'c) system_env \<Rightarrow> boot_plan \<Rightarrow> webrtc_command list \<Rightarrow> 'w tasks \<Rightarrow> 'w tasks" where
  "send_commands Y p cs T = run (process_step Y p) T (map (\<lambda>c. SysWebrtc (SgSend c)) cs)"

definition new_commands :: "ws_conn \<Rightarrow> ws_conn \<Rightarrow> webrtc_command list" where
  "new_commands c c' = drop (length (cn_cmds c)) (cn_cmds c')"

text \<open>A step of an open socket; of its commands the first \<open>n\<close> are on their way already.\<close>

definition socket_turn ::
    "('w, 'c) system_env \<Rightarrow> boot_plan \<Rightarrow> (nat \<Rightarrow> bool) \<Rightarrow> nat \<Rightarrow> ws_event \<Rightarrow> uuid \<Rightarrow> client \<Rightarrow> 'w site
      \<Rightarrow> 'w site" where
  "socket_turn Y p wok n e u cl S =
     (case cl_conn cl of
        None \<Rightarrow> S
      | Some c \<Rightarrow>
          if cn_done c then S
          else put_client u (cl\<lparr>cl_conn := Some (ws_step wok u c e)\<rparr>)
                 (S\<lparr>si_tasks := send_commands Y p (drop n (new_commands c (ws_step wok u c e))) (si_tasks S)\<rparr>))"

text \<open>The broadcast channel: a receiver that fell behind by more than it holds goes on with the oldest event left.\<close>

definition read_bus ::
    "('w, 'c) system_env \<Rightarrow> boot_plan \<Rightarrow> (nat \<Rightarrow> bool) \<Rightarrow> uuid \<Rightarrow> client \<Rightarrow> 'w site \<Rightarrow> 'w site" where
  "read_bus Y p wok u cl S =
     (let b = bus (shared_handle (si_tasks S)); n = cl_read cl in
      if length b \<le> n then S
      else if BUS_CAPACITY < length b - n
      then socket_turn Y p wok 0 WsLagged u (cl\<lparr>cl_read := length b - BUS_CAPACITY, cl_lagged := True\<rparr>) S
      else socket_turn Y p wok 0 (WsBusEvent (b ! n)) u (cl\<lparr>cl_read := Suc n\<rparr>) S)"

definition receive_frame ::
    "('w, 'c) system_env \<Rightarrow> boot_plan \<Rightarrow> (nat \<Rightarrow> bool) \<Rightarrow> duration \<Rightarrow> ws_incoming \<Rightarrow> uuid \<Rightarrow> client
      \<Rightarrow> 'w site \<Rightarrow> 'w site" where
  "receive_frame Y p wok t m u cl S =
     (case m of
        TextFrame (Some (WsWebrtcOffer sdp)) \<Rightarrow>
          put_client u (cl\<lparr>cl_offer := OfferSent t sdp\<rparr>)
            (S\<lparr>si_tasks := send_commands Y p [RtcOffer u sdp] (si_tasks S)\<rparr>)
      | _ \<Rightarrow> socket_turn Y p wok 0 (WsIncoming t m None) u cl S)"

definition socket_open :: "client \<Rightarrow> bool" where
  "socket_open cl \<longleftrightarrow> (case cl_conn cl of None \<Rightarrow> False | Some c \<Rightarrow> \<not> cn_done c)"

text \<open>The answer to the offer at the head of the channel, when the loop handles it.\<close>

definition answer_of :: "string + string \<Rightarrow> string option" where
  "answer_of r = (case r of Inl _ \<Rightarrow> None | Inr sdp \<Rightarrow> Some sdp)"

definition reply_offer ::
    "webrtc_lib \<Rightarrow> signalling \<Rightarrow> (uuid \<Rightarrow> client option) \<Rightarrow> uuid \<Rightarrow> client option" where
  "reply_offer L s cls =
     (case sg_queue s of
        RtcOffer u sdp # _ \<Rightarrow>
          (case cls u of
             None \<Rightarrow> cls
           | Some cl \<Rightarrow>
               (case cl_offer cl of
                  OfferSent t x \<Rightarrow>
                    cls(u := Some (cl\<lparr>cl_offer := OfferReplied t x
                              (answer_of (fst (handle_offer L u sdp (sg_rtc s))))\<rparr>))
                | _ \<Rightarrow> cls))
      | _ \<Rightarrow> cls)"

definition offer_answered ::
    "('w, 'c) system_env \<Rightarrow> boot_plan \<Rightarrow> (nat \<Rightarrow> bool) \<Rightarrow> uuid \<Rightarrow> client \<Rightarrow> 'w site \<Rightarrow> 'w site" where
  "offer_answered Y p wok u cl S =
     (case (case cl_offer cl of
              NoOffer \<Rightarrow> None
            | OfferReplied t sdp answer \<Rightarrow> Some (t, sdp, answer)
            | OfferSent t sdp \<Rightarrow>
                if wc_done (sg_rtc (tk_webrtc (si_tasks S))) then Some (t, sdp, None) else None) of
        None \<Rightarrow> S
      | Some (t, sdp, answer) \<Rightarrow>
          socket_turn Y p wok 1 (WsIncoming t (TextFrame (Some (WsWebrtcOffer sdp))) answer) u
            (cl\<lparr>cl_offer := NoOffer\<rparr>) S)"

section \<open>Steps\<close>

text \<open>What a socket that is not waiting for an answer does, and what makes it do it.\<close>

datatype socket_event =
    ReadBus
  | Keepalive duration
  | Incoming duration ws_incoming
  | Disconnected
  | SeesShutdown

fun select_step ::
    "('w, 'c) system_env \<Rightarrow> boot_plan \<Rightarrow> (nat \<Rightarrow> bool) \<Rightarrow> socket_event \<Rightarrow> uuid \<Rightarrow> client \<Rightarrow> 'w site
      \<Rightarrow> 'w site" where
  "select_step Y p wok ReadBus u cl S = read_bus Y p wok u cl S"
| "select_step Y p wok (Keepalive t) u cl S = socket_turn Y p wok 0 (WsTick t) u cl S"
| "select_step Y p wok (Incoming t m) u cl S =
     (if socket_open cl then receive_frame Y p wok t m u cl S else S)"
| "select_step Y p wok Disconnected u cl S = socket_turn Y p wok 0 WsGone u cl S"
| "select_step Y p wok SeesShutdown u cl S =
     (if si_shutdown S then socket_turn Y p wok 0 WsShutdown u cl S else S)"

datatype site_event =
    InTasks system_step
  | Connect uuid
  | FirstSnapshot uuid duration
  | InSocket uuid socket_event
  | OfferAnswered uuid

fun sends_command :: "system_step \<Rightarrow> bool" where
  "sends_command (SysWebrtc (SgSend _)) = True"
| "sends_command _ = False"

fun loop_handles :: "system_step \<Rightarrow> bool" where
  "loop_handles (SysWebrtc SgHandle) = True"
| "loop_handles _ = False"

fun raises_shutdown :: "system_step \<Rightarrow> bool" where
  "raises_shutdown SysShutdown = True"
| "raises_shutdown _ = False"

text \<open>
  The commands to the WebRTC task are those of the sockets and of the callbacks of the connections.
  The frames of the socket \<open>u\<close> that get through are \<open>net u\<close>; the number of a socket is not used twice.
\<close>

fun site_step ::
    "('w, 'c) system_env \<Rightarrow> boot_plan \<Rightarrow> (uuid \<Rightarrow> nat \<Rightarrow> bool) \<Rightarrow> 'w site \<Rightarrow> site_event \<Rightarrow> 'w site" where
  "site_step Y p net S (InTasks e) =
     (if sends_command e then S
      else S\<lparr>si_tasks := process_step Y p (si_tasks S) e,
             si_clients := (if loop_handles e
                            then reply_offer (sy_webrtc Y) (tk_webrtc (si_tasks S)) (si_clients S)
                            else si_clients S),
             si_shutdown := (si_shutdown S \<or> raises_shutdown e)\<rparr>)"
| "site_step Y p net S (Connect u) =
     (if tk_web_ended (si_tasks S) \<or> si_clients S u \<noteq> None then S
      else put_client u (subscribed (length (bus (shared_handle (si_tasks S))))) S)"
| "site_step Y p net S (FirstSnapshot u t) =
     (case si_clients S u of
        Some cl \<Rightarrow>
          if cl_conn cl = None
          then put_client u
                 (cl\<lparr>cl_conn := Some (ws_start (net u) (web_status (tk_context (si_tasks S))) t)\<rparr>) S
          else S
      | None \<Rightarrow> S)"
| "site_step Y p net S (InSocket u e) =
     (case si_clients S u of
        Some cl \<Rightarrow> if cl_offer cl = NoOffer then select_step Y p (net u) e u cl S else S
      | None \<Rightarrow> S)"
| "site_step Y p net S (OfferAnswered u) =
     (case si_clients S u of
        Some cl \<Rightarrow> offer_answered Y p (net u) u cl S
      | None \<Rightarrow> S)"

definition site_start ::
    "('w, 'c) system_env \<Rightarrow> boot_plan \<Rightarrow> int \<Rightarrow> bool \<Rightarrow> bool \<Rightarrow> bool \<Rightarrow> 'w \<Rightarrow> 'w site" where
  "site_start Y p t0 discoverable pairable interrupted w =
     \<lparr>si_tasks = process_start Y p t0 discoverable pairable interrupted w, si_clients = (\<lambda>_. None),
      si_shutdown = False\<rparr>"

text \<open>
  What the page shows (the store of src/webui/src/lib/store.tsx): the first snapshot, with every message
  that followed in its place.  A snapshot without a device name leaves the one that is shown.
\<close>

definition shown_name :: "app_state_snapshot option \<Rightarrow> string" where
  "shown_name v = (case v of None \<Rightarrow> ''SoundSync'' | Some s \<Rightarrow> sn_device_name s)"

fun show_frame :: "app_state_snapshot option \<Rightarrow> ws_frame \<Rightarrow> app_state_snapshot option" where
  "show_frame v (WsText (WsStateSnapshot s)) =
     Some (if sn_device_name s = [] then s\<lparr>sn_device_name := shown_name v\<rparr> else s)"
| "show_frame v (WsText (WsBluetoothDevices ds)) = map_option (\<lambda>s. s\<lparr>sn_bluetooth_devices := ds\<rparr>) v"
| "show_frame v (WsText (WsMediaState m)) = map_option (\<lambda>s. s\<lparr>sn_media := m\<rparr>) v"
| "show_frame v (WsText (WsEqState e)) = map_option (\<lambda>s. s\<lparr>sn_eq := e\<rparr>) v"
| "show_frame v (WsText (WsDeviceName n)) = map_option (\<lambda>s. s\<lparr>sn_device_name := n\<rparr>) v"
| "show_frame v (WsText (WsOutputState x)) = map_option (\<lambda>s. s\<lparr>sn_output := x\<rparr>) v"
| "show_frame v _ = v"

definition screen :: "ws_frame list \<Rightarrow> app_state_snapshot option" where
  "screen frames = foldl show_frame None frames"

section \<open>The tasks behind the sockets\<close>

text \<open>The tasks as a run of the process leaves them: their handle is the one that its bus makes.\<close>

definition in_run :: "'w tasks \<Rightarrow> bool" where
  "in_run T \<longleftrightarrow> (\<exists>h U. T = tasks_on h U \<and> agrees h U \<and> h = fold commit (bus h) new_handle)"

definition state_at :: "system_event list \<Rightarrow> nat \<Rightarrow> app_handle" where
  "state_at b k = fold commit (take k b) new_handle"

lemma in_run_step:
  assumes "in_run T"
  shows "in_run (process_step Y p T e)"
    "\<exists>evs. bus (shared_handle (process_step Y p T e)) = bus (shared_handle T) @ evs"
proof -
  obtain h U where T: "T = tasks_on h U" "agrees h U" "h = fold commit (bus h) new_handle"
    using assms by (auto simp: in_run_def)
  obtain evs where evs: "process_step Y p T e = tasks_on (fold commit evs h) (tasks_step Y p U e)"
    "agrees (fold commit evs h) (tasks_step Y p U e)"
    using process_step_on[OF T(2), of Y p e] T(1) by auto
  have "fold commit evs h = fold commit (bus (fold commit evs h)) new_handle"
    using T(3) by simp
  then show "in_run (process_step Y p T e)" unfolding in_run_def evs(1) using evs(2) by blast
  show "\<exists>evs. bus (shared_handle (process_step Y p T e)) = bus (shared_handle T) @ evs"
    unfolding evs(1) by (rule exI[of _ evs]) (simp add: T(1))
qed

lemma in_run_run:
  "in_run T \<Longrightarrow> in_run (run (process_step Y p) T es)
     \<and> (\<exists>evs. bus (shared_handle (run (process_step Y p) T es)) = bus (shared_handle T) @ evs)"
proof (induction es arbitrary: T)
  case (Cons e es)
  show ?case
    using Cons.IH[OF in_run_step(1)[OF Cons.prems, of Y p e]] in_run_step(2)[OF Cons.prems, of Y p e]
    by auto
qed simp

lemma in_run_start: "in_run (process_start Y p t0 d q i w)"
proof -
  let ?U = "tasks_start Y p t0 d q i w"
  let ?h = "fold commit (first_events Y p w ?U) new_handle"
  have "process_start Y p t0 d q i w = tasks_on ?h ?U" by (simp add: process_start_def Let_def)
  moreover have "?h = fold commit (bus ?h) new_handle" by (simp add: no_events)
  ultimately show ?thesis unfolding in_run_def using start_agrees[of Y p w t0 d q i] by blast
qed

lemma status_in_run:
  assumes "in_run T"
  shows "web_status (tk_context T)
    = snapshot (state_at (bus (shared_handle T)) (length (bus (shared_handle T))))"
proof -
  obtain h U where T: "T = tasks_on h U" and h: "h = fold commit (bus h) new_handle"
    using assms by (auto simp: in_run_def)
  from arg_cong[OF h, of snapshot] show ?thesis by (simp add: T web_status_def state_at_def)
qed

text \<open>The WebRTC task goes through its own steps.\<close>

lemma process_webrtc:
  "tk_webrtc (process_step Y p T e) = sg_on (shared_handle (process_step Y p T e))
     (case e of
        SysWebrtc x \<Rightarrow> sg_step (sy_webrtc Y) (tk_webrtc T) x
      | SysShutdown \<Rightarrow> sg_step (sy_webrtc Y) (tk_webrtc T) SgShutdown
      | _ \<Rightarrow> tk_webrtc T)"
proof -
  have "tk_webrtc (tasks_event Y p T e) =
     (case e of
        SysWebrtc x \<Rightarrow> sg_step (sy_webrtc Y) (tk_webrtc T) x
      | SysShutdown \<Rightarrow> sg_step (sy_webrtc Y) (tk_webrtc T) SgShutdown
      | _ \<Rightarrow> tk_webrtc T)"
  proof (cases e)
    case (SysTake k t ok)
    then show ?thesis by (cases k) (simp_all del: web_step.simps mm_step.simps eq_step.simps oc_step.simps
        split: list.split option.split sum.split mm_phase.split)
  next
    case (SysMedia x)
    then show ?thesis by (cases x) (simp_all del: mm_step.simps)
  next
    case (SysDaemon x)
    then show ?thesis by (cases x) simp_all
  qed (simp_all del: web_step.simps mm_step.simps eq_step.simps oc_step.simps spectrum_step.simps sg_step.simps)
  then show ?thesis by (simp add: process_step_def Let_def tasks_step_def)
qed

section \<open>What a socket shows and sends\<close>

lemma screen_snoc [simp]: "screen (frames @ [f]) = show_frame (screen frames) f"
  by (simp add: screen_def)

lemma show_event:
  "(case event_to_ws_message ev of None \<Rightarrow> v | Some m \<Rightarrow> show_frame v (WsText m))
     = map_option (\<lambda>s. observe s ev) v"
  by (cases ev; cases v) simp_all

lemma show_signalling: "webrtc_out_for_session ev u = Some m \<Longrightarrow> show_frame v (WsText m) = v"
  by (cases ev) (auto split: if_splits)

lemma send_opt_screen:
  "\<not> cn_done (ws_send_opt wok u m c) \<Longrightarrow>
     screen (cn_frames (ws_send_opt wok u m c))
       = (case m of None \<Rightarrow> screen (cn_frames c) | Some x \<Rightarrow> show_frame (screen (cn_frames c)) (WsText x))
     \<and> \<not> cn_done c"
  by (auto simp: ws_send_opt_def ws_send_def Let_def ws_leave_def split: option.splits if_splits)

lemma signal_screen:
  "\<not> cn_done (ws_signal wok u m answer c) \<Longrightarrow> screen (cn_frames (ws_signal wok u m answer c)) = screen (cn_frames c)"
proof (induction wok u m answer c rule: ws_signal.induct)
  case (1 wok me sdp answer s)
  then show ?case using send_opt_screen[of wok me "map_option WsAnswer answer" "ws_command (RtcOffer me sdp) s"]
    by (cases answer) (simp_all add: ws_command_def)
qed (simp_all add: ws_command_def ws_leave_def)

lemma ws_screen:
  assumes "\<not> cn_done (ws_step wok u c e)"
  shows "screen (cn_frames (ws_step wok u c e))
    = (case e of WsBusEvent ev \<Rightarrow> map_option (\<lambda>s. observe s ev) (screen (cn_frames c))
       | _ \<Rightarrow> screen (cn_frames c))"
proof -
  have nd: "\<not> cn_done c" using assms by (cases "cn_done c") auto
  show ?thesis
  proof (cases e)
    case (WsBusEvent ev)
    let ?c = "ws_send_opt wok u (event_to_ws_message ev) c"
    have step: "ws_step wok u c e = ws_send_opt wok u (webrtc_out_for_session ev u) ?c"
      using WsBusEvent nd by simp
    note o = send_opt_screen[of wok u "webrtc_out_for_session ev u" ?c]
    have "\<not> cn_done (ws_send_opt wok u (webrtc_out_for_session ev u) ?c)" using assms step by simp
    from o[OF this] have "screen (cn_frames (ws_step wok u c e)) = screen (cn_frames ?c)" "\<not> cn_done ?c"
      unfolding step by (auto simp: show_signalling split: option.splits)
    then show ?thesis
      using send_opt_screen[of wok u "event_to_ws_message ev" c] show_event[where ev = ev and v = "screen (cn_frames c)"]
      by (simp add: WsBusEvent del: ws_step.simps)
  next
    case (WsIncoming t m a)
    then show ?thesis using assms nd signal_screen[of wok u m a "c\<lparr>cn_last_seen := t\<rparr>"] by simp
  qed (use assms nd in \<open>auto simp: ws_send_def Let_def ws_leave_def split: if_splits\<close>)
qed

text \<open>
  The commands of a step are for the socket's own session; when the step is the last one, a stop is
  the last of them.
\<close>

definition sends_own :: "uuid \<Rightarrow> bool \<Rightarrow> webrtc_command list \<Rightarrow> bool" where
  "sends_own u leaves cs \<longleftrightarrow> (\<forall>x \<in> set cs. cmd_session x = u) \<and> (leaves \<longrightarrow> cs \<noteq> [] \<and> last cs = RtcStop u)"

lemma send_opt_commands:
  "\<not> cn_done c \<Longrightarrow> \<exists>cs. cn_cmds (ws_send_opt wok u m c) = cn_cmds c @ cs
     \<and> sends_own u (cn_done (ws_send_opt wok u m c)) cs"
  by (auto simp: ws_send_opt_def ws_send_def Let_def ws_leave_def ws_command_def sends_own_def split: option.split)

lemma send_opt_done [simp]: "cn_done c \<Longrightarrow> ws_send_opt wok u m c = c"
  by (simp add: ws_send_opt_def split: option.split)

lemma signal_commands:
  "\<not> cn_done c \<Longrightarrow> \<exists>cs. cn_cmds (ws_signal wok u m answer c) = cn_cmds c @ cs
     \<and> sends_own u (cn_done (ws_signal wok u m answer c)) cs"
proof (induction wok u m answer c rule: ws_signal.induct)
  case (1 wok me sdp answer s)
  then show ?case
    using send_opt_commands[of "ws_command (RtcOffer me sdp) s" wok me "map_option WsAnswer answer"]
    by (auto simp: ws_command_def sends_own_def)
qed (auto simp: ws_command_def ws_leave_def sends_own_def)

lemma ws_commands:
  assumes "\<not> cn_done c"
  shows "sends_own u (cn_done (ws_step wok u c e)) (new_commands c (ws_step wok u c e))"
proof -
  have "\<exists>cs. cn_cmds (ws_step wok u c e) = cn_cmds c @ cs \<and> sends_own u (cn_done (ws_step wok u c e)) cs"
  proof (cases e)
    case (WsBusEvent ev)
    let ?c = "ws_send_opt wok u (event_to_ws_message ev) c"
    obtain cs where cs: "cn_cmds ?c = cn_cmds c @ cs" "sends_own u (cn_done ?c) cs"
      using send_opt_commands[OF assms] by blast
    show ?thesis
    proof (cases "cn_done ?c")
      case True
      then show ?thesis using WsBusEvent assms cs by auto
    next
      case False
      from send_opt_commands[OF this, of wok u "webrtc_out_for_session ev u"] show ?thesis
        using WsBusEvent assms cs by (auto simp: sends_own_def)
    qed
  next
    case (WsIncoming t m a)
    then show ?thesis using signal_commands[of "c\<lparr>cn_last_seen := t\<rparr>" wok u m a] assms by simp
  qed (use assms in \<open>auto simp: ws_send_def Let_def ws_leave_def ws_command_def sends_own_def\<close>)
  then show ?thesis by (auto simp: new_commands_def)
qed

text \<open>The first command of the step that handles the answer to an offer is the offer.\<close>

lemma answered_commands:
  assumes "\<not> cn_done c" and c'_def: "c' = ws_step wok u c (WsIncoming t (TextFrame (Some (WsWebrtcOffer sdp))) answer)"
  shows "sends_own u (cn_done c') (drop 1 (new_commands c c'))"
proof -
  let ?c = "ws_command (RtcOffer u sdp) (c\<lparr>cn_last_seen := t\<rparr>)"
  have c': "c' = ws_send_opt wok u (map_option WsAnswer answer) ?c" using assms by (simp add: c'_def)
  obtain cs where "cn_cmds c' = cn_cmds ?c @ cs" "sends_own u (cn_done c') cs"
    using send_opt_commands[of ?c wok u "map_option WsAnswer answer"] assms(1)
    unfolding c' by (auto simp: ws_command_def)
  then show ?thesis by (simp add: new_commands_def ws_command_def)
qed

section \<open>Sessions and sockets\<close>

text \<open>
  Of the session \<open>u\<close> there is nothing any more, or the last command for it that is on its way is a stop.
\<close>

definition own_queue :: "uuid \<Rightarrow> signalling \<Rightarrow> webrtc_command list" where
  "own_queue u s = filter (\<lambda>c. cmd_session c = u) (sg_queue s)"

definition settled :: "uuid \<Rightarrow> signalling \<Rightarrow> bool" where
  "settled u s \<longleftrightarrow> (own_queue u s = [] \<and> map_of (wc_sessions (sg_rtc s)) u = None)
     \<or> (own_queue u s \<noteq> [] \<and> last (own_queue u s) = RtcStop u)"

lemma sg_on_kept [simp]: "settled u (sg_on h s) = settled u s" "sg_inv (sg_on h s) = sg_inv s"
  by (simp_all add: settled_def own_queue_def sg_on_def sg_inv_updates(1))

lemma settled_over: "sg_inv s \<Longrightarrow> wc_done (sg_rtc s) \<Longrightarrow> settled u s"
  by (simp add: settled_def own_queue_def sg_inv_def wc_inv_def)

lemma settled_send:
  "settled u s \<Longrightarrow> (cmd_session c = u \<Longrightarrow> c = RtcStop u) \<Longrightarrow> settled u (rtc_send c s)"
  by (auto simp: settled_def own_queue_def rtc_send_def)

lemma settled_stop: "sg_inv s \<Longrightarrow> settled u (rtc_send (RtcStop u) s)"
  using settled_over[of s u] by (auto simp: rtc_send_def) (simp add: settled_def own_queue_def)

lemma settled_handled:
  assumes "sg_inv s" "settled u s"
  shows "settled u (sg_step L s SgHandle)"
proof (cases "sg_queue s")
  case (Cons c q)
  have nd: "\<not> wc_done (sg_rtc s)" using assms(1) Cons by (auto simp: sg_inv_def)
  show ?thesis
  proof (cases "cmd_session c = u")
    case True
    show ?thesis
    proof (cases "filter (\<lambda>c. cmd_session c = u) q = []")
      case True
      then have "c = RtcStop u" using assms(2) Cons \<open>cmd_session c = u\<close>
        by (auto simp: settled_def own_queue_def)
      then show ?thesis using True Cons nd by (simp add: settled_def own_queue_def)
    next
      case False
      then show ?thesis using assms(2) Cons True by (auto simp: settled_def own_queue_def)
    qed
  next
    case False
    then show ?thesis using assms(2) Cons nd rtc_command_other[of c u L "sg_rtc s"]
      by (auto simp: settled_def own_queue_def simp del: rtc_command.simps)
  qed
qed (use assms in simp)

lemma settled_step:
  assumes "sg_inv s" "settled u s" "\<And>c. e = SgSend c \<Longrightarrow> cmd_session c = u \<Longrightarrow> c = RtcStop u"
  shows "settled u (sg_step L s e)"
proof (cases e)
  case (SgSend c)
  then show ?thesis using settled_send[OF assms(2)] assms(3) by simp
next
  case SgHandle
  then show ?thesis using settled_handled[OF assms(1,2)] by (simp del: sg_step.simps)
next
  case (SgCandidate n x)
  then show ?thesis using assms(2) by (simp add: settled_def own_queue_def split: option.split)
next
  case (SgState n st)
  then show ?thesis using assms(2)
    by (auto simp: on_state_change_def intro!: settled_send split: option.split)
next
  case SgShutdown
  have over: "wc_done (sg_rtc (sg_step L s SgShutdown))" by simp
  show ?thesis unfolding SgShutdown by (rule settled_over[OF sg_step_inv[OF assms(1)] over])
qed

text \<open>What the commands of one socket do to the sessions.\<close>

lemma sends_inv: "sg_inv (tk_webrtc T) \<Longrightarrow> sg_inv (tk_webrtc (send_commands Y p cs T))"
  by (induction cs arbitrary: T)
    (simp_all add: send_commands_def process_webrtc sg_inv_updates(2))

lemma sends_settled:
  assumes "sg_inv (tk_webrtc T)" "settled u (tk_webrtc T)" "\<forall>c \<in> set cs. cmd_session c \<noteq> u"
  shows "settled u (tk_webrtc (send_commands Y p cs T))"
  using assms
proof (induction cs arbitrary: T)
  case (Cons c cs)
  have "settled u (tk_webrtc (send_commands Y p cs (process_step Y p T (SysWebrtc (SgSend c)))))"
    by (rule Cons.IH) (use Cons.prems in \<open>auto simp: process_webrtc sg_inv_updates(2) intro: settled_send\<close>)
  then show ?case by (simp add: send_commands_def)
qed (simp add: send_commands_def)

lemma sends_leave:
  assumes "sg_inv (tk_webrtc T)" "sends_own u True cs"
  shows "settled u (tk_webrtc (send_commands Y p cs T))"
proof -
  have "cs = butlast cs @ [RtcStop u]"
    using assms(2) append_butlast_last_id[of cs] by (simp add: sends_own_def)
  then obtain ks where ks: "cs = ks @ [RtcStop u]" by blast
  have "send_commands Y p cs T = process_step Y p (send_commands Y p ks T) (SysWebrtc (SgSend (RtcStop u)))"
    by (simp add: ks send_commands_def)
  then show ?thesis using settled_stop[OF sends_inv[OF assms(1)]] by (simp add: process_webrtc)
qed

section \<open>Reading the bus\<close>

text \<open>Replaying events on a state that has them already changes nothing.\<close>

fun updates_of :: "system_event \<Rightarrow> update list" where
  "updates_of (BluetoothDevices ds) = [UDevices ds]"
| "updates_of (MediaState m) = [UMedia m]"
| "updates_of (EqChanged e) = [UEq e]"
| "updates_of (DeviceNameChanged n) = [UName n]"
| "updates_of (OutputStateEv x) = [UOutput x]"
| "updates_of _ = []"

lemma replay_updates: "foldl observe s evs = foldl observe s (map event_of (concat (map updates_of evs)))"
proof (induction evs arbitrary: s)
  case (Cons e evs)
  have "foldl observe s (e # evs) = foldl observe (observe s e) (map event_of (concat (map updates_of evs)))"
    using Cons.IH[of "observe s e"] by simp
  then show ?case by (cases e) simp_all
qed simp

lemma latest_decided: "latest f v us = v \<or> (\<forall>x. latest f x us = latest f v us)"
  by (induction us arbitrary: v) auto

lemma latest_twice: "latest f (latest f v us) us = latest f v us"
  using latest_decided[of f v us] by auto

lemma replay_twice: "foldl observe (foldl observe s evs) evs = foldl observe s evs"
  unfolding replay_updates[of _ evs]
  by (rule snapshot_eqI) (simp_all add: current_replay latest_twice)

lemma replay_overlap:
  assumes "j \<le> m" "m \<le> length b"
  shows "foldl observe (snapshot (state_at b m)) (drop j b) = snapshot (state_at b (length b))"
proof -
  let ?xs = "drop j (take m b)"
  have "take m b = take j b @ ?xs"
    using append_take_drop_id[of j "take m b"] assms(1) by (simp add: min_def)
  from arg_cong[OF this, of "\<lambda>l. fold commit l new_handle"]
  have "state_at b m = fold commit ?xs (state_at b j)" by (simp add: state_at_def)
  then have m: "snapshot (state_at b m) = foldl observe (snapshot (state_at b j)) ?xs"
    by (simp add: replay_commits)
  have rest: "drop j b = ?xs @ drop m b"
    using append_take_drop_id[of m b] drop_append[of j "take m b" "drop m b"] assms by simp
  have "foldl observe (snapshot (state_at b m)) ?xs = snapshot (state_at b m)"
    unfolding m by (rule replay_twice)
  moreover have "state_at b (length b) = fold commit (take m b @ drop m b) new_handle"
    unfolding append_take_drop_id by (simp add: state_at_def)
  then have "fold commit (drop m b) (state_at b m) = state_at b (length b)"
    by (simp only: fold_append comp_apply state_at_def)
  ultimately show ?thesis unfolding rest by (simp add: replay_commits)
qed

text \<open>
  What an open socket that has lost nothing shows: the state at the time of its snapshot, with the events
  since its subscription that it has read; provided the device has a name all the time.
\<close>

definition named :: "system_event list \<Rightarrow> bool" where
  "named b \<longleftrightarrow> DeviceNameChanged [] \<notin> set b"

lemma named_state: "named b \<Longrightarrow> sn_device_name (snapshot (state_at b m)) \<noteq> []"
proof -
  have commits: "DeviceNameChanged [] \<notin> set evs \<Longrightarrow> st_device_name (app h) \<noteq> [] \<Longrightarrow>
      st_device_name (app (fold commit evs h)) \<noteq> []" for evs h
  proof (induction evs arbitrary: h)
    case (Cons e evs)
    have "st_device_name (app (commit e h)) \<noteq> []" using Cons.prems
      by (cases e) (auto simp add: setter_defs)
    then show ?case using Cons.IH[of "commit e h"] Cons.prems(1) by simp
  qed simp
  assume "named b"
  then have "DeviceNameChanged [] \<notin> set (take m b)" by (auto simp: named_def dest: in_set_takeD)
  then show ?thesis using commits[of "take m b" new_handle]
    by (simp add: state_at_def snapshot_def snapshot_of_def new_handle_def default_app_state_def)
qed

definition sees_events :: "system_event list \<Rightarrow> client \<Rightarrow> bool" where
  "sees_events b cl \<longleftrightarrow> cl_from cl \<le> cl_read cl \<and> cl_read cl \<le> length b
     \<and> (case cl_conn cl of
          None \<Rightarrow> cl_read cl = cl_from cl
        | Some c \<Rightarrow> cn_done c \<or> cl_lagged cl \<or> \<not> named b
            \<or> (\<exists>m. cl_from cl \<le> m \<and> m \<le> length b
                \<and> screen (cn_frames c)
                  = Some (foldl observe (snapshot (state_at b m)) (drop (cl_from cl) (take (cl_read cl) b)))))"

lemma sees_offer [simp]: "sees_events b (cl\<lparr>cl_offer := x\<rparr>) = sees_events b cl"
  by (simp add: sees_events_def cong: option.case_cong)

lemma sees_more:
  assumes "sees_events b cl"
  shows "sees_events (b @ evs) cl"
proof -
  have "state_at (b @ evs) m = state_at b m" if "m \<le> length b" for m
    using that by (simp add: state_at_def)
  moreover have "take (cl_read cl) (b @ evs) = take (cl_read cl) b"
    using assms by (simp add: sees_events_def)
  moreover have "named (b @ evs) \<Longrightarrow> named b" by (simp add: named_def)
  ultimately show ?thesis using assms by (fastforce simp: sees_events_def split: option.splits)
qed

lemma sees_all:
  assumes "sees_events b cl" "cl_conn cl = Some c" "\<not> cn_done c" "\<not> cl_lagged cl" "cl_read cl = length b"
    and "named b"
  shows "screen (cn_frames c) = Some (snapshot (state_at b (length b)))"
  using assms replay_overlap by (auto simp: sees_events_def)

text \<open>A step of the socket that reads nothing, and one that reads the next event.\<close>

lemma sees_quiet:
  assumes "sees_events b cl" "cl_conn cl = Some c" "\<not> cn_done c" "\<And>ev. e \<noteq> WsBusEvent ev"
  shows "sees_events b (cl\<lparr>cl_conn := Some (ws_step wok u c e)\<rparr>)"
proof (cases "cn_done (ws_step wok u c e)")
  case True
  then show ?thesis using assms(1) by (simp add: sees_events_def del: ws_step.simps)
next
  case False
  then have "screen (cn_frames (ws_step wok u c e)) = screen (cn_frames c)"
    using ws_screen[OF False] assms(4) by (simp del: ws_step.simps split: ws_event.splits)
  then show ?thesis using assms by (simp add: sees_events_def del: ws_step.simps)
qed

lemma sees_next:
  assumes "sees_events b cl" "cl_conn cl = Some c" "\<not> cn_done c" "cl_read cl < length b"
  shows "sees_events b (cl\<lparr>cl_read := Suc (cl_read cl),
           cl_conn := Some (ws_step wok u c (WsBusEvent (b ! cl_read cl)))\<rparr>)"
proof (cases "cn_done (ws_step wok u c (WsBusEvent (b ! cl_read cl)))")
  case True
  then show ?thesis using assms(1,4) by (simp add: sees_events_def del: ws_step.simps)
next
  case False
  have "drop (cl_from cl) (take (Suc (cl_read cl)) b)
      = drop (cl_from cl) (take (cl_read cl) b) @ [b ! cl_read cl]"
    using assms(1,4) by (simp add: take_Suc_conv_app_nth sees_events_def)
  moreover have "screen (cn_frames (ws_step wok u c (WsBusEvent (b ! cl_read cl))))
      = map_option (\<lambda>s. observe s (b ! cl_read cl)) (screen (cn_frames c))"
    using ws_screen[OF False] by (simp del: ws_step.simps)
  ultimately show ?thesis using assms by (auto simp: sees_events_def simp del: ws_step.simps)
qed

section \<open>The invariant of the site\<close>

definition open_at :: "uuid \<Rightarrow> 'w site \<Rightarrow> bool" where
  "open_at u S \<longleftrightarrow> (case si_clients S u of None \<Rightarrow> False | Some cl \<Rightarrow> socket_open cl)"

definition site_bus :: "'w site \<Rightarrow> system_event list" where
  "site_bus S = bus (shared_handle (si_tasks S))"

definition site_inv :: "'w site \<Rightarrow> bool" where
  "site_inv S \<longleftrightarrow> in_run (si_tasks S) \<and> sg_inv (tk_webrtc (si_tasks S))
     \<and> (\<forall>u. (case si_clients S u of None \<Rightarrow> True | Some cl \<Rightarrow> sees_events (site_bus S) cl)
          \<and> (open_at u S \<or> settled u (tk_webrtc (si_tasks S))))"

lemma put_client_simps [simp]:
  "si_tasks (put_client u cl S) = si_tasks S" "site_bus (put_client u cl S) = site_bus S"
  "si_clients (put_client u cl S) v = (if v = u then Some cl else si_clients S v)"
  by (simp_all add: put_client_def site_bus_def)

text \<open>One socket changes, and the commands it sends go to the tasks.\<close>

lemma site_inv_put:
  assumes inv: "site_inv S" and cs: "\<forall>c \<in> set cs. cmd_session c = u"
    and sees: "sees_events (site_bus S) cl"
    and over: "socket_open cl \<or> settled u (tk_webrtc (send_commands Y p cs (si_tasks S)))"
  shows "site_inv (put_client u cl (S\<lparr>si_tasks := send_commands Y p cs (si_tasks S)\<rparr>))"
proof -
  let ?T = "send_commands Y p cs (si_tasks S)"
  have run: "in_run ?T" "\<exists>evs. bus (shared_handle ?T) = site_bus S @ evs"
    using in_run_run[of "si_tasks S" Y p] inv by (simp_all add: site_inv_def send_commands_def site_bus_def)
  have others: "v \<noteq> u \<Longrightarrow> settled v (tk_webrtc (si_tasks S)) \<Longrightarrow> settled v (tk_webrtc ?T)" for v
    using sends_settled[of "si_tasks S" v cs Y p] inv cs by (auto simp: site_inv_def)
  let ?S = "put_client u cl (S\<lparr>si_tasks := ?T\<rparr>)"
  obtain evs where b: "site_bus (S\<lparr>si_tasks := ?T\<rparr>) = site_bus S @ evs" using run(2) by (auto simp: site_bus_def)
  have "(case si_clients ?S v of None \<Rightarrow> True | Some x \<Rightarrow> sees_events (site_bus ?S) x)
      \<and> (open_at v ?S \<or> settled v (tk_webrtc ?T))" for v
  proof (cases "v = u")
    case True
    then show ?thesis using sees_more[OF sees, of evs] over by (simp add: open_at_def b)
  next
    case False
    have "case si_clients S v of None \<Rightarrow> True | Some x \<Rightarrow> sees_events (site_bus S) x"
      "open_at v S \<or> settled v (tk_webrtc (si_tasks S))" using inv by (auto simp: site_inv_def)
    then show ?thesis using False others[OF False]
      by (cases "si_clients S v") (auto simp: open_at_def b sees_more)
  qed
  then show ?thesis using run(1) sends_inv[of "si_tasks S" Y p cs] inv by (simp add: site_inv_def)
qed

lemma socket_turn_inv:
  assumes inv: "site_inv S" and old: "si_clients S u = Some cl0" and conn: "cl_conn cl = cl_conn cl0"
    and sees: "\<And>c. cl_conn cl = Some c \<Longrightarrow> \<not> cn_done c \<Longrightarrow>
      sees_events (site_bus S) (cl\<lparr>cl_conn := Some (ws_step wok u c e)\<rparr>)"
    and own: "\<And>c. \<not> cn_done c \<Longrightarrow>
      sends_own u (cn_done (ws_step wok u c e)) (drop n (new_commands c (ws_step wok u c e)))"
  shows "site_inv (socket_turn Y p wok n e u cl S)"
proof (cases "cl_conn cl")
  case (Some c)
  show ?thesis
  proof (cases "cn_done c")
    case False
    let ?c = "ws_step wok u c e" and ?cs = "drop n (new_commands c (ws_step wok u c e))"
    have turn: "socket_turn Y p wok n e u cl S = put_client u (cl\<lparr>cl_conn := Some ?c\<rparr>)
        (S\<lparr>si_tasks := send_commands Y p ?cs (si_tasks S)\<rparr>)"
      by (simp only: socket_turn_def Some option.case False if_False)
    show ?thesis unfolding turn
    proof (rule site_inv_put[OF inv])
      show "\<forall>x \<in> set ?cs. cmd_session x = u" using own[OF False] by (simp add: sends_own_def del: ws_step.simps)
      show "sees_events (site_bus S) (cl\<lparr>cl_conn := Some ?c\<rparr>)" by (rule sees[OF Some False])
      show "socket_open (cl\<lparr>cl_conn := Some ?c\<rparr>) \<or> settled u (tk_webrtc (send_commands Y p ?cs (si_tasks S)))"
        using own[OF False] sends_leave[of "si_tasks S" u ?cs Y p] inv
        by (cases "cn_done ?c") (simp_all add: socket_open_def site_inv_def del: ws_step.simps)
    qed
  qed (use inv Some in \<open>simp add: socket_turn_def\<close>)
qed (use inv in \<open>simp add: socket_turn_def\<close>)

lemma quiet_turn_inv:
  assumes "site_inv S" "si_clients S u = Some cl" "\<And>ev. e \<noteq> WsBusEvent ev"
  shows "site_inv (socket_turn Y p wok 0 e u cl S)"
proof (rule socket_turn_inv[OF assms(1,2) refl])
  fix c
  assume "cl_conn cl = Some c" "\<not> cn_done c"
  moreover have "sees_events (site_bus S) cl" using assms(1,2) by (auto simp: site_inv_def split: option.splits)
  ultimately show "sees_events (site_bus S) (cl\<lparr>cl_conn := Some (ws_step wok u c e)\<rparr>)"
    using sees_quiet assms(3) by blast
qed (simp only: drop_0 ws_commands not_False_eq_True)

lemma read_bus_inv:
  assumes "site_inv S" "si_clients S u = Some cl"
  shows "site_inv (read_bus Y p wok u cl S)"
proof -
  let ?b = "site_bus S" and ?n = "cl_read cl"
  have sees: "sees_events ?b cl" using assms by (auto simp: site_inv_def split: option.splits)
  have lagged: "site_inv (socket_turn Y p wok 0 WsLagged u
      (cl\<lparr>cl_read := length ?b - BUS_CAPACITY, cl_lagged := True\<rparr>) S)" if "BUS_CAPACITY < length ?b - ?n"
  proof (rule socket_turn_inv[OF assms])
    show "sees_events ?b (cl\<lparr>cl_read := length ?b - BUS_CAPACITY, cl_lagged := True,
        cl_conn := Some (ws_step wok u c WsLagged)\<rparr>)" for c
      using sees that by (auto simp: sees_events_def simp del: ws_step.simps)
  qed (simp_all only: drop_0 ws_commands not_False_eq_True, simp)
  have "site_inv (socket_turn Y p wok 0 (WsBusEvent (?b ! ?n)) u (cl\<lparr>cl_read := Suc ?n\<rparr>) S)"
    if "?n < length ?b"
  proof (rule socket_turn_inv[OF assms])
    show "sees_events ?b (cl\<lparr>cl_read := Suc ?n, cl_conn := Some (ws_step wok u c (WsBusEvent (?b ! ?n)))\<rparr>)"
      if "cl_conn (cl\<lparr>cl_read := Suc ?n\<rparr>) = Some c" "\<not> cn_done c" for c
      using sees_next[OF sees _ that(2) \<open>?n < length ?b\<close>] that(1) by simp
  qed (simp_all only: drop_0 ws_commands not_False_eq_True, simp)
  then show ?thesis using lagged assms(1) by (simp add: read_bus_def Let_def site_bus_def)
qed

text \<open>A step of the tasks; the clients are at most told an answer.\<close>

lemma process_webrtc_step:
  assumes "\<And>c. e \<noteq> SysWebrtc (SgSend c)"
  shows "tk_webrtc (process_step Y p T e) = sg_on (shared_handle (process_step Y p T e)) (tk_webrtc T)
    \<or> (\<exists>x. (\<forall>c. x \<noteq> SgSend c) \<and> tk_webrtc (process_step Y p T e)
          = sg_on (shared_handle (process_step Y p T e)) (sg_step (sy_webrtc Y) (tk_webrtc T) x))"
proof (cases e)
  case (SysWebrtc x)
  then show ?thesis using assms
    by (intro disjI2 exI[of _ x]) (auto simp: process_webrtc simp del: sg_step.simps)
next
  case SysShutdown
  then show ?thesis
    by (intro disjI2 exI[of _ SgShutdown]) (simp add: process_webrtc del: sg_step.simps)
qed (simp_all add: process_webrtc)

lemma process_sessions:
  assumes "sg_inv (tk_webrtc T)" "\<And>c. e \<noteq> SysWebrtc (SgSend c)"
  shows "sg_inv (tk_webrtc (process_step Y p T e))"
    "settled u (tk_webrtc T) \<Longrightarrow> settled u (tk_webrtc (process_step Y p T e))"
  using process_webrtc_step[OF assms(2), of Y p T] assms(1)
  by (auto simp: sg_step_inv intro!: settled_step simp del: sg_step.simps)

lemma tasks_turn_inv:
  assumes inv: "site_inv S" and e: "\<And>c. e \<noteq> SysWebrtc (SgSend c)"
    and same: "\<And>v. cls v = si_clients S v
      \<or> (\<exists>cl x. si_clients S v = Some cl \<and> cls v = Some (cl\<lparr>cl_offer := x\<rparr>))"
  shows "site_inv (S\<lparr>si_tasks := process_step Y p (si_tasks S) e, si_clients := cls, si_shutdown := b\<rparr>)"
proof -
  let ?T = "process_step Y p (si_tasks S) e"
  have run: "in_run (si_tasks S)" and sg: "sg_inv (tk_webrtc (si_tasks S))"
    using inv by (simp_all add: site_inv_def)
  obtain evs where b: "bus (shared_handle ?T) = site_bus S @ evs"
    using in_run_step(2)[OF run, of Y p e] by (auto simp: site_bus_def)
  have "(case cls v of None \<Rightarrow> True | Some x \<Rightarrow> sees_events (bus (shared_handle ?T)) x)
      \<and> ((case cls v of None \<Rightarrow> False | Some x \<Rightarrow> socket_open x) \<or> settled v (tk_webrtc ?T))" for v
  proof -
    have "case si_clients S v of None \<Rightarrow> True | Some x \<Rightarrow> sees_events (site_bus S) x"
      "(case si_clients S v of None \<Rightarrow> False | Some x \<Rightarrow> socket_open x) \<or> settled v (tk_webrtc (si_tasks S))"
      using inv by (auto simp: site_inv_def open_at_def)
    then show ?thesis using same[of v] process_sessions(2)[OF sg e, of v Y p] unfolding b
      by (auto simp: sees_more socket_open_def split: option.splits)
  qed
  then show ?thesis using in_run_step(1)[OF run, of Y p e] process_sessions(1)[OF sg e, of Y p]
    by (simp add: site_inv_def open_at_def site_bus_def cong: option.case_cong)
qed

lemma reply_offer_same:
  "reply_offer L s cls v = cls v
   \<or> (\<exists>cl x. cls v = Some cl \<and> reply_offer L s cls v = Some (cl\<lparr>cl_offer := x\<rparr>))"
  by (auto simp: reply_offer_def split: list.split webrtc_command.split option.split offer_state.split)

lemma socket_put_inv:
  assumes "site_inv S" "sees_events (site_bus S) cl" "socket_open cl \<or> settled u (tk_webrtc (si_tasks S))"
  shows "site_inv (put_client u cl S)"
proof -
  have "si_tasks S = send_commands Y p [] (si_tasks S)" for Y :: "('a, 'b) system_env" and p
    by (simp add: send_commands_def)
  then show ?thesis using site_inv_put[OF assms(1), of "[]" u cl] assms(2,3) by (simp add: send_commands_def)
qed

lemma offer_sent_inv:
  assumes "site_inv S" "si_clients S u = Some cl" "socket_open cl"
  shows "site_inv (put_client u (cl\<lparr>cl_offer := x\<rparr>)
    (S\<lparr>si_tasks := send_commands Y p [RtcOffer u sdp] (si_tasks S)\<rparr>))"
proof (rule site_inv_put[OF assms(1)])
  show "sees_events (site_bus S) (cl\<lparr>cl_offer := x\<rparr>)"
    using assms(1,2) by (auto simp: site_inv_def split: option.splits)
  show "socket_open (cl\<lparr>cl_offer := x\<rparr>) \<or> settled u (tk_webrtc (send_commands Y p [RtcOffer u sdp] (si_tasks S)))"
    using assms(3) by (simp add: socket_open_def)
qed simp

lemma offer_answered_inv:
  assumes "site_inv S" "si_clients S u = Some cl"
  shows "site_inv (offer_answered Y p wok u cl S)"
proof -
  have "site_inv (socket_turn Y p wok 1 (WsIncoming t (TextFrame (Some (WsWebrtcOffer sdp))) answer) u
      (cl\<lparr>cl_offer := NoOffer\<rparr>) S)" for t sdp answer
  proof (rule socket_turn_inv[OF assms])
    fix c
    assume c: "cl_conn (cl\<lparr>cl_offer := NoOffer\<rparr>) = Some c" "\<not> cn_done c"
    have "sees_events (site_bus S) (cl\<lparr>cl_offer := NoOffer\<rparr>)"
      using assms by (auto simp: site_inv_def split: option.splits)
    from sees_quiet[OF this c] show "sees_events (site_bus S) (cl\<lparr>cl_offer := NoOffer, cl_conn :=
        Some (ws_step wok u c (WsIncoming t (TextFrame (Some (WsWebrtcOffer sdp))) answer))\<rparr>)" by blast
  qed (simp, rule answered_commands, simp, rule refl)
  then show ?thesis using assms(1) by (auto simp: offer_answered_def split: offer_state.split)
qed

lemma select_step_inv:
  assumes "site_inv S" "si_clients S u = Some cl"
  shows "site_inv (select_step Y p wok e u cl S)"
proof (cases e)
  case ReadBus
  then show ?thesis using read_bus_inv[OF assms] by simp
next
  case (Incoming t m)
  have "site_inv (receive_frame Y p wok t m u cl S)" if "socket_open cl"
    unfolding receive_frame_def
    by (auto intro!: offer_sent_inv[OF assms that] quiet_turn_inv[OF assms] split: ws_incoming.split option.split ws_in_message.split)
  then show ?thesis using Incoming assms(1) by simp
qed (use assms in \<open>simp_all add: quiet_turn_inv\<close>)

lemma site_step_inv: "site_inv S \<Longrightarrow> site_inv (site_step Y p net S e)"
proof -
  assume inv: "site_inv S"
  show ?thesis
  proof (cases e)
    case (InTasks x)
    show ?thesis
    proof (cases "sends_command x")
      case False
      then have "x \<noteq> SysWebrtc (SgSend c)" for c by auto
      then have "site_inv (S\<lparr>si_tasks := process_step Y p (si_tasks S) x,
          si_clients := (if loop_handles x
                         then reply_offer (sy_webrtc Y) (tk_webrtc (si_tasks S)) (si_clients S)
                         else si_clients S),
          si_shutdown := (si_shutdown S \<or> raises_shutdown x)\<rparr>)"
        by (rule tasks_turn_inv[OF inv])
          (use reply_offer_same[of "sy_webrtc Y"] in \<open>simp split: if_split\<close>)
      then show ?thesis using InTasks False by simp
    qed (use InTasks inv in simp)
  next
    case (Connect u)
    have "settled u (tk_webrtc (si_tasks S))" if "si_clients S u = None"
      using inv that by (auto simp: site_inv_def open_at_def dest: spec[of _ u])
    then show ?thesis using Connect inv
      by (auto intro!: socket_put_inv simp: subscribed_def sees_events_def site_bus_def)
  next
    case (FirstSnapshot u t)
    show ?thesis
    proof (cases "si_clients S u")
      case (Some cl)
      show ?thesis
      proof (cases "cl_conn cl")
        case None
        let ?c = "ws_start (net u) (web_status (tk_context (si_tasks S))) t"
        have sees: "sees_events (site_bus S) cl" and "settled u (tk_webrtc (si_tasks S))"
          using inv Some None by (auto simp: site_inv_def open_at_def socket_open_def dest: spec[of _ u])
        moreover have "sees_events (site_bus S) (cl\<lparr>cl_conn := Some ?c\<rparr>)"
          using sees None status_in_run[of "si_tasks S"] inv
            named_state[of "site_bus S" "length (site_bus S)"]
          by (auto simp: sees_events_def site_inv_def ws_start_def screen_def site_bus_def
              intro!: exI[of _ "length (bus (shared_handle (si_tasks S)))"])
        ultimately show ?thesis using FirstSnapshot Some None socket_put_inv[OF inv] by simp
      qed (use FirstSnapshot Some inv in simp)
    qed (use FirstSnapshot inv in simp)
  next
    case (InSocket u x)
    then show ?thesis using inv by (auto intro: select_step_inv simp del: select_step.simps split: option.split)
  next
    case (OfferAnswered u)
    then show ?thesis using inv by (auto intro: offer_answered_inv split: option.split)
  qed
qed

interpretation site: machine "site_step Y p net" site_inv for Y p net
  by unfold_locales (rule site_step_inv)

lemma settled_start: "settled u sg_start"
  by (simp add: settled_def own_queue_def sg_start_def webrtc_start_def)

lemma site_start_inv: "site_inv (site_start Y p t0 d q i w)"
proof -
  let ?P = "process_start Y p t0 d q i w"
  obtain h where h: "tk_webrtc ?P = sg_on h sg_start"
    by (auto simp: process_start_def Let_def tasks_start_parts)
  have "sg_inv (tk_webrtc ?P)" "settled u (tk_webrtc ?P)" for u
    unfolding h sg_on_kept by (rule sg_start_inv, rule settled_start)
  then show ?thesis
    unfolding site_inv_def site_start_def open_at_def by (simp add: in_run_start)
qed

section \<open>Catching up\<close>

lemma bus_event_commands:
  assumes "\<not> cn_done (ws_step wok u c (WsBusEvent ev))"
  shows "new_commands c (ws_step wok u c (WsBusEvent ev)) = []"
proof -
  have same: "\<not> cn_done (ws_send_opt wok u m a) \<Longrightarrow> cn_cmds (ws_send_opt wok u m a) = cn_cmds a \<and> \<not> cn_done a"
    for m a by (auto simp: ws_send_opt_def ws_send_def Let_def ws_leave_def split: option.splits if_splits)
  let ?c = "ws_send_opt wok u (event_to_ws_message ev) c"
  have "\<not> cn_done c" using assms by (cases "cn_done c") auto
  then have step: "ws_step wok u c (WsBusEvent ev) = ws_send_opt wok u (webrtc_out_for_session ev u) ?c"
    by simp
  note outer = same[OF assms[unfolded step]]
  show ?thesis unfolding new_commands_def step
    by (simp only: conjunct1[OF outer] conjunct1[OF same[OF conjunct2[OF outer]]]) simp
qed

text \<open>One read by a socket that is not too far behind.\<close>

definition ready :: "uuid \<Rightarrow> 'w site \<Rightarrow> client \<Rightarrow> ws_conn \<Rightarrow> bool" where
  "ready u S cl c \<longleftrightarrow> si_clients S u = Some cl \<and> cl_offer cl = NoOffer \<and> cl_conn cl = Some c \<and> \<not> cn_done c"

lemma read_one:
  assumes "ready u S cl c" "cl_read cl < length (site_bus S)" "length (site_bus S) - cl_read cl \<le> BUS_CAPACITY"
    and S'_def: "S' = site_step Y p net S (InSocket u ReadBus)"
    and c'_def: "c' = ws_step (net u) u c (WsBusEvent (site_bus S ! cl_read cl))"
  shows "si_clients S' u = Some (cl\<lparr>cl_read := Suc (cl_read cl), cl_conn := Some c'\<rparr>)"
    "\<not> cn_done c' \<Longrightarrow> si_tasks S' = si_tasks S"
  using assms(1-3) bus_event_commands[of "net u" u c "site_bus S ! cl_read cl"]
  unfolding S'_def c'_def
  by (simp_all add: ready_def read_bus_def Let_def socket_turn_def site_bus_def[symmetric] send_commands_def
      del: ws_step.simps)

lemma ended_reads_nothing:
  "si_clients S u = Some cl \<Longrightarrow> cl_conn cl = Some c \<Longrightarrow> cn_done c \<Longrightarrow>
     site_step Y p net S (InSocket u ReadBus) = S"
  by (simp add: read_bus_def Let_def socket_turn_def)

lemma ended_reads_run:
  "si_clients S u = Some cl \<Longrightarrow> cl_conn cl = Some c \<Longrightarrow> cn_done c \<Longrightarrow>
     run (site_step Y p net) S (replicate n (InSocket u ReadBus)) = S"
  by (induction n) (simp_all add: ended_reads_nothing del: site_step.simps)

definition caught_up :: "uuid \<Rightarrow> nat \<Rightarrow> 'w site \<Rightarrow> 'w site \<Rightarrow> client \<Rightarrow> ws_conn \<Rightarrow> bool" where
  "caught_up u n S S' cl c \<longleftrightarrow>
     (\<exists>cl' c'. si_clients S' u = Some cl' \<and> cl_conn cl' = Some c'
        \<and> (cn_done c' \<or> (si_tasks S' = si_tasks S \<and> cl_read cl' = cl_read cl + n
             \<and> cl_lagged cl' = cl_lagged cl
             \<and> screen (cn_frames c') = map_option (\<lambda>s. foldl observe s (take n (drop (cl_read cl) (site_bus S))))
                 (screen (cn_frames c)))))"

lemma read_many:
  "ready u S cl c \<Longrightarrow> cl_read cl + n \<le> length (site_bus S) \<Longrightarrow>
   length (site_bus S) - cl_read cl \<le> BUS_CAPACITY \<Longrightarrow>
   caught_up u n S (run (site_step Y p net) S (replicate n (InSocket u ReadBus))) cl c"
proof (induction n arbitrary: S cl c)
  case 0
  then show ?case by (auto simp: caught_up_def ready_def option.map_ident)
next
  case (Suc n)
  let ?S = "site_step Y p net S (InSocket u ReadBus)"
  let ?ev = "site_bus S ! cl_read cl"
  let ?c = "ws_step (net u) u c (WsBusEvent ?ev)"
  let ?cl = "cl\<lparr>cl_read := Suc (cl_read cl), cl_conn := Some ?c\<rparr>"
  have lt: "cl_read cl < length (site_bus S)" using Suc.prems(2) by simp
  note one = read_one[OF Suc.prems(1) lt Suc.prems(3) refl refl, where Y = Y and p = p and net = net]
  show ?case
  proof (cases "cn_done ?c")
    case True
    have "run (site_step Y p net) S (replicate (Suc n) (InSocket u ReadBus)) = ?S"
      using ended_reads_run[OF one(1) _ True] by (simp del: site_step.simps ws_step.simps)
    then show ?thesis using one(1) True unfolding caught_up_def
      by (intro exI[of _ ?cl] exI[of _ ?c]) (simp del: site_step.simps ws_step.simps)
  next
    case False
    have bus: "site_bus ?S = site_bus S" using one(2)[OF False] by (simp add: site_bus_def del: site_step.simps)
    have "ready u ?S ?cl ?c" using Suc.prems(1) one(1) False
      by (simp add: ready_def del: site_step.simps ws_step.simps)
    from Suc.IH[OF this] Suc.prems(2,3)
    have IH: "caught_up u n ?S (run (site_step Y p net) ?S (replicate n (InSocket u ReadBus))) ?cl ?c"
      by (simp add: bus del: site_step.simps ws_step.simps)
    have shown: "screen (cn_frames ?c) = map_option (\<lambda>s. observe s ?ev) (screen (cn_frames c))"
      using ws_screen[OF False] by (simp del: ws_step.simps)
    have "take (Suc n) (drop (cl_read cl) (site_bus S)) = ?ev # take n (drop (Suc (cl_read cl)) (site_bus S))"
      using lt by (metis Cons_nth_drop_Suc take_Suc_Cons)
    then show ?thesis using IH one(2)[OF False] unfolding caught_up_def bus
      by (auto simp: shown option.map_comp o_def simp del: site_step.simps ws_step.simps)
  qed
qed

text \<open>A socket that reads all there is shows the state, or has ended.\<close>

lemma caught_up_shows:
  assumes "site_inv S" "ready u S cl c" "\<not> cl_lagged cl" "length (site_bus S) - cl_read cl \<le> BUS_CAPACITY"
    and S': "S' = run (site_step Y p net) S (replicate (length (site_bus S) - cl_read cl) (InSocket u ReadBus))"
  shows "case Option.bind (si_clients S' u) cl_conn of
      None \<Rightarrow> False
    | Some c' \<Rightarrow> cn_done c' \<or> \<not> named (site_bus S')
        \<or> screen (cn_frames c') = Some (web_status (tk_context (si_tasks S')))"
proof -
  let ?n = "length (site_bus S) - cl_read cl"
  have le: "cl_read cl + ?n = length (site_bus S)"
    using assms(1,2) by (auto simp: site_inv_def ready_def sees_events_def dest: spec[of _ u])
  have inv': "site_inv S'" unfolding S' by (rule site.run_inv[OF assms(1)])
  obtain cl' c' where c': "si_clients S' u = Some cl'" "cl_conn cl' = Some c'"
    "cn_done c' \<or> (si_tasks S' = si_tasks S \<and> cl_read cl' = cl_read cl + ?n \<and> cl_lagged cl' = cl_lagged cl)"
    using read_many[OF assms(2) eq_refl[OF le] assms(4), of Y p net] unfolding S' caught_up_def by blast
  have "screen (cn_frames c') = Some (web_status (tk_context (si_tasks S')))"
    if "\<not> cn_done c'" "named (site_bus S')"
  proof -
    have "sees_events (site_bus S') cl'" using inv' c'(1) by (auto simp: site_inv_def dest: spec[of _ u])
    moreover have "cl_read cl' = length (site_bus S')" "\<not> cl_lagged cl'"
      using c'(3) that(1) le assms(3) by (auto simp: site_bus_def)
    ultimately show ?thesis
      using sees_all[OF _ c'(2) that(1) _ _ that(2)] status_in_run[of "si_tasks S'"] inv'
      by (simp add: site_inv_def site_bus_def)
  qed
  then show ?thesis by (auto simp: c'(1,2))
qed

section \<open>Properties\<close>



text \<open>
  A lagging page is not told.  When a socket has fallen behind by more than the channel holds, and what is
  left in the channel carries no state, then after it has read all of it the page shows what it showed
  before, whatever changed among the events that were lost; nothing sends them again.
\<close>

theorem lagging_page_is_not_told:
  assumes "ready u S cl c" "BUS_CAPACITY < length (site_bus S) - cl_read cl"
    and "\<forall>ev \<in> set (drop (length (site_bus S) - BUS_CAPACITY) (site_bus S)). updates_of ev = []"
  shows "caught_up u BUS_CAPACITY S
      (run (site_step Y p net) S (replicate (Suc BUS_CAPACITY) (InSocket u ReadBus)))
      (cl\<lparr>cl_read := length (site_bus S) - BUS_CAPACITY, cl_lagged := True\<rparr>) c
    \<and> map_option (\<lambda>s. foldl observe s (take BUS_CAPACITY (drop (length (site_bus S) - BUS_CAPACITY) (site_bus S))))
        (screen (cn_frames c)) = screen (cn_frames c)"
proof -
  let ?b = "site_bus S" and ?S = "site_step Y p net S (InSocket u ReadBus)"
  let ?cl = "cl\<lparr>cl_read := length (site_bus S) - BUS_CAPACITY, cl_lagged := True\<rparr>"
  have lag: "ws_step wok u c WsLagged = c" for wok using assms(1) by (simp add: ready_def)
  have one: "si_clients ?S u = Some ?cl" "si_tasks ?S = si_tasks S"
    using assms(1,2) lag
    by (simp_all add: ready_def read_bus_def Let_def socket_turn_def site_bus_def[symmetric] new_commands_def
        send_commands_def del: ws_step.simps)
  have "ready u ?S ?cl c" using assms(1) one(1) by (simp add: ready_def del: site_step.simps)
  from read_many[OF this, of BUS_CAPACITY Y p net] assms(2) one(2)
  have "caught_up u BUS_CAPACITY ?S (run (site_step Y p net) ?S (replicate BUS_CAPACITY (InSocket u ReadBus))) ?cl c"
    by (simp add: site_bus_def del: site_step.simps)
  then have "caught_up u BUS_CAPACITY S
      (run (site_step Y p net) S (replicate (Suc BUS_CAPACITY) (InSocket u ReadBus))) ?cl c"
    using one(2) by (simp add: caught_up_def site_bus_def del: site_step.simps)
  moreover have "foldl observe s evs = s" if "\<forall>ev \<in> set evs. updates_of ev = []" for s evs
    using that unfolding replay_updates[of s evs] by (induction evs) auto
  ultimately show ?thesis using assms(3) by (simp add: option.map_ident)
qed

end
