(* ===== verification/AudioStream.thy ===== *)
theory AudioStream
  imports Machine PwGraph Equalizer
begin

text \<open>
  From captured bytes to the packets a browser plays: cutting the byte stream of the capture
  tool into frames (src/src/audio/frame.rs, src/src/audio/capture.rs), encoding them
  (src/src/audio/opus_encoder.rs) and stamping the packets with the wrapping timestamp and
  sequence number of the RTP stream (src/src/web/webrtc/rtp.rs, src/src/web/webrtc/pump.rs).

  A sample is the bit pattern of its \<open>f32\<close>.  The Opus library is an argument; what the PCM bus
  delivers to the pump (a frame, the number of frames it dropped, or its end) is the event.
\<close>

section \<open>Frames\<close>

definition FRAME_SIZE :: nat where "FRAME_SIZE = 960"
definition SAMPLES_PER_FRAME :: nat where "SAMPLES_PER_FRAME = FRAME_SIZE * CHANNELS"
definition BYTES_PER_FRAME :: nat where "BYTES_PER_FRAME = SAMPLES_PER_FRAME * 4"

type_synonym sample = "32 word"

definition f32_from_le_bytes :: "bytes \<Rightarrow> sample" where
  "f32_from_le_bytes bs = of_nat (foldr (\<lambda>b n. unat b + 256 * n) bs 0)"

text \<open>\<open>chunks_exact\<close>: the full chunks, the remainder is left out.\<close>

function chunks_exact :: "nat \<Rightarrow> 'a list \<Rightarrow> 'a list list" where
  "chunks_exact n xs =
     (if n = 0 \<or> length xs < n then [] else take n xs # chunks_exact n (drop n xs))"
  by pat_completeness auto
termination by (relation "measure (length \<circ> snd)") auto

declare chunks_exact.simps [simp del]

definition samples_of :: "bytes \<Rightarrow> sample list" where
  "samples_of bs = map f32_from_le_bytes (chunks_exact 4 bs)"

definition split_frames :: "bytes \<Rightarrow> sample list list" where
  "split_frames bs = map samples_of (chunks_exact BYTES_PER_FRAME bs)"

section \<open>The capture pump\<close>

text \<open>
  What reading from the pipe gives, in order: the pieces the operating system hands out, of any
  size, or an error; after the last one, or with an empty piece, the stream has ended.  A read
  into a buffer shorter than the piece leaves the rest of it.
\<close>

datatype piece = Piece bytes | ReadError io_error

fun read_some :: "nat \<Rightarrow> piece list \<Rightarrow> (io_error + bytes) \<times> piece list" where
  "read_some k [] = (Inr [], [])"
| "read_some k (ReadError e # r) = (Inl e, r)"
| "read_some k (Piece bs # r) =
     (Inr (take k bs), if length bs \<le> k then r else Piece (drop k bs) # r)"

definition early_eof :: io_error where
  "early_eof = \<lparr>err_kind = UnexpectedEof, err_msg = ''early eof''\<rparr>"

function read_exact :: "nat \<Rightarrow> bytes \<Rightarrow> piece list \<Rightarrow> (io_error + bytes) \<times> piece list" where
  "read_exact n acc r =
     (if n \<le> length acc then (Inr acc, r)
      else case read_some (n - length acc) r of
          (Inl e, r') \<Rightarrow> (Inl e, r')
        | (Inr bs, r') \<Rightarrow>
            if bs = [] then (Inl early_eof, r') else read_exact n (acc @ bs) r')"
  by pat_completeness auto
termination
  by (relation "measure (\<lambda>(n, acc, r). n - length acc)") (auto intro: diff_less_mono2)

declare read_exact.simps [simp del]

fun piece_size :: "piece \<Rightarrow> nat" where
  "piece_size (Piece bs) = length bs"
| "piece_size (ReadError e) = 0"

definition pending :: "piece list \<Rightarrow> nat" where "pending r = sum_list (map piece_size r)"

lemma read_some_pending:
  "read_some k r = (Inr bs, r') \<Longrightarrow> pending r = length bs + pending r'"
  by (cases "(k, r)" rule: read_some.cases) (auto simp: pending_def min_def split: if_splits)

lemma read_exact_pending:
  "read_exact n acc r = (Inr bs, r') \<Longrightarrow> length acc \<le> n \<Longrightarrow>
     length bs = n \<and> length acc + pending r = n + pending r'"
proof (induction n acc r rule: read_exact.induct)
  case (1 n acc r)
  show ?case
  proof (cases "n \<le> length acc")
    case True
    then show ?thesis using "1.prems" by (simp add: read_exact.simps)
  next
    case False
    obtain x r1 where x: "read_some (n - length acc) r = (x, r1)" by fastforce
    obtain cs where cs: "x = Inr cs" "cs \<noteq> []"
      using "1.prems"(1) False x
      by (cases x) (auto simp: read_exact.simps[of n acc r] split: if_splits)
    have len: "length cs \<le> n - length acc"
      using x cs by (cases "(n - length acc, r)" rule: read_some.cases) auto
    have "read_exact n (acc @ cs) r1 = (Inr bs, r')"
      using "1.prems"(1) False x cs by (simp add: read_exact.simps[of n acc r])
    then have "length bs = n \<and> length (acc @ cs) + pending r1 = n + pending r'"
      using "1.IH"[OF False x[symmetric, unfolded cs] refl] cs len False x
      by (metis False cs(1) cs(2) diff_add_inverse le_diff_conv2 length_append nat_le_linear
          add.commute le_add_diff_inverse2)
    then show ?thesis using read_some_pending[of "n - length acc" r cs r1] x cs by simp
  qed
qed

lemma BYTES_PER_FRAME_eq: "BYTES_PER_FRAME = 7680"
  by (simp add: BYTES_PER_FRAME_def SAMPLES_PER_FRAME_def FRAME_SIZE_def CHANNELS_def)

function pump_frames ::
    "sample list list \<Rightarrow> piece list \<Rightarrow> (io_error + unit) \<times> sample list list" where
  "pump_frames tx r =
     (case read_exact BYTES_PER_FRAME [] r of
        (Inr buf, r') \<Rightarrow> pump_frames (tx @ [samples_of buf]) r'
      | (Inl e, r') \<Rightarrow> (if err_kind e = UnexpectedEof then Inr () else Inl e, tx))"
  by pat_completeness auto
lemma read_exact_frame:
  "read_exact BYTES_PER_FRAME [] r = (Inr buf, r') \<Longrightarrow> pending r' < pending r"
  using read_exact_pending[of BYTES_PER_FRAME "[]" r buf r'] by (simp add: BYTES_PER_FRAME_eq)

termination pump_frames
  by (relation "measure (pending \<circ> snd)") (auto dest: read_exact_frame[OF sym])

declare pump_frames.simps [simp del]

text \<open>The capture unit: start the tool, then pump its output onto the bus.\<close>

definition run_capture ::
    "('w, 'c) spawner \<Rightarrow> ('c \<Rightarrow> piece list) \<Rightarrow> command_line \<Rightarrow> sample list list \<Rightarrow> 'w \<Rightarrow>
     ((io_error + unit) \<times> sample list list) \<times> 'w" where
  "run_capture sp out_of cmd tx w =
     (case spawn sp w (cmd_program cmd) (cmd_args cmd) of
        (Inl e, w') \<Rightarrow> ((Inl e, tx), w')
      | (Inr c, w') \<Rightarrow> (pump_frames tx (out_of c), w'))"

section \<open>Opus\<close>

text \<open>
  The encoder: the library's \<open>encode_float\<close> is the argument; an error and an empty packet give
  no packet.
\<close>

type_synonym 'e opus = "'e \<Rightarrow> sample list \<Rightarrow> bytes option \<times> 'e"

definition opus_encode_frame :: "'e opus \<Rightarrow> 'e \<Rightarrow> sample list \<Rightarrow> bytes option \<times> 'e" where
  "opus_encode_frame enc e pcm =
     (case enc e pcm of
        (Some p, e') \<Rightarrow> (if 0 < length p then Some p else None, e')
      | (None, e') \<Rightarrow> (None, e'))"

section \<open>The RTP timeline\<close>

definition RTP_SAMPLES_PER_FRAME :: "32 word" where "RTP_SAMPLES_PER_FRAME = 960"

record rtp_timeline =
  rtp_timestamp :: "32 word"
  rtp_sequence :: "16 word"

definition new_timeline :: rtp_timeline where
  "new_timeline = \<lparr>rtp_timestamp = 0, rtp_sequence = 0\<rparr>"

definition next_packet :: "rtp_timeline \<Rightarrow> (32 word \<times> 16 word) \<times> rtp_timeline" where
  "next_packet t =
     ((rtp_timestamp t, rtp_sequence t),
      t\<lparr>rtp_timestamp := rtp_timestamp t + RTP_SAMPLES_PER_FRAME,
        rtp_sequence := rtp_sequence t + 1\<rparr>)"

definition skip :: "32 word \<Rightarrow> rtp_timeline \<Rightarrow> rtp_timeline" where
  "skip n t = t\<lparr>rtp_timestamp := rtp_timestamp t + RTP_SAMPLES_PER_FRAME * n,
                rtp_sequence := rtp_sequence t + ucast n\<rparr>"

section \<open>The pump\<close>

datatype pump_event =
    PumpFrame "sample list" bool
  | PumpEncodePanicked
  | PumpLagged nat
  | PumpClosed
  | PumpShutdown

record 'e pump =
  pump_timeline :: rtp_timeline
  pump_encoder :: 'e
  pump_sent :: "(bytes \<times> 32 word \<times> 16 word) list"
  pump_done :: bool

text \<open>
  A frame event also says whether the sink takes the packet; a packet it refuses was still
  handed to it.  \<open>Lagged(n)\<close> carries a \<open>u64\<close>, capped to 32 bits.
\<close>

fun pump_step :: "'e opus \<Rightarrow> 'e pump \<Rightarrow> pump_event \<Rightarrow> 'e pump" where
  "pump_step enc s (PumpFrame frame ok) =
     (if pump_done s then s
      else case opus_encode_frame enc (pump_encoder s) frame of
          (None, e) \<Rightarrow> s\<lparr>pump_encoder := e\<rparr>
        | (Some p, e) \<Rightarrow>
            (case next_packet (pump_timeline s) of
               ((ts, sq), t) \<Rightarrow>
                 s\<lparr>pump_encoder := e, pump_timeline := t, pump_sent := pump_sent s @ [(p, ts, sq)],
                   pump_done := \<not> ok\<rparr>))"
| "pump_step enc s PumpEncodePanicked = s\<lparr>pump_done := True\<rparr>"
| "pump_step enc s (PumpLagged n) =
     (if pump_done s then s
      else s\<lparr>pump_timeline := skip (of_nat (min n (2 ^ 32 - 1))) (pump_timeline s)\<rparr>)"
| "pump_step enc s PumpClosed = s\<lparr>pump_done := True\<rparr>"
| "pump_step enc s PumpShutdown = s\<lparr>pump_done := True\<rparr>"

definition pump_start :: "'e \<Rightarrow> 'e pump" where
  "pump_start e = \<lparr>pump_timeline = new_timeline, pump_encoder = e, pump_sent = [],
                   pump_done = False\<rparr>"

text \<open>
  What the browser should get: every packet with its place in the stream of frames, counted
  without wrap-around over the packets sent and the frames the bus dropped.
\<close>

fun placed_packets :: "'e opus \<Rightarrow> 'e \<Rightarrow> nat \<Rightarrow> pump_event list \<Rightarrow> (bytes \<times> nat) list" where
  "placed_packets enc e n [] = []"
| "placed_packets enc e n (PumpFrame frame ok # es) =
     (case opus_encode_frame enc e frame of
        (None, e') \<Rightarrow> placed_packets enc e' n es
      | (Some p, e') \<Rightarrow> (p, n) # (if ok then placed_packets enc e' (Suc n) es else []))"
| "placed_packets enc e n (PumpLagged k # es) =
     placed_packets enc e (n + min k (2 ^ 32 - 1)) es"
| "placed_packets enc e n (_ # es) = []"

text \<open>
  The sink writes each payload as an RTP packet to the track; the stream source is the low half of a
  fresh UUID.
\<close>

definition OPUS_PAYLOAD_TYPE :: "8 word" where "OPUS_PAYLOAD_TYPE = 111"

record rtp_packet =
  rp_version :: nat
  rp_payload_type :: "8 word"
  rp_sequence_number :: "16 word"
  rp_timestamp :: "32 word"
  rp_ssrc :: "32 word"
  rp_payload :: bytes

definition new_ssrc :: "128 word \<Rightarrow> 32 word" where
  "new_ssrc u = ucast u"

definition rtp_packet_of :: "32 word \<Rightarrow> bytes \<times> 32 word \<times> 16 word \<Rightarrow> rtp_packet" where
  "rtp_packet_of ssrc x =
     (case x of (opus, ts, sq) \<Rightarrow>
        \<lparr>rp_version = 2, rp_payload_type = OPUS_PAYLOAD_TYPE, rp_sequence_number = sq,
         rp_timestamp = ts, rp_ssrc = ssrc, rp_payload = opus\<rparr>)"

definition sink_send ::
    "(rtp_packet \<Rightarrow> 'w \<Rightarrow> (string + nat) \<times> 'w) \<Rightarrow> 32 word \<Rightarrow> bytes \<times> 32 word \<times> 16 word \<Rightarrow> 'w
      \<Rightarrow> (string + unit) \<times> 'w" where
  "sink_send write_rtp ssrc x w =
     (case write_rtp (rtp_packet_of ssrc x) w of
        (Inl e, w') \<Rightarrow> (Inl e, w')
      | (Inr _, w') \<Rightarrow> (Inr (), w'))"

section \<open>Lemmas\<close>

lemma chunks_exact_short [simp]: "length xs < n \<Longrightarrow> chunks_exact n xs = []"
  by (simp add: chunks_exact.simps)

lemma chunks_exact_append:
  "0 < n \<Longrightarrow> length xs = n \<Longrightarrow> chunks_exact n (xs @ ys) = xs # chunks_exact n ys"
  by (subst chunks_exact.simps) simp

definition tail_of :: "io_error option \<Rightarrow> piece list" where
  "tail_of stop = (case stop of None \<Rightarrow> [] | Some e \<Rightarrow> [ReadError e])"

lemma read_exact_enough:
  "list_all (\<lambda>b. b \<noteq> []) bs \<Longrightarrow> length acc \<le> n \<Longrightarrow> n - length acc \<le> length (concat bs) \<Longrightarrow>
   \<exists>bs'. read_exact n acc (map Piece bs @ t)
           = (Inr (acc @ take (n - length acc) (concat bs)), map Piece bs' @ t)
       \<and> concat bs' = drop (n - length acc) (concat bs) \<and> list_all (\<lambda>b. b \<noteq> []) bs'"
proof (induction bs arbitrary: acc)
  case Nil
  then have "read_exact n acc (map Piece [] @ t) = (Inr acc, map Piece [] @ t)"
    by (simp add: read_exact.simps)
  then show ?case using Nil by (intro exI[of _ "[]"]) auto
next
  case (Cons b bs)
  show ?case
  proof (cases "n \<le> length acc")
    case True
    then show ?thesis using Cons.prems
      by (intro exI[of _ "b # bs"]) (simp add: read_exact.simps)
  next
    case False
    show ?thesis
    proof (cases "length b \<le> n - length acc")
      case True
      have "read_exact n acc (map Piece (b # bs) @ t) = read_exact n (acc @ b) (map Piece bs @ t)"
        using Cons.prems(1) False True by (subst read_exact.simps) auto
      moreover have "length (acc @ b) \<le> n" "n - length (acc @ b) \<le> length (concat bs)"
        using Cons.prems True False by auto
      ultimately show ?thesis using Cons.IH[of "acc @ b"] Cons.prems True False
        by (auto simp: diff_diff_left)
    next
      case long: False
      have "read_exact n acc (map Piece (b # bs) @ t)
          = (Inr (acc @ take (n - length acc) b),
             map Piece (drop (n - length acc) b # bs) @ t)"
        using Cons.prems(1) False long
        by (subst read_exact.simps) (auto simp: read_exact.simps)
      then show ?thesis using Cons.prems False long
        by (intro exI[of _ "drop (n - length acc) b # bs"]) auto
    qed
  qed
qed

lemma read_exact_short:
  "list_all (\<lambda>b. b \<noteq> []) bs \<Longrightarrow> length (concat bs) < n - length acc \<Longrightarrow>
   fst (read_exact n acc (map Piece bs @ tail_of stop)) = Inl (case stop of None \<Rightarrow> early_eof | Some e \<Rightarrow> e)"
proof (induction bs arbitrary: acc)
  case Nil
  then show ?case by (subst read_exact.simps) (auto simp: tail_of_def split: option.splits)
next
  case (Cons b bs)
  have "read_exact n acc (map Piece (b # bs) @ tail_of stop)
      = read_exact n (acc @ b) (map Piece bs @ tail_of stop)"
    using Cons.prems by (subst read_exact.simps) auto
  moreover have "length (concat bs) < n - length (acc @ b)" using Cons.prems(2) by auto
  ultimately show ?case using Cons.IH[of "acc @ b"] Cons.prems(1) by auto
qed

definition pump_result :: "io_error option \<Rightarrow> io_error + unit" where
  "pump_result stop =
     (case stop of None \<Rightarrow> Inr () | Some e \<Rightarrow> if err_kind e = UnexpectedEof then Inr () else Inl e)"

lemma pump_frames_pieces:
  "list_all (\<lambda>b. b \<noteq> []) bs \<Longrightarrow>
   pump_frames tx (map Piece bs @ tail_of stop) = (pump_result stop, tx @ split_frames (concat bs))"
proof (induction "length (concat bs)" arbitrary: bs tx rule: less_induct)
  case less
  show ?case
  proof (cases "BYTES_PER_FRAME \<le> length (concat bs)")
    case True
    then obtain bs' where bs':
      "read_exact BYTES_PER_FRAME [] (map Piece bs @ tail_of stop)
         = (Inr (take BYTES_PER_FRAME (concat bs)), map Piece bs' @ tail_of stop)"
      "concat bs' = drop BYTES_PER_FRAME (concat bs)" "list_all (\<lambda>b. b \<noteq> []) bs'"
      using read_exact_enough[OF less.prems, of "[]" BYTES_PER_FRAME "tail_of stop"] by auto
    have smaller: "length (concat bs') < length (concat bs)"
      using True bs'(2) by (simp add: BYTES_PER_FRAME_eq)
    have split: "split_frames (concat bs)
        = samples_of (take BYTES_PER_FRAME (concat bs)) # split_frames (concat bs')"
      using True bs'(2) unfolding split_frames_def
      by (subst chunks_exact.simps) (simp add: BYTES_PER_FRAME_eq)
    show ?thesis
      using less.hyps[OF smaller bs'(3)]
      by (subst pump_frames.simps) (simp add: bs'(1) split)
  next
    case False
    obtain r' where r':
      "read_exact BYTES_PER_FRAME [] (map Piece bs @ tail_of stop)
         = (Inl (case stop of None \<Rightarrow> early_eof | Some e \<Rightarrow> e), r')"
      using read_exact_short[OF less.prems, of BYTES_PER_FRAME "[]" stop] False
      by (cases "read_exact BYTES_PER_FRAME [] (map Piece bs @ tail_of stop)") auto
    then show ?thesis using False
      by (subst pump_frames.simps)
        (auto simp: split_frames_def pump_result_def early_eof_def split: option.splits)
  qed
qed

text \<open>
  The timeline as a counted machine: each operation moves both counters by a fixed amount, so
  where they stand depends only on how many frames have passed.
\<close>

datatype rtp_op = NextPacket | Skip "32 word"

fun rtp_step :: "rtp_timeline \<Rightarrow> rtp_op \<Rightarrow> rtp_timeline" where
  "rtp_step t NextPacket = snd (next_packet t)"
| "rtp_step t (Skip n) = skip n t"

fun op_frames :: "rtp_op \<Rightarrow> nat" where
  "op_frames NextPacket = 1"
| "op_frames (Skip n) = unat n"

interpretation rtp_time: counted_machine rtp_step rtp_timestamp "\<lambda>i. of_nat (960 * op_frames i)"
proof
  fix s i
  show "rtp_timestamp (rtp_step s i) = rtp_timestamp s + of_nat (960 * op_frames i)"
    by (cases i) (simp_all add: next_packet_def skip_def RTP_SAMPLES_PER_FRAME_def)
qed

interpretation rtp_seq: counted_machine rtp_step rtp_sequence "\<lambda>i. of_nat (op_frames i)"
proof
  fix s i
  show "rtp_sequence (rtp_step s i) = rtp_sequence s + of_nat (op_frames i)"
    by (cases i) (simp_all add: next_packet_def skip_def)
qed

text \<open>A timeline that stands at frame \<open>n\<close>, and what the pump does to its place.\<close>

definition at_frame :: "nat \<Rightarrow> rtp_timeline" where
  "at_frame n = \<lparr>rtp_timestamp = of_nat (960 * n), rtp_sequence = of_nat n\<rparr>"

lemma at_frame_0: "at_frame 0 = new_timeline"
  by (simp add: at_frame_def new_timeline_def)

lemma rtp_step_at_frame: "rtp_step (at_frame n) i = at_frame (n + op_frames i)"
  using rtp_time.step_count[of "at_frame n" i] rtp_seq.step_count[of "at_frame n" i]
  by (cases i) (simp_all add: at_frame_def distrib_left next_packet_def skip_def)

lemma skip_at_frame: "skip (of_nat (min k (2 ^ 32 - 1))) (at_frame n) = at_frame (n + min k (2 ^ 32 - 1))"
proof -
  have "unat (of_nat (min k (2 ^ 32 - 1)) :: 32 word) = min k (2 ^ 32 - 1)"
    by (simp add: unat_of_nat)
  then show ?thesis
    using rtp_step_at_frame[of n "Skip (of_nat (min k (2 ^ 32 - 1)))"] by simp
qed

lemma next_packet_at_frame:
  "next_packet (at_frame n) = ((of_nat (960 * n), of_nat n), at_frame (Suc n))"
  using rtp_step_at_frame[of n NextPacket] by (simp add: next_packet_def at_frame_def)

interpretation opus_pump: halting_machine "pump_step enc" "\<lambda>s. True" pump_done for enc
proof
  fix s :: "'a pump" and e
  assume "pump_done s"
  then show "pump_step enc s e = s" by (cases e) simp_all
qed simp

lemma pump_sent_placed:
  "\<not> pump_done s \<Longrightarrow> pump_timeline s = at_frame n \<Longrightarrow>
   pump_sent (run (pump_step enc) s es)
     = pump_sent s @ map (\<lambda>(p, k). (p, of_nat (960 * k), of_nat k))
                         (placed_packets enc (pump_encoder s) n es)"
proof (induction es arbitrary: s n)
  case Nil
  then show ?case by simp
next
  case (Cons e es)
  show ?case
  proof (cases e)
    case (PumpFrame frame ok)
    obtain r e' where r: "opus_encode_frame enc (pump_encoder s) frame = (r, e')"
      by (cases "opus_encode_frame enc (pump_encoder s) frame")
    show ?thesis
    proof (cases r)
      case None
      then show ?thesis using PumpFrame r Cons.prems
          Cons.IH[of "s\<lparr>pump_encoder := e'\<rparr>" n] by simp
    next
      case (Some p)
      let ?t = "s\<lparr>pump_encoder := e', pump_timeline := at_frame (Suc n),
        pump_sent := pump_sent s @ [(p, of_nat (960 * n), of_nat n)], pump_done := \<not> ok\<rparr>"
      have st: "pump_step enc s e = ?t"
        using PumpFrame r Some Cons.prems by (simp add: next_packet_at_frame)
      show ?thesis
      proof (cases ok)
        case True
        then show ?thesis using Cons.IH[of ?t "Suc n"] PumpFrame r Some st by simp
      next
        case False
        then show ?thesis using opus_pump.halted_run[of ?t enc es] PumpFrame r Some st by simp
      qed
    qed
  next
    case (PumpLagged k)
    then show ?thesis using Cons.prems Cons.IH[of "pump_step enc s e" "n + min k (2 ^ 32 - 1)"]
      by (simp add: skip_at_frame[simplified])
  qed (use Cons.prems opus_pump.halted_run[of "s\<lparr>pump_done := True\<rparr>" enc es] in simp_all)
qed

section \<open>Properties\<close>

text \<open>
  C16 (the capture pump loses no sample).  However the pipe cuts the byte stream of the capture
  tool, the frames put on the bus are the full frames of the whole stream, in order and decoded
  as \<open>split_frames\<close> does; the pump always returns, with an error only when reading failed with
  one other than an early end.
\<close>

theorem pump_frames_is_split:
  assumes "\<forall>b \<in> set bs. b \<noteq> []"
  shows "pump_frames tx (map Piece bs @ (case stop of None \<Rightarrow> [] | Some e \<Rightarrow> [ReadError e]))
    = (case stop of None \<Rightarrow> Inr ()
         | Some e \<Rightarrow> if err_kind e = UnexpectedEof then Inr () else Inl e,
       tx @ split_frames (concat bs))"
  using assms pump_frames_pieces[of bs tx stop]
  by (simp add: list_all_iff tail_of_def pump_result_def)

theorem pump_frames_is_split_witness:
  "pump_frames [] [Piece [1, 2, 3], ReadError \<lparr>err_kind = OtherKind, err_msg = ''gone''\<rparr>]
     = (Inl \<lparr>err_kind = OtherKind, err_msg = ''gone''\<rparr>, [])"
  using pump_frames_is_split[of "[[1, 2, 3]]" "[]" "Some \<lparr>err_kind = OtherKind, err_msg = ''gone''\<rparr>"]
  by (simp add: split_frames_def BYTES_PER_FRAME_eq)


end
