(* ===== verification/Doubles.thy ===== *)
theory Doubles
  imports SelfCheck AudioStream BluezGlue Signalling
begin

text \<open>
  The test doubles of the seams (src/src/sys/testing.rs, src/src/bluetooth/testing.rs,
  src/src/web/webrtc/control.rs): the scripted command runner, the fake spawner with its child and its
  output, the two recorders of BlueZ calls and the one of WebRTC calls.  The in-memory file system is
  in FileSystem.

  What the tests rely on is the locale \<open>recorder\<close>: an operation answers from a script it never
  changes, and records that it was called.  The last section runs tests of the sources on the models.
\<close>

section \<open>Recorders\<close>

locale recorder =
  fixes op :: "'c \<Rightarrow> 'w \<Rightarrow> 'r \<times> 'w"
    and calls :: "'w \<Rightarrow> 'c list"
    and script :: "'w \<Rightarrow> 's"
    and answer :: "'s \<Rightarrow> 'c \<Rightarrow> 'r"
  assumes op_answer: "fst (op c w) = answer (script w) c"
    and op_calls: "calls (snd (op c w)) = calls w @ [c]"
    and op_script: "script (snd (op c w)) = script w"
begin

text \<open>A series of calls, with the answers.\<close>

fun series :: "'c list \<Rightarrow> 'w \<Rightarrow> 'r list \<times> 'w" where
  "series [] w = ([], w)"
| "series (c # cs) w =
     (case op c w of (r, w1) \<Rightarrow> (case series cs w1 of (rs, w2) \<Rightarrow> (r # rs, w2)))"

lemma series_recorded:
  "fst (series cs w) = map (answer (script w)) cs \<and> calls (snd (series cs w)) = calls w @ cs
     \<and> script (snd (series cs w)) = script w"
proof (induction cs arbitrary: w)
  case (Cons c cs)
  show ?case using Cons[of "snd (op c w)"] op_answer[of c w] op_calls[of c w] op_script[of c w]
    by (simp add: split_beta)
qed simp

lemma was_called: "c \<in> set (calls (snd (series cs w))) \<longleftrightarrow> c \<in> set (calls w) \<or> c \<in> set cs"
  by (simp add: series_recorded)

end

section \<open>The command runner\<close>

record fake_runner =
  fr_rules :: "(string \<times> string list \<times> command_output) list"
  fr_responses :: "string \<Rightarrow> command_output option"
  fr_errors :: "string list"
  fr_calls :: "(string \<times> string list) list"

definition new_fake_runner :: fake_runner where
  "new_fake_runner = \<lparr>fr_rules = [], fr_responses = (\<lambda>_. None), fr_errors = [], fr_calls = []\<rparr>"

definition with_response :: "string \<Rightarrow> command_output \<Rightarrow> fake_runner \<Rightarrow> fake_runner" where
  "with_response program out f = f\<lparr>fr_responses := (fr_responses f)(program := Some out)\<rparr>"

definition with_error :: "string \<Rightarrow> fake_runner \<Rightarrow> fake_runner" where
  "with_error program f = f\<lparr>fr_errors := List.insert program (fr_errors f)\<rparr>"

definition on_args :: "string \<Rightarrow> string list \<Rightarrow> command_output \<Rightarrow> fake_runner \<Rightarrow> fake_runner" where
  "on_args program must out f = f\<lparr>fr_rules := fr_rules f @ [(program, must, out)]\<rparr>"

definition ran :: "string \<Rightarrow> fake_runner \<Rightarrow> bool" where
  "ran program f = list_ex (\<lambda>(p, _). p = program) (fr_calls f)"

definition fake_answer :: "fake_runner \<Rightarrow> string \<times> string list \<Rightarrow> io_error + command_output" where
  "fake_answer f = (\<lambda>(program, args).
     if program \<in> set (fr_errors f)
     then Inl \<lparr>err_kind = NotFound, err_msg = ''fake: `'' @ program @ ''` failed to spawn''\<rparr>
     else case find (\<lambda>(prog, must, out). prog = program \<and> list_all (\<lambda>m. m \<in> set args) must)
                (fr_rules f) of
         Some (prog, must, out) \<Rightarrow> Inr out
       | None \<Rightarrow>
           Inr (case fr_responses f program of
                  Some out \<Rightarrow> out
                | None \<Rightarrow> \<lparr>status = 127, stdout = [],
                           stderr = ''fake: no response programmed for `'' @ program @ ''`''\<rparr>))"

definition fake_run :: "fake_runner runner" where
  "fake_run f program args =
     (fake_answer f (program, args), f\<lparr>fr_calls := fr_calls f @ [(program, args)]\<rparr>)"

lemma fake_answer_calls [simp]: "fake_answer (f\<lparr>fr_calls := cs\<rparr>) = fake_answer f"
  by (simp add: fake_answer_def fun_eq_iff cong: option.case_cong)

interpretation fake_commands: recorder "\<lambda>(p, as) f. fake_run f p as" fr_calls
    "\<lambda>f. f\<lparr>fr_calls := []\<rparr>" fake_answer
  by unfold_locales (auto simp: fake_run_def split: prod.split)

section \<open>The spawner\<close>

text \<open>The output of a fake child is an \<open>AsyncRead\<close> over a buffer.\<close>

record fake_stdout =
  fo_data :: bytes
  fo_pos :: nat

definition new_stdout :: "bytes \<Rightarrow> fake_stdout" where
  "new_stdout data = \<lparr>fo_data = data, fo_pos = 0\<rparr>"

definition poll_read :: "nat \<Rightarrow> fake_stdout \<Rightarrow> bytes \<times> fake_stdout" where
  "poll_read room f =
     (let remaining = drop (fo_pos f) (fo_data f); n = min (length remaining) room
      in (take n remaining, f\<lparr>fo_pos := fo_pos f + n\<rparr>))"

record fake_child =
  fc_code :: "int option"
  fc_killed :: bool

definition child_wait :: "fake_child \<Rightarrow> (io_error + int option) \<times> fake_child" where
  "child_wait c = (Inr (fc_code c), c)"

definition child_kill :: "fake_child \<Rightarrow> (io_error + unit) \<times> fake_child" where
  "child_kill c = (Inr (), c\<lparr>fc_killed := True\<rparr>)"

record fake_spawner =
  fp_exit_code :: "int option"
  fp_spawns :: "(string \<times> string list) list"
  fp_stdout :: bytes

definition new_fake_spawner :: "int option \<Rightarrow> fake_spawner" where
  "new_fake_spawner code = \<lparr>fp_exit_code = code, fp_spawns = [], fp_stdout = []\<rparr>"

definition with_stdout :: "bytes \<Rightarrow> fake_spawner \<Rightarrow> fake_spawner" where
  "with_stdout bs f = f\<lparr>fp_stdout := bs\<rparr>"

definition fake_spawn_capture ::
    "fake_spawner \<Rightarrow> string \<Rightarrow> string list \<Rightarrow> (io_error + fake_child \<times> fake_stdout) \<times> fake_spawner" where
  "fake_spawn_capture f program args =
     (Inr (\<lparr>fc_code = fp_exit_code f, fc_killed = False\<rparr>, new_stdout (fp_stdout f)),
      f\<lparr>fp_spawns := fp_spawns f @ [(program, args)]\<rparr>)"

definition fake_spawn ::
    "fake_spawner \<Rightarrow> string \<Rightarrow> string list \<Rightarrow> (io_error + fake_child) \<times> fake_spawner" where
  "fake_spawn f program args =
     (Inr \<lparr>fc_code = fp_exit_code f, fc_killed = False\<rparr>,
      f\<lparr>fp_spawns := fp_spawns f @ [(program, args)]\<rparr>)"

interpretation fake_spawns: recorder "\<lambda>(p, as) f. fake_spawn f p as" fp_spawns
    fp_exit_code "\<lambda>code _. Inr \<lparr>fc_code = code, fc_killed = False\<rparr>"
  by unfold_locales (auto simp: fake_spawn_def split: prod.split)

interpretation fake_captures: recorder "\<lambda>(p, as) f. fake_spawn_capture f p as" fp_spawns
    "\<lambda>f. (fp_exit_code f, fp_stdout f)"
    "\<lambda>(code, bs) _. Inr (\<lparr>fc_code = code, fc_killed = False\<rparr>, new_stdout bs)"
  by unfold_locales (auto simp: fake_spawn_capture_def split: prod.split)

text \<open>The double behind the spawner of the capture unit, which takes a child with its output.\<close>

definition capture_double :: "(fake_spawner, fake_child \<times> fake_stdout) spawner" where
  "capture_double =
     \<lparr>spawn = fake_spawn_capture, wait = (\<lambda>(c, _) f. (fst (child_wait c), f))\<rparr>"

section \<open>The Bluetooth doubles\<close>

record fake_control =
  fk_calls :: "(string \<times> bool) list"

definition fake_set_discoverable :: "bool \<Rightarrow> fake_control \<Rightarrow> (string + unit) \<times> fake_control" where
  "fake_set_discoverable on f = (Inr (), f\<lparr>fk_calls := fk_calls f @ [(''discoverable'', on)]\<rparr>)"

definition fake_set_pairable :: "bool \<Rightarrow> fake_control \<Rightarrow> (string + unit) \<times> fake_control" where
  "fake_set_pairable on f = (Inr (), f\<lparr>fk_calls := fk_calls f @ [(''pairable'', on)]\<rparr>)"

record fake_devices =
  fd_calls :: "string list"
  fd_events :: "bluez_event list"

definition record_call :: "string \<Rightarrow> fake_devices \<Rightarrow> (string + unit) \<times> fake_devices" where
  "record_call c f = (Inr (), f\<lparr>fd_calls := fd_calls f @ [c]\<rparr>)"

definition fake_start_discovery :: "fake_devices \<Rightarrow> (string + unit) \<times> fake_devices" where
  "fake_start_discovery = record_call ''start_discovery''"

definition fake_stop_discovery :: "fake_devices \<Rightarrow> (string + unit) \<times> fake_devices" where
  "fake_stop_discovery = record_call ''stop_discovery''"

definition fake_connect :: "string \<Rightarrow> fake_devices \<Rightarrow> (string + unit) \<times> fake_devices" where
  "fake_connect addr = record_call (''connect:'' @ addr)"

definition fake_disconnect :: "string \<Rightarrow> fake_devices \<Rightarrow> (string + unit) \<times> fake_devices" where
  "fake_disconnect addr = record_call (''disconnect:'' @ addr)"

definition fake_remove_device :: "string \<Rightarrow> fake_devices \<Rightarrow> (string + unit) \<times> fake_devices" where
  "fake_remove_device addr = record_call (''remove:'' @ addr)"

definition emit :: "bluez_event \<Rightarrow> fake_devices \<Rightarrow> fake_devices" where
  "emit ev f = f\<lparr>fd_events := fd_events f @ [ev]\<rparr>"

interpretation fake_device_calls: recorder record_call fd_calls "\<lambda>_. ()" "\<lambda>_ _. Inr ()"
  by unfold_locales (auto simp: record_call_def)

section \<open>The WebRTC double\<close>

text \<open>
  The trait \<open>WebRtcController\<close> and the command loop over any controller that has it: the replies to
  the offers, and the controller after the loop, which ends with \<open>stop_all\<close>.
\<close>

record 's rtc_ops =
  ro_offer :: "uuid \<Rightarrow> string \<Rightarrow> 's \<Rightarrow> (string + string) \<times> 's"
  ro_ice :: "uuid \<Rightarrow> ice_candidate \<Rightarrow> 's \<Rightarrow> (string + unit) \<times> 's"
  ro_stop :: "uuid \<Rightarrow> 's \<Rightarrow> 's"
  ro_stop_all :: "'s \<Rightarrow> 's"

fun command_loop :: "'s rtc_ops \<Rightarrow> webrtc_command list \<Rightarrow> 's \<Rightarrow> (string + string) list \<times> 's" where
  "command_loop ops [] s = ([], ro_stop_all ops s)"
| "command_loop ops (RtcOffer u sdp # cs) s =
     (case ro_offer ops u sdp s of
        (r, s1) \<Rightarrow> (case command_loop ops cs s1 of (rs, s2) \<Rightarrow> (r # rs, s2)))"
| "command_loop ops (RtcIce u c # cs) s = command_loop ops cs (snd (ro_ice ops u c s))"
| "command_loop ops (RtcStop u # cs) s = command_loop ops cs (ro_stop ops u s)"

definition webrtc_ops :: "webrtc_lib \<Rightarrow> webrtc_controller rtc_ops" where
  "webrtc_ops L =
     \<lparr>ro_offer = (\<lambda>u sdp s. case handle_offer L u sdp s of (r, s') \<Rightarrow> (r, rtc_act [Replied r] s')),
      ro_ice = (\<lambda>u c s. (add_ice L u c s, s)), ro_stop = rtc_stop, ro_stop_all = stop_all\<rparr>"

record fake_webrtc =
  fw_calls :: "string list"

definition note_call :: "string \<Rightarrow> fake_webrtc \<Rightarrow> unit \<times> fake_webrtc" where
  "note_call c f = ((), f\<lparr>fw_calls := fw_calls f @ [c]\<rparr>)"

definition fake_handle_offer :: "uuid \<Rightarrow> string \<Rightarrow> fake_webrtc \<Rightarrow> (string + string) \<times> fake_webrtc" where
  "fake_handle_offer u sdp f = (Inr ''fake-answer'', snd (note_call ''offer'' f))"

definition fake_add_ice :: "uuid \<Rightarrow> ice_candidate \<Rightarrow> fake_webrtc \<Rightarrow> (string + unit) \<times> fake_webrtc" where
  "fake_add_ice u c f = (Inr (), snd (note_call ''ice'' f))"

definition fake_stop :: "uuid \<Rightarrow> fake_webrtc \<Rightarrow> fake_webrtc" where
  "fake_stop u f = snd (note_call ''stop'' f)"

definition fake_stop_all :: "fake_webrtc \<Rightarrow> fake_webrtc" where
  "fake_stop_all f = snd (note_call ''stop_all'' f)"

definition fake_webrtc_ops :: "fake_webrtc rtc_ops" where
  "fake_webrtc_ops =
     \<lparr>ro_offer = fake_handle_offer, ro_ice = fake_add_ice, ro_stop = fake_stop,
      ro_stop_all = fake_stop_all\<rparr>"

interpretation fake_webrtc_calls: recorder note_call fw_calls "\<lambda>_. ()" "\<lambda>_ _. ()"
  by unfold_locales (auto simp: note_call_def)

section \<open>Lemmas\<close>

text \<open>What a reader of the double sees is one piece of data, as in the model of the pipe.\<close>

definition left :: "fake_stdout \<Rightarrow> piece list" where
  "left f = (if fo_pos f < length (fo_data f) then [Piece (drop (fo_pos f) (fo_data f))] else [])"

lemma left_new: "left (new_stdout bs) = (if bs = [] then [] else [Piece bs])"
  by (auto simp: left_def new_stdout_def)

lemma poll_read_simulates:
  "read_some room (left f) = (Inr (fst (poll_read room f)), left (snd (poll_read room f)))"
  by (auto simp: left_def poll_read_def Let_def min_def add.commute)

text \<open>Reading until nothing comes, with buffers of any size that has room.\<close>

fun read_all :: "nat list \<Rightarrow> fake_stdout \<Rightarrow> bytes" where
  "read_all [] f = []"
| "read_all (room # rooms) f = fst (poll_read room f) @ read_all rooms (snd (poll_read room f))"

lemma read_all_take:
  "fo_pos f \<le> length (fo_data f) \<Longrightarrow> read_all rooms f = take (sum_list rooms) (drop (fo_pos f) (fo_data f))"
proof (induction rooms arbitrary: f)
  case (Cons room rooms)
  let ?f = "snd (poll_read room f)" and ?d = "drop (fo_pos f) (fo_data f)"
  have pos: "fo_pos ?f = fo_pos f + min (length ?d) room" "fo_data ?f = fo_data f"
    by (simp_all add: poll_read_def Let_def)
  have first: "fst (poll_read room f) = take room ?d" by (auto simp: poll_read_def Let_def min_def)
  have "read_all rooms ?f = take (sum_list rooms) (drop (fo_pos ?f) (fo_data ?f))"
    by (rule Cons.IH) (use Cons.prems pos in auto)
  also have "drop (fo_pos ?f) (fo_data ?f) = drop room ?d"
    using pos Cons.prems by (auto simp: min_def add.commute)
  finally show ?case using first by (simp add: take_add)
qed simp

section \<open>Properties\<close>

text \<open>
  The scripted runner answers and records.  Whatever commands are run, in whatever order, each is
  answered by the script alone (an injected spawn failure before a rule on the arguments, the first
  such rule before the answer for the program, and status 127 otherwise), and exactly those
  commands are recorded, in order.
\<close>

theorem fake_runner_follows_script:
  "fst (fake_commands.series cs f) = map (fake_answer f) cs
   \<and> fr_calls (snd (fake_commands.series cs f)) = fr_calls f @ cs"
  using fake_commands.series_recorded[of cs f] by simp

text \<open>
  The capture unit on the double.  Run on the fake spawner it starts the one command, and what it puts
  on the bus are the full frames of the programmed output, whose end it takes for a normal one.
\<close>

theorem capture_unit_on_double:
  "run_capture capture_double (left \<circ> snd) cmd tx f =
     ((Inr (), tx @ split_frames (fp_stdout f)),
      f\<lparr>fp_spawns := fp_spawns f @ [(cmd_program cmd, cmd_args cmd)]\<rparr>)"
  using pump_frames_pieces[of "if fp_stdout f = [] then [] else [fp_stdout f]" tx None]
  by (auto simp: run_capture_def capture_double_def fake_spawn_capture_def left_new tail_of_def
      pump_result_def split: if_splits)

text \<open>
  The loop of the program is the loop over its controller.  The step function of WebRtc, run on the
  commands and the end of the channel, is the command loop over the real operations.
\<close>

theorem webrtc_loop_is_command_loop:
  "run (webrtc_step L) s (map RtcCommand cs @ [RtcClosed]) =
     (if wc_done s then s else (snd (command_loop (webrtc_ops L) cs s))\<lparr>wc_done := True\<rparr>)"
proof (induction cs arbitrary: s)
  case (Cons c cs)
  show ?case
  proof (cases c)
    case (RtcOffer u sdp)
    have "wc_done (snd (handle_offer L u sdp s)) = wc_done s"
      by (simp add: handle_offer_def Let_def split: sum.split)
    then show ?thesis using Cons RtcOffer webrtc.halted_run[of s L]
      by (auto simp: webrtc_ops_def split: prod.split)
  qed (use Cons webrtc.halted_run[of s L] in \<open>auto simp: webrtc_ops_def\<close>)
qed (simp add: webrtc_ops_def)

fun call_of :: "webrtc_command \<Rightarrow> string" where
  "call_of (RtcOffer _ _) = ''offer''"
| "call_of (RtcIce _ _) = ''ice''"
| "call_of (RtcStop _) = ''stop''"

lemma fake_webrtc_simps:
  "ro_offer fake_webrtc_ops u sdp f = (Inr ''fake-answer'', f\<lparr>fw_calls := fw_calls f @ [''offer'']\<rparr>)"
  "ro_ice fake_webrtc_ops u c f = (Inr (), f\<lparr>fw_calls := fw_calls f @ [''ice'']\<rparr>)"
  "ro_stop fake_webrtc_ops u f = f\<lparr>fw_calls := fw_calls f @ [''stop'']\<rparr>"
  "ro_stop_all fake_webrtc_ops f = f\<lparr>fw_calls := fw_calls f @ [''stop_all'']\<rparr>"
  by (simp_all add: fake_webrtc_ops_def fake_handle_offer_def fake_add_ice_def fake_stop_def
      fake_stop_all_def note_call_def)

text \<open>
  The double records what the loop asks of it: one call for each command, in order, and \<open>stop_all\<close> once
  at the end; every offer has the canned answer.
\<close>

theorem fake_webrtc_records_loop:
  "fw_calls (snd (command_loop fake_webrtc_ops cs f)) = fw_calls f @ map call_of cs @ [''stop_all'']
   \<and> set (fst (command_loop fake_webrtc_ops cs f)) \<subseteq> {Inr ''fake-answer''}"
proof (induction cs arbitrary: f)
  case (Cons c cs)
  from Cons.IH[of "f\<lparr>fw_calls := fw_calls f @ [call_of c]\<rparr>"] show ?case
    by (cases c) (simp_all add: fake_webrtc_simps split_beta)
qed (simp add: fake_webrtc_simps)

section \<open>Tests of the sources\<close>

definition out_of_program :: "string \<Rightarrow> command_output" where
  "out_of_program txt = \<lparr>status = 0, stdout = txt, stderr = []\<rparr>"

lemma test_applies_spa_json:
  "(case apply_config fake_fs_ops fake_run SpaJson empty_fake_fs
          (with_response ''systemctl'' (out_of_program []) new_fake_runner) of
      (Inr a, k, f) \<Rightarrow>
        written_path a = ''/etc/wireplumber/wireplumber.conf.d/51-soundsync.conf''
        \<and> fake_files k (written_path a) = Some SPA_JSON
        \<and> removed_stale_path a = ''/etc/wireplumber/bluetooth.lua.d/51-soundsync-a2dp.lua''
        \<and> fake_removed k = [removed_stale_path a]
        \<and> fr_calls f = [(''systemctl'', [''--user'', ''restart'', ''wireplumber''])] \<and> restarted a
    | _ \<Rightarrow> False)"
  by (simp add: apply_config_def Let_def fake_fs_ops_def fake_remove_def fake_write_def fake_run_def
      fake_answer_def with_response_def new_fake_runner_def out_of_program_def success_def in_dir_def
      wc_path_def generate_def opposite_def empty_fake_fs_def)

lemma test_shutdown_drains: "fw_calls (snd (command_loop fake_webrtc_ops [] \<lparr>fw_calls = []\<rparr>)) = [''stop_all'']"
  by (simp add: fake_webrtc_simps)

end
